(* ===== verification/Prelude.thy ===== *)
theory Prelude
  imports Main "HOL-Library.Word"
begin

text \<open>
  What every theory of the development shares: the machine types of the Rust sources as word
  types, the result type of fallible code, the little- and big-endian byte conversions of Rust's
  integer types (\<^verbatim>\<open>to_le_bytes\<close>, \<^verbatim>\<open>from_le_bytes\<close>, \<^verbatim>\<open>to_be_bytes\<close>, \<^verbatim>\<open>from_be_bytes\<close>), the
  two interfaces that several components provide (a self-delimiting codec, an event-driven state
  machine with an invariant), and the generic list lemmas their proofs use.
\<close>

section \<open>Machine types and results\<close>

type_synonym u8 = "8 word"
type_synonym u16 = "16 word"
type_synonym u32 = "32 word"
type_synonym i32 = "32 word"
type_synonym i64 = "64 word"
type_synonym bytes = "u8 list"

abbreviation Ok :: "'a \<Rightarrow> 'e + 'a" where
  "Ok \<equiv> Inr"

abbreviation Err :: "'e \<Rightarrow> 'e + 'a" where
  "Err \<equiv> Inl"

text \<open>The \<^verbatim>\<open>?\<close> operator: stop at the first error.\<close>

definition res_bind :: "'e + 'a \<Rightarrow> ('a \<Rightarrow> 'e + 'b) \<Rightarrow> 'e + 'b" where
  "res_bind r f = (case r of Inl e \<Rightarrow> Inl e | Inr x \<Rightarrow> f x)"

lemma res_bind_simps [simp]:
  "res_bind (Inl e) f = Inl e"
  "res_bind (Inr x) f = f x"
  by (simp_all add: res_bind_def)

lemma res_bind_eq_Inr_iff: "res_bind r f = Inr y \<longleftrightarrow> (\<exists>x. r = Inr x \<and> f x = Inr y)"
  by (cases r) simp_all

lemma res_bind_eq_Inl_iff: "res_bind r f = Inl e \<longleftrightarrow> r = Inl e \<or> (\<exists>x. r = Inr x \<and> f x = Inl e)"
  by (cases r) simp_all

text \<open>The collection of rules that evaluate the wire formats on symbolic input.\<close>

named_theorems wire_simps

section \<open>Byte orders\<close>

fun le_val :: "bytes \<Rightarrow> nat" where
  "le_val [] = 0"
| "le_val (b # bs) = unat b + 256 * le_val bs"

fun le_bytes :: "nat \<Rightarrow> nat \<Rightarrow> bytes" where
  "le_bytes 0 v = []"
| "le_bytes (Suc n) v = word_of_nat v # le_bytes n (v div 256)"

definition be_val :: "bytes \<Rightarrow> nat" where
  "be_val bs = le_val (rev bs)"

definition be_bytes :: "nat \<Rightarrow> nat \<Rightarrow> bytes" where
  "be_bytes n v = rev (le_bytes n v)"

lemma unat_word_of_nat8: "unat (word_of_nat v :: u8) = v mod 256"
  by (simp add: unat_of_nat)

lemma unat_u8_less: "unat (b :: u8) < 256"
  by (rule order_less_le_trans [OF unsigned_less]) simp

lemma length_le_bytes [simp]: "length (le_bytes n v) = n"
  by (induction n arbitrary: v) auto

lemma length_be_bytes [simp]: "length (be_bytes n v) = n"
  by (simp add: be_bytes_def)

lemma le_val_le_bytes: "le_val (le_bytes n v) = v mod 256 ^ n"
proof (induction n arbitrary: v)
  case 0
  then show ?case by simp
next
  case (Suc n)
  have "v mod (256 * 256 ^ n) = 256 * (v div 256 mod 256 ^ n) + v mod 256"
    by (rule mod_mult2_eq)
  with Suc show ?case
    by (simp add: unat_word_of_nat8)
qed

lemma le_val_bound: "le_val bs < 256 ^ length bs"
proof (induction bs)
  case Nil
  then show ?case by simp
next
  case (Cons b bs)
  then have "256 * (le_val bs + 1) \<le> 256 * 256 ^ length bs"
    by (intro mult_le_mono2) simp
  with unat_u8_less [of b] show ?case by simp
qed

lemma le_bytes_le_val: "le_bytes (length bs) (le_val bs) = bs"
proof (induction bs)
  case Nil
  then show ?case by simp
next
  case (Cons b bs)
  have "(unat b + 256 * le_val bs) div 256 = le_val bs"
    using unat_u8_less [of b] by simp
  moreover have "word_of_nat (unat b + 256 * le_val bs) = b"
    using unat_u8_less [of b]
    by (intro word_unat_eq_iff [THEN iffD2]) (simp only: unat_word_of_nat8, simp)
  ultimately show ?case using Cons by simp
qed

lemma le_val_inject: "length xs = length ys \<Longrightarrow> le_val xs = le_val ys \<longleftrightarrow> xs = ys"
  by (metis le_bytes_le_val)

lemma be_val_be_bytes: "be_val (be_bytes n v) = v mod 256 ^ n"
  by (simp add: be_val_def be_bytes_def le_val_le_bytes)

lemma be_bytes_be_val: "be_bytes (length bs) (be_val bs) = bs"
  by (metis be_bytes_def be_val_def le_bytes_le_val length_rev rev_rev_ident)

lemma be_val_bound: "be_val bs < 256 ^ length bs"
  using le_val_bound [of "rev bs"] by (simp add: be_val_def)

lemma le_val_append: "le_val (xs @ ys) = le_val xs + 256 ^ length xs * le_val ys"
  by (induction xs) (auto simp: algebra_simps)

lemma le_val_replicate_0 [simp]: "le_val (replicate n 0) = 0"
  by (induction n) auto

text \<open>\<^verbatim>\<open>i64::to_le_bytes\<close> and \<^verbatim>\<open>i64::from_le_bytes\<close>, on the two's complement value.\<close>

definition i64_to_le_bytes :: "int \<Rightarrow> bytes" where
  "i64_to_le_bytes v = le_bytes 8 (unat (word_of_int v :: 64 word))"

definition i64_from_le_bytes :: "bytes \<Rightarrow> int" where
  "i64_from_le_bytes bs = sint (word_of_nat (le_val bs) :: 64 word)"

lemma length_i64_to_le_bytes [simp]: "length (i64_to_le_bytes v) = 8"
  by (simp add: i64_to_le_bytes_def)

lemma i64_le_roundtrip:
  assumes "- (2 ^ 63) \<le> v" and "v < 2 ^ 63"
  shows "i64_from_le_bytes (i64_to_le_bytes v) = v"
proof -
  have "unat (word_of_int v :: 64 word) < 256 ^ 8"
    by (rule order_less_le_trans [OF unsigned_less]) simp
  then have "le_val (i64_to_le_bytes v) = unat (word_of_int v :: 64 word)"
    by (simp add: i64_to_le_bytes_def le_val_le_bytes)
  then have "i64_from_le_bytes (i64_to_le_bytes v) = sint (word_of_int v :: 64 word)"
    by (simp add: i64_from_le_bytes_def)
  also have "\<dots> = signed_take_bit 63 v"
    by (simp add: signed_of_int)
  also have "\<dots> = v"
    using assms by (intro signed_take_bit_int_eq_self) auto
  finally show ?thesis .
qed

lemma i64_le_roundtrip_nat [wire_simps]:
  "n < 2 ^ 63 \<Longrightarrow> i64_from_le_bytes (i64_to_le_bytes (int n)) = int n"
  by (rule i64_le_roundtrip) auto

section \<open>Strings\<close>

text \<open>
  A Rust \<^verbatim>\<open>str\<close> is its UTF-8 buffer, one \<open>char\<close> per byte. \<open>utf8_valid\<close> is the check of
  \<^verbatim>\<open>std::str::from_utf8\<close>, the table of well-formed byte sequences.
\<close>

definition utf8_cont :: "nat \<Rightarrow> bool" where
  "utf8_cont b \<longleftrightarrow> 128 \<le> b \<and> b \<le> 191"

fun utf8_codes :: "nat list \<Rightarrow> bool" where
  "utf8_codes [] = True"
| "utf8_codes (a # bs) =
     (if a < 128 then utf8_codes bs
      else if 194 \<le> a \<and> a \<le> 223 then
        (case bs of b # cs \<Rightarrow> utf8_cont b \<and> utf8_codes cs | _ \<Rightarrow> False)
      else if 224 \<le> a \<and> a \<le> 239 then
        (case bs of b # c # ds \<Rightarrow>
           (if a = 224 then 160 \<le> b \<and> b \<le> 191
            else if a = 237 then 128 \<le> b \<and> b \<le> 159
            else utf8_cont b) \<and> utf8_cont c \<and> utf8_codes ds
         | _ \<Rightarrow> False)
      else if 240 \<le> a \<and> a \<le> 244 then
        (case bs of b # c # d # es \<Rightarrow>
           (if a = 240 then 144 \<le> b \<and> b \<le> 191
            else if a = 244 then 128 \<le> b \<and> b \<le> 143
            else utf8_cont b) \<and> utf8_cont c \<and> utf8_cont d \<and> utf8_codes es
         | _ \<Rightarrow> False)
      else False)"

definition utf8_valid :: "string \<Rightarrow> bool" where
  "utf8_valid s = utf8_codes (map of_char s)"

definition str_bytes :: "string \<Rightarrow> bytes" where
  "str_bytes s = map of_char s"

definition bytes_str :: "bytes \<Rightarrow> string" where
  "bytes_str bs = map (\<lambda>b. char_of (unat b)) bs"

lemma utf8_codes_ascii: "list_all (\<lambda>c. c < 128) cs \<Longrightarrow> utf8_codes cs"
  by (induction cs) auto

lemma utf8_valid_ascii: "list_all (\<lambda>c. of_char c < (128 :: nat)) s \<Longrightarrow> utf8_valid s"
  unfolding utf8_valid_def by (rule utf8_codes_ascii) (simp add: list_all_iff)

lemma utf8_valid_Nil [simp]: "utf8_valid []"
  by (simp add: utf8_valid_def)

lemma length_str_bytes [simp]: "length (str_bytes s) = length s"
  by (simp add: str_bytes_def)

lemma length_bytes_str [simp]: "length (bytes_str s) = length s"
  by (simp add: bytes_str_def)

lemma unat_of_char: "unat (of_char c :: u8) = of_char c"
proof -
  have "(of_char c :: u8) = word_of_nat (of_char c)"
    by (cases c) (simp add: of_nat_add)
  then show ?thesis
    by (simp add: unat_word_of_nat8)
qed

lemma bytes_str_str_bytes [simp]: "bytes_str (str_bytes s) = s"
  by (simp add: bytes_str_def str_bytes_def unat_of_char comp_def)

section \<open>Event-driven machines\<close>

text \<open>
  The interface the actors of the program share: a step function that consumes one stimulus, an
  invariant that every step keeps, and a log of what the machine has emitted, which only grows.
  The lemmas lift one-step facts to whole runs.
\<close>

locale invariant_machine =
  fixes step :: "'s \<Rightarrow> 'e \<Rightarrow> 's"
    and inv :: "'s \<Rightarrow> bool"
  assumes inv_step: "inv s \<Longrightarrow> inv (step s e)"
begin

lemma inv_run: "inv s \<Longrightarrow> inv (foldl step s es)"
  by (induction es arbitrary: s) (auto intro: inv_step)

end

locale logging_machine = invariant_machine step inv
  for step :: "'s \<Rightarrow> 'e \<Rightarrow> 's" and inv :: "'s \<Rightarrow> bool" +
  fixes log :: "'s \<Rightarrow> 'o list"
  assumes log_step: "inv s \<Longrightarrow> \<exists>out. log (step s e) = log s @ out"
begin

lemma log_run: "inv s \<Longrightarrow> \<exists>out. log (foldl step s es) = log s @ out"
proof (induction es arbitrary: s)
  case Nil
  then show ?case by simp
next
  case (Cons e es)
  from log_step [OF Cons.prems] obtain a where a: "log (step s e) = log s @ a" by blast
  from Cons.IH [OF inv_step [OF Cons.prems]] obtain b
    where "log (foldl step (step s e) es) = log (step s e) @ b" by blast
  with a show ?case by simp
qed

end

text \<open>
  A system whose steps are sequences of steps of its specification, as long as an invariant holds
  that its steps keep.
\<close>

locale simulation =
  fixes step :: "'s \<Rightarrow> 's \<Rightarrow> bool" and spec :: "'a \<Rightarrow> 'a \<Rightarrow> bool"
    and inv :: "'s \<Rightarrow> bool" and abs :: "'s \<Rightarrow> 'a"
  assumes inv_step: "step s s' \<Longrightarrow> inv s \<Longrightarrow> inv s'"
    and simulates: "step s s' \<Longrightarrow> inv s \<Longrightarrow> spec\<^sup>*\<^sup>* (abs s) (abs s')"
begin

lemma inv_steps: "step\<^sup>*\<^sup>* s s' \<Longrightarrow> inv s \<Longrightarrow> inv s'"
  by (induction rule: rtranclp_induct) (auto intro: inv_step)

lemma simulates_steps: "step\<^sup>*\<^sup>* s s' \<Longrightarrow> inv s \<Longrightarrow> spec\<^sup>*\<^sup>* (abs s) (abs s')"
  by (induction rule: rtranclp_induct) (auto intro: rtranclp_trans simulates inv_steps)

end

section \<open>Lists\<close>

lemma take_Suc_rev_conv: "n \<le> length xs \<Longrightarrow> rev (take n (rev xs)) = drop (length xs - n) xs"
  by (simp add: rev_take)

lemma sum_list_map_rev: "sum_list (map f (rev xs)) = (sum_list (map f xs) :: 'a :: comm_monoid_add)"
  by (induction xs) (auto simp: algebra_simps)

end
