(* ===== verification/Messages.thy ===== *)
theory Messages
  imports Prelude
begin

text \<open>
  The data of \<^verbatim>\<open>crates/et-proto/src/gen/et.rs\<close> and of \<^verbatim>\<open>crates/et-proto/src/lib.rs\<close>: the constants of
  the protocol, the three enumerations and the seventeen message structs, field by field. The
  fields of a message carry the message's name in front, and \<open>message\<close> is the sum of all of them
  (what a \<^verbatim>\<open>Message\<close> trait object can be). The codec of the messages is in \<open>Codec\<close>.
\<close>

section \<open>Constants of the protocol\<close>

definition PROTOCOL_VERSION :: i32 where
  "PROTOCOL_VERSION = 6"

definition CLIENT_SERVER_NONCE_MSB :: u8 where
  "CLIENT_SERVER_NONCE_MSB = 0"

definition SERVER_CLIENT_NONCE_MSB :: u8 where
  "SERVER_CLIENT_NONCE_MSB = 1"

definition MAX_HANDSHAKE_PROTO_LENGTH :: int where
  "MAX_HANDSHAKE_PROTO_LENGTH = 4 * 1024"

definition DEFAULT_MAX_PROTO_LENGTH :: int where
  "DEFAULT_MAX_PROTO_LENGTH = 128 * 1024 * 1024"

definition MAX_PACKET_LENGTH :: nat where
  "MAX_PACKET_LENGTH = 128 * 1024 * 1024"

definition INITIAL_RESPONSE :: u8 where
  "INITIAL_RESPONSE = 252"

definition INITIAL_PAYLOAD :: u8 where
  "INITIAL_PAYLOAD = 253"

definition HEARTBEAT :: u8 where
  "HEARTBEAT = 254"

definition KEEP_ALIVE :: u8 where
  "KEEP_ALIVE = 0"

definition TERMINAL_BUFFER :: u8 where
  "TERMINAL_BUFFER = 1"

definition TERMINAL_INFO :: u8 where
  "TERMINAL_INFO = 2"

definition PORT_FORWARD_DESTINATION_REQUEST :: u8 where
  "PORT_FORWARD_DESTINATION_REQUEST = 5"

definition PORT_FORWARD_DESTINATION_RESPONSE :: u8 where
  "PORT_FORWARD_DESTINATION_RESPONSE = 6"

definition PORT_FORWARD_DATA :: u8 where
  "PORT_FORWARD_DATA = 7"

definition TERMINAL_USER_INFO :: u8 where
  "TERMINAL_USER_INFO = 8"

definition TERMINAL_INIT :: u8 where
  "TERMINAL_INIT = 9"

definition JUMPHOST_INIT :: u8 where
  "JUMPHOST_INIT = 10"

lemmas header_defs =
  INITIAL_RESPONSE_def INITIAL_PAYLOAD_def HEARTBEAT_def KEEP_ALIVE_def TERMINAL_BUFFER_def
  TERMINAL_INFO_def PORT_FORWARD_DESTINATION_REQUEST_def PORT_FORWARD_DESTINATION_RESPONSE_def
  PORT_FORWARD_DATA_def TERMINAL_USER_INFO_def TERMINAL_INIT_def JUMPHOST_INIT_def

section \<open>Enumerations\<close>

datatype EtPacketType =
    EtPacketType_HEARTBEAT
  | EtPacketType_INITIAL_PAYLOAD
  | EtPacketType_INITIAL_RESPONSE

definition EtPacketType_from_i32 :: "i32 \<Rightarrow> EtPacketType option" where
  "EtPacketType_from_i32 value =
     (if value = 254 then Some EtPacketType_HEARTBEAT
      else if value = 253 then Some EtPacketType_INITIAL_PAYLOAD
      else if value = 252 then Some EtPacketType_INITIAL_RESPONSE
      else None)"

primrec EtPacketType_to_i32 :: "EtPacketType \<Rightarrow> i32" where
  "EtPacketType_to_i32 EtPacketType_HEARTBEAT = 254"
| "EtPacketType_to_i32 EtPacketType_INITIAL_PAYLOAD = 253"
| "EtPacketType_to_i32 EtPacketType_INITIAL_RESPONSE = 252"

primrec EtPacketType_proto_name :: "EtPacketType \<Rightarrow> string" where
  "EtPacketType_proto_name EtPacketType_HEARTBEAT = ''HEARTBEAT''"
| "EtPacketType_proto_name EtPacketType_INITIAL_PAYLOAD = ''INITIAL_PAYLOAD''"
| "EtPacketType_proto_name EtPacketType_INITIAL_RESPONSE = ''INITIAL_RESPONSE''"

definition EtPacketType_from_proto_name :: "string \<Rightarrow> EtPacketType option" where
  "EtPacketType_from_proto_name name =
     (if name = ''HEARTBEAT'' then Some EtPacketType_HEARTBEAT
      else if name = ''INITIAL_PAYLOAD'' then Some EtPacketType_INITIAL_PAYLOAD
      else if name = ''INITIAL_RESPONSE'' then Some EtPacketType_INITIAL_RESPONSE
      else None)"

definition EtPacketType_values :: "EtPacketType list" where
  "EtPacketType_values =
     [EtPacketType_HEARTBEAT,
      EtPacketType_INITIAL_PAYLOAD,
      EtPacketType_INITIAL_RESPONSE]"

datatype ConnectStatus =
    NEW_CLIENT
  | RETURNING_CLIENT
  | INVALID_KEY
  | MISMATCHED_PROTOCOL

definition ConnectStatus_from_i32 :: "i32 \<Rightarrow> ConnectStatus option" where
  "ConnectStatus_from_i32 value =
     (if value = 1 then Some NEW_CLIENT
      else if value = 2 then Some RETURNING_CLIENT
      else if value = 3 then Some INVALID_KEY
      else if value = 4 then Some MISMATCHED_PROTOCOL
      else None)"

primrec ConnectStatus_to_i32 :: "ConnectStatus \<Rightarrow> i32" where
  "ConnectStatus_to_i32 NEW_CLIENT = 1"
| "ConnectStatus_to_i32 RETURNING_CLIENT = 2"
| "ConnectStatus_to_i32 INVALID_KEY = 3"
| "ConnectStatus_to_i32 MISMATCHED_PROTOCOL = 4"

primrec ConnectStatus_proto_name :: "ConnectStatus \<Rightarrow> string" where
  "ConnectStatus_proto_name NEW_CLIENT = ''NEW_CLIENT''"
| "ConnectStatus_proto_name RETURNING_CLIENT = ''RETURNING_CLIENT''"
| "ConnectStatus_proto_name INVALID_KEY = ''INVALID_KEY''"
| "ConnectStatus_proto_name MISMATCHED_PROTOCOL = ''MISMATCHED_PROTOCOL''"

definition ConnectStatus_from_proto_name :: "string \<Rightarrow> ConnectStatus option" where
  "ConnectStatus_from_proto_name name =
     (if name = ''NEW_CLIENT'' then Some NEW_CLIENT
      else if name = ''RETURNING_CLIENT'' then Some RETURNING_CLIENT
      else if name = ''INVALID_KEY'' then Some INVALID_KEY
      else if name = ''MISMATCHED_PROTOCOL'' then Some MISMATCHED_PROTOCOL
      else None)"

definition ConnectStatus_values :: "ConnectStatus list" where
  "ConnectStatus_values =
     [NEW_CLIENT,
      RETURNING_CLIENT,
      INVALID_KEY,
      MISMATCHED_PROTOCOL]"

datatype TerminalPacketType =
    TerminalPacketType_KEEP_ALIVE
  | TerminalPacketType_TERMINAL_BUFFER
  | TerminalPacketType_TERMINAL_INFO
  | TerminalPacketType_PORT_FORWARD_DESTINATION_REQUEST
  | TerminalPacketType_PORT_FORWARD_DESTINATION_RESPONSE
  | TerminalPacketType_PORT_FORWARD_DATA
  | TerminalPacketType_TERMINAL_USER_INFO
  | TerminalPacketType_TERMINAL_INIT
  | TerminalPacketType_JUMPHOST_INIT

definition TerminalPacketType_from_i32 :: "i32 \<Rightarrow> TerminalPacketType option" where
  "TerminalPacketType_from_i32 value =
     (if value = 0 then Some TerminalPacketType_KEEP_ALIVE
      else if value = 1 then Some TerminalPacketType_TERMINAL_BUFFER
      else if value = 2 then Some TerminalPacketType_TERMINAL_INFO
      else if value = 5 then Some TerminalPacketType_PORT_FORWARD_DESTINATION_REQUEST
      else if value = 6 then Some TerminalPacketType_PORT_FORWARD_DESTINATION_RESPONSE
      else if value = 7 then Some TerminalPacketType_PORT_FORWARD_DATA
      else if value = 8 then Some TerminalPacketType_TERMINAL_USER_INFO
      else if value = 9 then Some TerminalPacketType_TERMINAL_INIT
      else if value = 10 then Some TerminalPacketType_JUMPHOST_INIT
      else None)"

primrec TerminalPacketType_to_i32 :: "TerminalPacketType \<Rightarrow> i32" where
  "TerminalPacketType_to_i32 TerminalPacketType_KEEP_ALIVE = 0"
| "TerminalPacketType_to_i32 TerminalPacketType_TERMINAL_BUFFER = 1"
| "TerminalPacketType_to_i32 TerminalPacketType_TERMINAL_INFO = 2"
| "TerminalPacketType_to_i32 TerminalPacketType_PORT_FORWARD_DESTINATION_REQUEST = 5"
| "TerminalPacketType_to_i32 TerminalPacketType_PORT_FORWARD_DESTINATION_RESPONSE = 6"
| "TerminalPacketType_to_i32 TerminalPacketType_PORT_FORWARD_DATA = 7"
| "TerminalPacketType_to_i32 TerminalPacketType_TERMINAL_USER_INFO = 8"
| "TerminalPacketType_to_i32 TerminalPacketType_TERMINAL_INIT = 9"
| "TerminalPacketType_to_i32 TerminalPacketType_JUMPHOST_INIT = 10"

primrec TerminalPacketType_proto_name :: "TerminalPacketType \<Rightarrow> string" where
  "TerminalPacketType_proto_name TerminalPacketType_KEEP_ALIVE = ''KEEP_ALIVE''"
| "TerminalPacketType_proto_name TerminalPacketType_TERMINAL_BUFFER = ''TERMINAL_BUFFER''"
| "TerminalPacketType_proto_name TerminalPacketType_TERMINAL_INFO = ''TERMINAL_INFO''"
| "TerminalPacketType_proto_name TerminalPacketType_PORT_FORWARD_DESTINATION_REQUEST = ''PORT_FORWARD_DESTINATION_REQUEST''"
| "TerminalPacketType_proto_name TerminalPacketType_PORT_FORWARD_DESTINATION_RESPONSE = ''PORT_FORWARD_DESTINATION_RESPONSE''"
| "TerminalPacketType_proto_name TerminalPacketType_PORT_FORWARD_DATA = ''PORT_FORWARD_DATA''"
| "TerminalPacketType_proto_name TerminalPacketType_TERMINAL_USER_INFO = ''TERMINAL_USER_INFO''"
| "TerminalPacketType_proto_name TerminalPacketType_TERMINAL_INIT = ''TERMINAL_INIT''"
| "TerminalPacketType_proto_name TerminalPacketType_JUMPHOST_INIT = ''JUMPHOST_INIT''"

definition TerminalPacketType_from_proto_name :: "string \<Rightarrow> TerminalPacketType option" where
  "TerminalPacketType_from_proto_name name =
     (if name = ''KEEP_ALIVE'' then Some TerminalPacketType_KEEP_ALIVE
      else if name = ''TERMINAL_BUFFER'' then Some TerminalPacketType_TERMINAL_BUFFER
      else if name = ''TERMINAL_INFO'' then Some TerminalPacketType_TERMINAL_INFO
      else if name = ''PORT_FORWARD_DESTINATION_REQUEST'' then Some TerminalPacketType_PORT_FORWARD_DESTINATION_REQUEST
      else if name = ''PORT_FORWARD_DESTINATION_RESPONSE'' then Some TerminalPacketType_PORT_FORWARD_DESTINATION_RESPONSE
      else if name = ''PORT_FORWARD_DATA'' then Some TerminalPacketType_PORT_FORWARD_DATA
      else if name = ''TERMINAL_USER_INFO'' then Some TerminalPacketType_TERMINAL_USER_INFO
      else if name = ''TERMINAL_INIT'' then Some TerminalPacketType_TERMINAL_INIT
      else if name = ''JUMPHOST_INIT'' then Some TerminalPacketType_JUMPHOST_INIT
      else None)"

definition TerminalPacketType_values :: "TerminalPacketType list" where
  "TerminalPacketType_values =
     [TerminalPacketType_KEEP_ALIVE,
      TerminalPacketType_TERMINAL_BUFFER,
      TerminalPacketType_TERMINAL_INFO,
      TerminalPacketType_PORT_FORWARD_DESTINATION_REQUEST,
      TerminalPacketType_PORT_FORWARD_DESTINATION_RESPONSE,
      TerminalPacketType_PORT_FORWARD_DATA,
      TerminalPacketType_TERMINAL_USER_INFO,
      TerminalPacketType_TERMINAL_INIT,
      TerminalPacketType_JUMPHOST_INIT]"

text \<open>The enumerations decode exactly the values they encode, by number and by name.\<close>

lemma ConnectStatus_from_to_i32 [simp]: "ConnectStatus_from_i32 (ConnectStatus_to_i32 s) = Some s"
  by (cases s) (simp_all add: ConnectStatus_from_i32_def)

lemma EtPacketType_from_to_i32: "EtPacketType_from_i32 (EtPacketType_to_i32 s) = Some s"
  by (cases s) (simp_all add: EtPacketType_from_i32_def)

lemma TerminalPacketType_from_to_i32:
  "TerminalPacketType_from_i32 (TerminalPacketType_to_i32 s) = Some s"
  by (cases s) (simp_all add: TerminalPacketType_from_i32_def)

lemma ConnectStatus_from_i32_Some:
  "ConnectStatus_from_i32 v = Some s \<longleftrightarrow> v = ConnectStatus_to_i32 s"
  by (cases s) (auto simp: ConnectStatus_from_i32_def split: if_splits)

section \<open>Messages\<close>

text \<open>
  An unknown field: its number and its data. The sources construct only the varint case; data of
  any other wire type is the raw bytes the runtime keeps.
\<close>

datatype UnknownFieldData = UVarint "64 word" | UOther bytes

datatype UnknownField = UnknownField nat UnknownFieldData

record ConnectRequest =
  ConnectRequest_clientId :: "string option"
  ConnectRequest_version :: "i32 option"
  ConnectRequest_unknown_fields :: "UnknownField list"

definition ConnectRequest_default :: ConnectRequest where
  "ConnectRequest_default =
     \<lparr>ConnectRequest_clientId = None,
      ConnectRequest_version = None,
      ConnectRequest_unknown_fields = []\<rparr>"

record ConnectResponse =
  ConnectResponse_status :: "ConnectStatus option"
  ConnectResponse_error :: "string option"
  ConnectResponse_unknown_fields :: "UnknownField list"

definition ConnectResponse_default :: ConnectResponse where
  "ConnectResponse_default =
     \<lparr>ConnectResponse_status = None,
      ConnectResponse_error = None,
      ConnectResponse_unknown_fields = []\<rparr>"

record SequenceHeader =
  SequenceHeader_sequenceNumber :: "i32 option"
  SequenceHeader_unknown_fields :: "UnknownField list"

definition SequenceHeader_default :: SequenceHeader where
  "SequenceHeader_default =
     \<lparr>SequenceHeader_sequenceNumber = None,
      SequenceHeader_unknown_fields = []\<rparr>"

record CatchupBuffer =
  CatchupBuffer_buffer :: "bytes list"
  CatchupBuffer_unknown_fields :: "UnknownField list"

definition CatchupBuffer_default :: CatchupBuffer where
  "CatchupBuffer_default =
     \<lparr>CatchupBuffer_buffer = [],
      CatchupBuffer_unknown_fields = []\<rparr>"

record SocketEndpoint =
  SocketEndpoint_name :: "string option"
  SocketEndpoint_port :: "i32 option"
  SocketEndpoint_unknown_fields :: "UnknownField list"

definition SocketEndpoint_default :: SocketEndpoint where
  "SocketEndpoint_default =
     \<lparr>SocketEndpoint_name = None,
      SocketEndpoint_port = None,
      SocketEndpoint_unknown_fields = []\<rparr>"

record TerminalBuffer =
  TerminalBuffer_buffer :: "bytes option"
  TerminalBuffer_unknown_fields :: "UnknownField list"

definition TerminalBuffer_default :: TerminalBuffer where
  "TerminalBuffer_default =
     \<lparr>TerminalBuffer_buffer = None,
      TerminalBuffer_unknown_fields = []\<rparr>"

record TerminalInfo =
  TerminalInfo_id :: "string option"
  TerminalInfo_row :: "i32 option"
  TerminalInfo_column :: "i32 option"
  TerminalInfo_width :: "i32 option"
  TerminalInfo_height :: "i32 option"
  TerminalInfo_unknown_fields :: "UnknownField list"

definition TerminalInfo_default :: TerminalInfo where
  "TerminalInfo_default =
     \<lparr>TerminalInfo_id = None,
      TerminalInfo_row = None,
      TerminalInfo_column = None,
      TerminalInfo_width = None,
      TerminalInfo_height = None,
      TerminalInfo_unknown_fields = []\<rparr>"

record PortForwardSourceRequest =
  PortForwardSourceRequest_source :: "SocketEndpoint option"
  PortForwardSourceRequest_destination :: "SocketEndpoint option"
  PortForwardSourceRequest_environmentvariable :: "string option"
  PortForwardSourceRequest_unknown_fields :: "UnknownField list"

definition PortForwardSourceRequest_default :: PortForwardSourceRequest where
  "PortForwardSourceRequest_default =
     \<lparr>PortForwardSourceRequest_source = None,
      PortForwardSourceRequest_destination = None,
      PortForwardSourceRequest_environmentvariable = None,
      PortForwardSourceRequest_unknown_fields = []\<rparr>"

record PortForwardSourceResponse =
  PortForwardSourceResponse_error :: "string option"
  PortForwardSourceResponse_unknown_fields :: "UnknownField list"

definition PortForwardSourceResponse_default :: PortForwardSourceResponse where
  "PortForwardSourceResponse_default =
     \<lparr>PortForwardSourceResponse_error = None,
      PortForwardSourceResponse_unknown_fields = []\<rparr>"

record PortForwardDestinationRequest =
  PortForwardDestinationRequest_destination :: "SocketEndpoint option"
  PortForwardDestinationRequest_fd :: "i32 option"
  PortForwardDestinationRequest_unknown_fields :: "UnknownField list"

definition PortForwardDestinationRequest_default :: PortForwardDestinationRequest where
  "PortForwardDestinationRequest_default =
     \<lparr>PortForwardDestinationRequest_destination = None,
      PortForwardDestinationRequest_fd = None,
      PortForwardDestinationRequest_unknown_fields = []\<rparr>"

record PortForwardDestinationResponse =
  PortForwardDestinationResponse_clientfd :: "i32 option"
  PortForwardDestinationResponse_socketid :: "i32 option"
  PortForwardDestinationResponse_error :: "string option"
  PortForwardDestinationResponse_unknown_fields :: "UnknownField list"

definition PortForwardDestinationResponse_default :: PortForwardDestinationResponse where
  "PortForwardDestinationResponse_default =
     \<lparr>PortForwardDestinationResponse_clientfd = None,
      PortForwardDestinationResponse_socketid = None,
      PortForwardDestinationResponse_error = None,
      PortForwardDestinationResponse_unknown_fields = []\<rparr>"

record PortForwardData =
  PortForwardData_sourcetodestination :: "bool option"
  PortForwardData_socketid :: "i32 option"
  PortForwardData_buffer :: "bytes option"
  PortForwardData_error :: "string option"
  PortForwardData_closed :: "bool option"
  PortForwardData_unknown_fields :: "UnknownField list"

definition PortForwardData_default :: PortForwardData where
  "PortForwardData_default =
     \<lparr>PortForwardData_sourcetodestination = None,
      PortForwardData_socketid = None,
      PortForwardData_buffer = None,
      PortForwardData_error = None,
      PortForwardData_closed = None,
      PortForwardData_unknown_fields = []\<rparr>"

record InitialPayload =
  InitialPayload_jumphost :: "bool option"
  InitialPayload_reversetunnels :: "PortForwardSourceRequest list"
  InitialPayload_environmentvariables :: "string \<rightharpoonup> string"
  InitialPayload_unknown_fields :: "UnknownField list"

definition InitialPayload_default :: InitialPayload where
  "InitialPayload_default =
     \<lparr>InitialPayload_jumphost = None,
      InitialPayload_reversetunnels = [],
      InitialPayload_environmentvariables = Map.empty,
      InitialPayload_unknown_fields = []\<rparr>"

record InitialResponse =
  InitialResponse_error :: "string option"
  InitialResponse_unknown_fields :: "UnknownField list"

definition InitialResponse_default :: InitialResponse where
  "InitialResponse_default =
     \<lparr>InitialResponse_error = None,
      InitialResponse_unknown_fields = []\<rparr>"

record ConfigParams =
  ConfigParams_vlevel :: "i32 option"
  ConfigParams_minloglevel :: "i32 option"
  ConfigParams_unknown_fields :: "UnknownField list"

definition ConfigParams_default :: ConfigParams where
  "ConfigParams_default =
     \<lparr>ConfigParams_vlevel = None,
      ConfigParams_minloglevel = None,
      ConfigParams_unknown_fields = []\<rparr>"

record TermInit =
  TermInit_environmentnames :: "string list"
  TermInit_environmentvalues :: "string list"
  TermInit_unknown_fields :: "UnknownField list"

definition TermInit_default :: TermInit where
  "TermInit_default =
     \<lparr>TermInit_environmentnames = [],
      TermInit_environmentvalues = [],
      TermInit_unknown_fields = []\<rparr>"

record TerminalUserInfo =
  TerminalUserInfo_id :: "string option"
  TerminalUserInfo_passkey :: "string option"
  TerminalUserInfo_uid :: "i64 option"
  TerminalUserInfo_gid :: "i64 option"
  TerminalUserInfo_fd :: "i64 option"
  TerminalUserInfo_unknown_fields :: "UnknownField list"

definition TerminalUserInfo_default :: TerminalUserInfo where
  "TerminalUserInfo_default =
     \<lparr>TerminalUserInfo_id = None,
      TerminalUserInfo_passkey = None,
      TerminalUserInfo_uid = None,
      TerminalUserInfo_gid = None,
      TerminalUserInfo_fd = None,
      TerminalUserInfo_unknown_fields = []\<rparr>"


datatype message =
    Msg_ConnectRequest (un_ConnectRequest: ConnectRequest)
  | Msg_ConnectResponse (un_ConnectResponse: ConnectResponse)
  | Msg_SequenceHeader (un_SequenceHeader: SequenceHeader)
  | Msg_CatchupBuffer (un_CatchupBuffer: CatchupBuffer)
  | Msg_SocketEndpoint (un_SocketEndpoint: SocketEndpoint)
  | Msg_TerminalBuffer (un_TerminalBuffer: TerminalBuffer)
  | Msg_TerminalInfo (un_TerminalInfo: TerminalInfo)
  | Msg_PortForwardSourceRequest (un_PortForwardSourceRequest: PortForwardSourceRequest)
  | Msg_PortForwardSourceResponse (un_PortForwardSourceResponse: PortForwardSourceResponse)
  | Msg_PortForwardDestinationRequest (un_PortForwardDestinationRequest: PortForwardDestinationRequest)
  | Msg_PortForwardDestinationResponse (un_PortForwardDestinationResponse: PortForwardDestinationResponse)
  | Msg_PortForwardData (un_PortForwardData: PortForwardData)
  | Msg_InitialPayload (un_InitialPayload: InitialPayload)
  | Msg_InitialResponse (un_InitialResponse: InitialResponse)
  | Msg_ConfigParams (un_ConfigParams: ConfigParams)
  | Msg_TermInit (un_TermInit: TermInit)
  | Msg_TerminalUserInfo (un_TerminalUserInfo: TerminalUserInfo)

end
