(* ===== verification/Buffa.thy ===== *)
theory Buffa
  imports Messages
begin

text \<open>
  The protobuf runtime (the \<^verbatim>\<open>buffa\<close> crate), which the generated code calls and which is not part of
  the repository: a parameter of every codec definition, the record \<open>buffa\<close> with one field per
  function the generated code calls. \<open>buffa_ok\<close> states what the code relies on, the protobuf wire
  format as documented: a written field is read back under its tag by the matching decoder,
  encoded lengths are the lengths written, the decode loop hands every field to
  \<^verbatim>\<open>merge_field\<close> until the input is used up, and decoding stays possible while the decode context
  has room for the elements registered with it. Field numbers are those of a one byte tag, 1 to
  15; the schema uses 1 to 5.
\<close>

section \<open>Decoders\<close>

datatype WireType = Varint | Fixed64 | LengthDelimited | StartGroup | EndGroup | Fixed32

record Tag =
  field_number :: nat
  wire_type :: WireType

datatype DecodeError = DecodeError nat

text \<open>The unread input and the state of the decode context (opaque).\<close>

record dbuf =
  remaining :: bytes
  dctx :: nat

type_synonym 'a dec = "dbuf \<Rightarrow> DecodeError + 'a \<times> dbuf"

definition dret :: "'a \<Rightarrow> 'a dec" where
  "dret x = (\<lambda>b. Ok (x, b))"

definition dbind :: "'a dec \<Rightarrow> ('a \<Rightarrow> 'b dec) \<Rightarrow> 'b dec" where
  "dbind d f = (\<lambda>b. case d b of Inl e \<Rightarrow> Err e | Inr (x, b') \<Rightarrow> f x b')"

definition dmap :: "('a \<Rightarrow> 'b) \<Rightarrow> 'a dec \<Rightarrow> 'b dec" where
  "dmap f d = dbind d (\<lambda>x. dret (f x))"

lemma dbind_dret [simp]: "dbind (dret x) f = f x"
  by (simp add: dbind_def dret_def)

lemma dret_apply [simp]: "dret x b = Ok (x, b)"
  by (simp add: dret_def)

lemma dbind_Ok: "d b = Ok (x, b') \<Longrightarrow> dbind d f b = f x b'"
  by (simp add: dbind_def)

lemma dmap_Ok: "d b = Ok (x, b') \<Longrightarrow> dmap f d b = Ok (f x, b')"
  by (simp add: dmap_def dbind_def)

lemma dmap_Err: "d b = Err e \<Longrightarrow> dmap f d b = Err e"
  by (simp add: dmap_def dbind_def)

section \<open>The runtime\<close>

record buffa =
  put_int32_field :: "nat \<Rightarrow> i32 \<Rightarrow> bytes"
  put_int64_field :: "nat \<Rightarrow> i64 \<Rightarrow> bytes"
  put_bool_field :: "nat \<Rightarrow> bool \<Rightarrow> bytes"
  put_string_field :: "nat \<Rightarrow> string \<Rightarrow> bytes"
  put_shared_bytes_field :: "nat \<Rightarrow> bytes \<Rightarrow> bytes"
  put_len_delimited_header :: "nat \<Rightarrow> nat \<Rightarrow> bytes"
  unknown_write_to :: "UnknownField list \<Rightarrow> bytes"
  map_write_field :: "(string \<rightharpoonup> string) \<Rightarrow> nat \<Rightarrow> bytes"
  int32_encoded_len :: "i32 \<Rightarrow> nat"
  int64_encoded_len :: "i64 \<Rightarrow> nat"
  BOOL_ENCODED_LEN :: nat
  string_encoded_len :: "string \<Rightarrow> nat"
  bytes_encoded_len :: "bytes \<Rightarrow> nat"
  varint_len :: "nat \<Rightarrow> nat"
  unknown_encoded_len :: "UnknownField list \<Rightarrow> nat"
  map_field_len :: "(string \<rightharpoonup> string) \<Rightarrow> nat \<Rightarrow> nat"
  saturate_size :: "nat \<Rightarrow> nat"
  decode_tag :: "Tag dec"
  check_wire_type :: "Tag \<Rightarrow> WireType \<Rightarrow> unit dec"
  decode_int32 :: "i32 dec"
  decode_int64 :: "i64 dec"
  decode_bool :: "bool dec"
  decode_string :: "string dec"
  decode_bytes :: "bytes dec"
  merge_string :: "string \<Rightarrow> string dec"
  merge_bytes :: "bytes \<Rightarrow> bytes dec"
  decode_unknown_field :: "Tag \<Rightarrow> UnknownField dec"
  map_merge_entry :: "(string \<rightharpoonup> string) \<Rightarrow> (string \<rightharpoonup> string) dec"
  register_unknown_field :: "unit dec"
  register_element_memory :: "nat \<Rightarrow> unit dec"
  element_footprint_bytes :: "bytes \<Rightarrow> nat"
  element_footprint_string :: "string \<Rightarrow> nat"
  element_footprint_source_request :: "PortForwardSourceRequest \<Rightarrow> nat"
  merge_length_delimited :: "(message \<Rightarrow> Tag \<Rightarrow> message dec) \<Rightarrow> message \<Rightarrow> message dec"
  decode_all :: "(message \<Rightarrow> Tag \<Rightarrow> message dec) \<Rightarrow> message \<Rightarrow> message dec"
  fresh_ctx :: nat
  map_entry_cost :: "string \<Rightarrow> string \<Rightarrow> nat"
  roomy :: "nat \<Rightarrow> nat \<Rightarrow> bool"
  decode_limit :: nat

text \<open>
  The last three fields are not functions of the crate: \<open>roomy c k\<close> says that context \<open>c\<close> accepts
  \<open>k\<close> more units (registered element memory, one per nested message), \<open>decode_limit\<close> how many a
  fresh context accepts, \<open>map_entry_cost\<close> what a map entry uses.
\<close>

definition small_field :: "nat \<Rightarrow> bool" where
  "small_field n \<longleftrightarrow> 1 \<le> n \<and> n \<le> 15"

text \<open>The chunk \<open>f\<close> is field \<open>n\<close> of wire type \<open>wt\<close>, and \<open>op\<close> reads its value \<open>v\<close> back.\<close>

definition puts :: "buffa \<Rightarrow> bytes \<Rightarrow> nat \<Rightarrow> WireType \<Rightarrow> 'a dec \<Rightarrow> 'a \<Rightarrow> bool" where
  "puts rt f n wt op v \<longleftrightarrow>
     (\<forall>rest c. \<exists>body. length body < length f \<and>
        decode_tag rt \<lparr>remaining = f @ rest, dctx = c\<rparr> =
          Ok (\<lparr>field_number = n, wire_type = wt\<rparr>, \<lparr>remaining = body @ rest, dctx = c\<rparr>) \<and>
        op \<lparr>remaining = body @ rest, dctx = c\<rparr> = Ok (v, \<lparr>remaining = rest, dctx = c\<rparr>))"

text \<open>Protobuf bounds a length delimited field by two gibibytes, and a string is valid UTF-8.\<close>

definition wire_bytes :: "bytes \<Rightarrow> bool" where
  "wire_bytes bs \<longleftrightarrow> length bs < 2 ^ 31"

definition wire_text :: "string \<Rightarrow> bool" where
  "wire_text s \<longleftrightarrow> utf8_valid s \<and> length s < 2 ^ 31"

definition scalar_laws :: "buffa \<Rightarrow> bool" where
  "scalar_laws rt \<longleftrightarrow>
     (\<forall>n v. small_field n \<longrightarrow> puts rt (put_int32_field rt n v) n Varint (decode_int32 rt) v) \<and>
     (\<forall>n v. small_field n \<longrightarrow> puts rt (put_int64_field rt n v) n Varint (decode_int64 rt) v) \<and>
     (\<forall>n v. small_field n \<longrightarrow> puts rt (put_bool_field rt n v) n Varint (decode_bool rt) v) \<and>
     (\<forall>n v old. small_field n \<longrightarrow> wire_text v \<longrightarrow>
        puts rt (put_string_field rt n v) n LengthDelimited (merge_string rt old) v) \<and>
     (\<forall>n v. small_field n \<longrightarrow> wire_text v \<longrightarrow>
        puts rt (put_string_field rt n v) n LengthDelimited (decode_string rt) v) \<and>
     (\<forall>n v old. small_field n \<longrightarrow> wire_bytes v \<longrightarrow>
        puts rt (put_shared_bytes_field rt n v) n LengthDelimited (merge_bytes rt old) v) \<and>
     (\<forall>n v. small_field n \<longrightarrow> wire_bytes v \<longrightarrow>
        puts rt (put_shared_bytes_field rt n v) n LengthDelimited (decode_bytes rt) v) \<and>
     (\<forall>n wt. check_wire_type rt \<lparr>field_number = n, wire_type = wt\<rparr> wt = dret ()) \<and>
     unknown_write_to rt [] = []"

definition size_laws :: "buffa \<Rightarrow> bool" where
  "size_laws rt \<longleftrightarrow>
     (\<forall>n v. small_field n \<longrightarrow> length (put_int32_field rt n v) = 1 + int32_encoded_len rt v) \<and>
     (\<forall>n v. small_field n \<longrightarrow> length (put_int64_field rt n v) = 1 + int64_encoded_len rt v) \<and>
     (\<forall>n v. small_field n \<longrightarrow> length (put_bool_field rt n v) = 1 + BOOL_ENCODED_LEN rt) \<and>
     (\<forall>n v. small_field n \<longrightarrow> length (put_string_field rt n v) = 1 + string_encoded_len rt v) \<and>
     (\<forall>n v. small_field n \<longrightarrow> length (put_shared_bytes_field rt n v) = 1 + bytes_encoded_len rt v) \<and>
     (\<forall>n k. small_field n \<longrightarrow> length (put_len_delimited_header rt n k) = 1 + varint_len rt k) \<and>
     (\<forall>us. length (unknown_write_to rt us) = unknown_encoded_len rt us) \<and>
     (\<forall>n e. small_field n \<longrightarrow> finite (dom e) \<longrightarrow>
        length (map_write_field rt e n) = map_field_len rt e 1) \<and>
     (\<forall>k. saturate_size rt k = min k (2 ^ 32 - 1)) \<and>
     (\<forall>v. int32_encoded_len rt v \<le> 10)"

definition context_laws :: "buffa \<Rightarrow> bool" where
  "context_laws rt \<longleftrightarrow>
     roomy rt (fresh_ctx rt) (decode_limit rt) \<and>
     (\<forall>c j k. roomy rt c k \<longrightarrow> j \<le> k \<longrightarrow> roomy rt c j) \<and>
     (\<forall>a bs c k. roomy rt c (a + k) \<longrightarrow>
        (\<exists>c'. roomy rt c' k \<and>
           register_element_memory rt a \<lparr>remaining = bs, dctx = c\<rparr> =
             Ok ((), \<lparr>remaining = bs, dctx = c'\<rparr>))) \<and>
     (\<forall>bs c k. roomy rt c (Suc k) \<longrightarrow>
        (\<exists>c'. roomy rt c' k \<and>
           register_unknown_field rt \<lparr>remaining = bs, dctx = c\<rparr> =
             Ok ((), \<lparr>remaining = bs, dctx = c'\<rparr>)))"

definition loop_laws :: "buffa \<Rightarrow> bool" where
  "loop_laws rt \<longleftrightarrow>
     (\<forall>mf m c. decode_all rt mf m \<lparr>remaining = [], dctx = c\<rparr> =
        Ok (m, \<lparr>remaining = [], dctx = c\<rparr>)) \<and>
     (\<forall>mf m m' t b b1 b2. remaining b \<noteq> [] \<longrightarrow> decode_tag rt b = Ok (t, b1) \<longrightarrow>
        mf m t b1 = Ok (m', b2) \<longrightarrow> length (remaining b2) < length (remaining b) \<longrightarrow>
        decode_all rt mf m b = decode_all rt mf m' b2) \<and>
     (\<forall>mf m b e. remaining b \<noteq> [] \<longrightarrow> decode_tag rt b = Err e \<longrightarrow> decode_all rt mf m b = Err e) \<and>
     (\<forall>mf m t b b1 e. remaining b \<noteq> [] \<longrightarrow> decode_tag rt b = Ok (t, b1) \<longrightarrow>
        mf m t b1 = Err e \<longrightarrow> decode_all rt mf m b = Err e)"

text \<open>
  A nested message: its header carries the length of the payload, and merging runs the decode
  loop over exactly that payload.
\<close>

definition nested_laws :: "buffa \<Rightarrow> bool" where
  "nested_laws rt \<longleftrightarrow>
     (\<forall>n p rest. small_field n \<longrightarrow> length p < 2 ^ 31 \<longrightarrow>
        (\<exists>body. length body < length (put_len_delimited_header rt n (length p)) \<and>
           (\<forall>c. decode_tag rt \<lparr>remaining = put_len_delimited_header rt n (length p) @ p @ rest, dctx = c\<rparr> =
              Ok (\<lparr>field_number = n, wire_type = LengthDelimited\<rparr>,
                  \<lparr>remaining = body @ p @ rest, dctx = c\<rparr>)) \<and>
           (\<forall>c k. roomy rt c (Suc k) \<longrightarrow>
              (\<exists>d. roomy rt d k \<and>
                (\<forall>mf m m' d'. decode_all rt mf m \<lparr>remaining = p, dctx = d\<rparr> =
                     Ok (m', \<lparr>remaining = [], dctx = d'\<rparr>) \<longrightarrow>
                   (\<exists>c'. (\<forall>j. roomy rt d' j \<longrightarrow> roomy rt c' j) \<and>
                      merge_length_delimited rt mf m \<lparr>remaining = body @ p @ rest, dctx = c\<rparr> =
                        Ok (m', \<lparr>remaining = rest, dctx = c'\<rparr>)))))))"

text \<open>A map is written entry by entry, in some order, and merged entry by entry.\<close>

definition map_laws :: "buffa \<Rightarrow> bool" where
  "map_laws rt \<longleftrightarrow>
     (\<exists>entry. \<forall>n. small_field n \<longrightarrow>
        (\<forall>e. finite (dom e) \<longrightarrow>
           (\<exists>kvs. distinct (map fst kvs) \<and> map_of kvs = e \<and>
              map_write_field rt e n = concat (map (\<lambda>(k, v). entry n k v) kvs))) \<and>
        (\<forall>k v acc rest c j. wire_text k \<longrightarrow> wire_text v \<longrightarrow> length k + length v < 2 ^ 30 \<longrightarrow>
           roomy rt c (map_entry_cost rt k v + j) \<longrightarrow>
           (\<exists>body c'. length body < length (entry n k v) \<and> roomy rt c' j \<and>
              decode_tag rt \<lparr>remaining = entry n k v @ rest, dctx = c\<rparr> =
                Ok (\<lparr>field_number = n, wire_type = LengthDelimited\<rparr>,
                    \<lparr>remaining = body @ rest, dctx = c\<rparr>) \<and>
              map_merge_entry rt acc \<lparr>remaining = body @ rest, dctx = c\<rparr> =
                Ok (acc(k \<mapsto> v), \<lparr>remaining = rest, dctx = c'\<rparr>))))"

definition buffa_ok :: "buffa \<Rightarrow> bool" where
  "buffa_ok rt \<longleftrightarrow>
     scalar_laws rt \<and> size_laws rt \<and> context_laws rt \<and> loop_laws rt \<and> nested_laws rt \<and> map_laws rt"

section \<open>Decoding a message of a given type\<close>

definition lift_merge ::
    "('a \<Rightarrow> message) \<Rightarrow> (message \<Rightarrow> 'a) \<Rightarrow> ('a \<Rightarrow> Tag \<Rightarrow> 'a dec) \<Rightarrow> message \<Rightarrow> Tag \<Rightarrow> message dec" where
  "lift_merge con un mf = (\<lambda>m tag. dmap con (mf (un m) tag))"

definition run_typed ::
    "buffa \<Rightarrow> ('a \<Rightarrow> message) \<Rightarrow> (message \<Rightarrow> 'a) \<Rightarrow> ('a \<Rightarrow> Tag \<Rightarrow> 'a dec) \<Rightarrow> 'a \<Rightarrow> 'a dec" where
  "run_typed rt con un mf x = dmap un (decode_all rt (lift_merge con un mf) (con x))"

definition decode_typed ::
    "buffa \<Rightarrow> ('a \<Rightarrow> message) \<Rightarrow> (message \<Rightarrow> 'a) \<Rightarrow> ('a \<Rightarrow> Tag \<Rightarrow> 'a dec) \<Rightarrow> 'a \<Rightarrow> bytes \<Rightarrow>
      DecodeError + 'a" where
  "decode_typed rt con un mf x bs =
     (case run_typed rt con un mf x \<lparr>remaining = bs, dctx = fresh_ctx rt\<rparr> of
        Inl e \<Rightarrow> Err e
      | Inr (m, b) \<Rightarrow> Ok m)"

named_theorems codec_steps

lemma puts_int32: "buffa_ok rt \<Longrightarrow> small_field n \<Longrightarrow> puts rt (put_int32_field rt n i) n Varint (decode_int32 rt) i"
  and puts_int64: "buffa_ok rt \<Longrightarrow> small_field n \<Longrightarrow> puts rt (put_int64_field rt n l) n Varint (decode_int64 rt) l"
  and puts_bool: "buffa_ok rt \<Longrightarrow> small_field n \<Longrightarrow> puts rt (put_bool_field rt n t) n Varint (decode_bool rt) t"
  and puts_string: "buffa_ok rt \<Longrightarrow> wire_text s \<Longrightarrow> small_field n \<Longrightarrow>
    puts rt (put_string_field rt n s) n LengthDelimited (merge_string rt old) s"
  and puts_decode_string: "buffa_ok rt \<Longrightarrow> wire_text s \<Longrightarrow> small_field n \<Longrightarrow>
    puts rt (put_string_field rt n s) n LengthDelimited (decode_string rt) s"
  and puts_bytes: "buffa_ok rt \<Longrightarrow> wire_bytes bs \<Longrightarrow> small_field n \<Longrightarrow>
    puts rt (put_shared_bytes_field rt n bs) n LengthDelimited (merge_bytes rt oldb) bs"
  and puts_decode_bytes: "buffa_ok rt \<Longrightarrow> wire_bytes bs \<Longrightarrow> small_field n \<Longrightarrow>
    puts rt (put_shared_bytes_field rt n bs) n LengthDelimited (decode_bytes rt) bs"
  by (auto simp: buffa_ok_def scalar_laws_def)

lemma length_puts:
  assumes "buffa_ok rt"
  shows "small_field n \<Longrightarrow> length (put_int32_field rt n i) = 1 + int32_encoded_len rt i"
    and "small_field n \<Longrightarrow> length (put_int64_field rt n l) = 1 + int64_encoded_len rt l"
    and "small_field n \<Longrightarrow> length (put_bool_field rt n t) = 1 + BOOL_ENCODED_LEN rt"
    and "small_field n \<Longrightarrow> length (put_string_field rt n s) = 1 + string_encoded_len rt s"
    and "small_field n \<Longrightarrow> length (put_shared_bytes_field rt n bs) = 1 + bytes_encoded_len rt bs"
    and "small_field n \<Longrightarrow> length (put_len_delimited_header rt n k) = 1 + varint_len rt k"
    and "length (unknown_write_to rt us) = unknown_encoded_len rt us"
    and "small_field n \<Longrightarrow> finite (dom e) \<Longrightarrow> length (map_write_field rt e n) = map_field_len rt e 1"
    and "saturate_size rt k = min k (2 ^ 32 - 1)"
    and "int32_encoded_len rt i \<le> 10"
  using assms unfolding buffa_ok_def size_laws_def by blast+

lemmas size_steps = length_puts

lemma check_wire_type_ok [simp]:
  "buffa_ok rt \<Longrightarrow> check_wire_type rt \<lparr>field_number = n, wire_type = wt\<rparr> wt = dret ()"
  by (auto simp: buffa_ok_def scalar_laws_def)

lemma unknown_write_to_Nil [simp]: "buffa_ok rt \<Longrightarrow> unknown_write_to rt [] = []"
  by (auto simp: buffa_ok_def scalar_laws_def)

lemma run_typed_Nil:
  assumes "buffa_ok rt" and "\<And>y. un (con y) = y"
  shows "run_typed rt con un mf x \<lparr>remaining = [], dctx = c\<rparr> =
    Ok (x, \<lparr>remaining = [], dctx = c\<rparr>)"
  using assms by (simp add: run_typed_def buffa_ok_def loop_laws_def dmap_Ok)

text \<open>One turn of the decode loop: a field that \<^verbatim>\<open>merge_field\<close> accepts is consumed.\<close>

lemma run_turn:
  assumes rt: "buffa_ok rt" and un: "\<And>y. un (con y) = y"
    and tag: "decode_tag rt b = Ok (t, b1)" and mf: "mf x t b1 = Ok (y, b2)"
    and shorter: "length (remaining b2) < length (remaining b)"
  shows "run_typed rt con un mf x b = run_typed rt con un mf y b2"
proof -
  have "lift_merge con un mf (con x) t b1 = Ok (con y, b2)"
    by (simp add: lift_merge_def un mf dmap_Ok)
  moreover have "remaining b \<noteq> []"
    using shorter by auto
  ultimately have "decode_all rt (lift_merge con un mf) (con x) b =
      decode_all rt (lift_merge con un mf) (con y) b2"
    using rt tag shorter unfolding buffa_ok_def loop_laws_def by blast
  then show ?thesis
    by (simp add: run_typed_def dmap_def dbind_def)
qed

lemma run_step:
  assumes "buffa_ok rt" and p: "puts rt f n wt op v" and "\<And>y. un (con y) = y"
    and mf: "\<And>b b'. op b = Ok (v, b') \<Longrightarrow> mf x \<lparr>field_number = n, wire_type = wt\<rparr> b = Ok (y, b')"
  shows "run_typed rt con un mf x \<lparr>remaining = f @ rest, dctx = c\<rparr> =
    run_typed rt con un mf y \<lparr>remaining = rest, dctx = c\<rparr>"
proof -
  from p obtain body where "length body < length f"
    and "decode_tag rt \<lparr>remaining = f @ rest, dctx = c\<rparr> =
      Ok (\<lparr>field_number = n, wire_type = wt\<rparr>, \<lparr>remaining = body @ rest, dctx = c\<rparr>)"
    and "op \<lparr>remaining = body @ rest, dctx = c\<rparr> = Ok (v, \<lparr>remaining = rest, dctx = c\<rparr>)"
    unfolding puts_def by blast
  with assms(1,3) mf show ?thesis
    by (intro run_turn) auto
qed

text \<open>An optional field: written, and merged, when it is set.\<close>

lemma run_opt:
  assumes "buffa_ok rt" and p: "\<And>v. opt = Some v \<Longrightarrow> puts rt (put v) n wt (op v) (val v)"
    and "\<And>y. un (con y) = y"
    and "\<And>v b b'. opt = Some v \<Longrightarrow> op v b = Ok (val v, b') \<Longrightarrow>
      mf x \<lparr>field_number = n, wire_type = wt\<rparr> b = Ok (y, b')"
    and "opt = None \<Longrightarrow> y = x"
  shows "run_typed rt con un mf x
      \<lparr>remaining = (case opt of None \<Rightarrow> [] | Some v \<Rightarrow> put v) @ rest, dctx = c\<rparr> =
    run_typed rt con un mf y \<lparr>remaining = rest, dctx = c\<rparr>"
proof (cases opt)
  case (Some v)
  then show ?thesis
    using run_step [where op = "op v", OF assms(1) p assms(3)] assms(4) by simp
qed (use assms(5) in simp)

text \<open>A repeated field: every element is decoded, registered and appended.\<close>

lemma run_repeated:
  assumes rt: "buffa_ok rt" and un: "\<And>y. un (con y) = y"
    and p: "\<And>v. v \<in> set vs \<Longrightarrow> puts rt (put v) n wt op v"
    and room: "roomy rt c (sum_list (map cost vs) + k)"
    and mf: "\<And>us v. v \<in> set vs \<Longrightarrow>
      mf (upd us) \<lparr>field_number = n, wire_type = wt\<rparr> =
        dbind op (\<lambda>v. dbind (register_element_memory rt (cost v)) (\<lambda>_. dret (upd (us @ [v]))))"
  shows "\<exists>c'. roomy rt c' k \<and>
    run_typed rt con un mf (upd us) \<lparr>remaining = concat (map put vs) @ rest, dctx = c\<rparr> =
      run_typed rt con un mf (upd (us @ vs)) \<lparr>remaining = rest, dctx = c'\<rparr>"
  using p room mf
proof (induction vs arbitrary: us c)
  case Nil
  then show ?case by auto
next
  case (Cons v vs)
  let ?rest = "concat (map put vs) @ rest"
  from Cons.prems(1) obtain body where body: "length body < length (put v)"
    and tag: "decode_tag rt \<lparr>remaining = put v @ ?rest, dctx = c\<rparr> =
      Ok (\<lparr>field_number = n, wire_type = wt\<rparr>, \<lparr>remaining = body @ ?rest, dctx = c\<rparr>)"
    and op: "op \<lparr>remaining = body @ ?rest, dctx = c\<rparr> = Ok (v, \<lparr>remaining = ?rest, dctx = c\<rparr>)"
    unfolding puts_def by (meson list.set_intros(1))
  from Cons.prems(2) have "roomy rt c (cost v + (sum_list (map cost vs) + k))"
    by (simp add: add.assoc)
  with rt obtain c1 where c1: "roomy rt c1 (sum_list (map cost vs) + k)"
    and reg: "register_element_memory rt (cost v) \<lparr>remaining = ?rest, dctx = c\<rparr> =
      Ok ((), \<lparr>remaining = ?rest, dctx = c1\<rparr>)"
    unfolding buffa_ok_def context_laws_def by blast
  have "mf (upd us) \<lparr>field_number = n, wire_type = wt\<rparr> \<lparr>remaining = body @ ?rest, dctx = c\<rparr> =
      Ok (upd (us @ [v]), \<lparr>remaining = ?rest, dctx = c1\<rparr>)"
    using Cons.prems(3) [of v us] by (simp add: dbind_def op reg)
  then have "run_typed rt con un mf (upd us) \<lparr>remaining = put v @ ?rest, dctx = c\<rparr> =
      run_typed rt con un mf (upd (us @ [v])) \<lparr>remaining = ?rest, dctx = c1\<rparr>"
    using body by (intro run_turn [OF rt un tag]) auto
  moreover obtain c' where "roomy rt c' k"
    and "run_typed rt con un mf (upd (us @ [v])) \<lparr>remaining = ?rest, dctx = c1\<rparr> =
      run_typed rt con un mf (upd ((us @ [v]) @ vs)) \<lparr>remaining = rest, dctx = c'\<rparr>"
    using Cons.IH [OF _ c1, of "us @ [v]"] Cons.prems(1,3) by auto
  ultimately show ?case by auto
qed

text \<open>A map field: one turn of the loop per entry.\<close>

lemma sum_dom_map_of:
  fixes f :: "'k \<Rightarrow> 'v \<Rightarrow> nat"
  assumes "distinct (map fst kvs)"
  shows "(\<Sum>k\<in>dom (map_of kvs). f k (the (map_of kvs k))) = sum_list (map (\<lambda>(k, v). f k v) kvs)"
  using assms
proof (induction kvs)
  case (Cons kv kvs)
  obtain k v where kv: "kv = (k, v)" by (cases kv)
  with Cons.prems have k: "k \<notin> dom (map_of kvs)"
    by (simp add: dom_map_of_conv_image_fst)
  then have "(\<Sum>i\<in>dom (map_of kvs). f i (the (((map_of kvs)(k \<mapsto> v)) i))) =
      (\<Sum>i\<in>dom (map_of kvs). f i (the (map_of kvs i)))"
    by (intro sum.cong) auto
  with Cons kv k show ?case
    by (simp add: finite_dom_map_of fun_upd_same del: fun_upd_apply)
qed simp

definition entry_ok :: "string \<times> string \<Rightarrow> bool" where
  "entry_ok = (\<lambda>(k, v). wire_text k \<and> wire_text v \<and> length k + length v < 2 ^ 30)"

lemma run_entries:
  assumes turn: "\<And>k v acc rest c j. entry_ok (k, v) \<Longrightarrow> roomy rt c (map_entry_cost rt k v + j) \<Longrightarrow>
      \<exists>c'. roomy rt c' j \<and> run (upd acc) \<lparr>remaining = entry k v @ rest, dctx = c\<rparr> =
        run (upd (acc(k \<mapsto> v))) \<lparr>remaining = rest, dctx = c'\<rparr>"
    and "list_all entry_ok kvs" and "distinct (map fst kvs)"
    and "roomy rt c (sum_list (map (\<lambda>(k, v). map_entry_cost rt k v) kvs) + j)"
  shows "\<exists>c'. roomy rt c' j \<and>
    run (upd acc) \<lparr>remaining = concat (map (\<lambda>(k, v). entry k v) kvs) @ rest, dctx = c\<rparr> =
      run (upd (acc ++ map_of kvs)) \<lparr>remaining = rest, dctx = c'\<rparr>"
  using assms(2-)
proof (induction kvs arbitrary: acc c)
  case (Cons kv kvs)
  obtain k v where kv: "kv = (k, v)" by (cases kv)
  let ?rest = "concat (map (\<lambda>(k, v). entry k v) kvs) @ rest"
  from Cons.prems kv have ok: "entry_ok (k, v)" and oks: "list_all entry_ok kvs"
    and d: "distinct (map fst kvs)" and k: "map_of kvs k = None"
    and room: "roomy rt c (map_entry_cost rt k v + (sum_list (map (\<lambda>(k, v). map_entry_cost rt k v) kvs) + j))"
    by (simp_all add: add.assoc map_of_eq_None_iff)
  from turn [OF ok room] obtain c1
    where c1: "roomy rt c1 (sum_list (map (\<lambda>(k, v). map_entry_cost rt k v) kvs) + j)"
      and *: "run (upd acc) \<lparr>remaining = entry k v @ ?rest, dctx = c\<rparr> =
        run (upd (acc(k \<mapsto> v))) \<lparr>remaining = ?rest, dctx = c1\<rparr>"
    by blast
  have "acc(k \<mapsto> v) ++ map_of kvs = acc ++ map_of (kv # kvs)"
    unfolding kv using k by (intro ext) (simp add: map_add_def split: option.split)
  with Cons.IH [OF oks d c1, of "acc(k \<mapsto> v)"] * show ?case
    by (simp only: kv list.map concat.simps prod.case append_assoc)
qed auto

lemma run_map_entries:
  assumes rt: "buffa_ok rt" and un: "\<And>y. un (con y) = y" and n: "small_field n"
    and e: "finite (dom e)" "\<And>k v. e k = Some v \<Longrightarrow> entry_ok (k, v)"
    and room: "roomy rt c ((\<Sum>k\<in>dom e. map_entry_cost rt k (the (e k))) + j)"
    and mf: "\<And>acc. mf (upd acc) \<lparr>field_number = n, wire_type = LengthDelimited\<rparr> =
      dbind (map_merge_entry rt acc) (\<lambda>v. dret (upd v))"
  shows "\<exists>c'. roomy rt c' j \<and>
    run_typed rt con un mf (upd Map.empty) \<lparr>remaining = map_write_field rt e n @ rest, dctx = c\<rparr> =
      run_typed rt con un mf (upd e) \<lparr>remaining = rest, dctx = c'\<rparr>"
proof -
  from rt n e(1) obtain entry kvs where kvs: "distinct (map fst kvs)" "map_of kvs = e"
      "map_write_field rt e n = concat (map (\<lambda>(k, v). entry n k v) kvs)"
    and entry: "\<And>k v acc rest c j. entry_ok (k, v) \<Longrightarrow> roomy rt c (map_entry_cost rt k v + j) \<Longrightarrow>
      (\<exists>body c'. length body < length (entry n k v) \<and> roomy rt c' j \<and>
        decode_tag rt \<lparr>remaining = entry n k v @ rest, dctx = c\<rparr> =
          Ok (\<lparr>field_number = n, wire_type = LengthDelimited\<rparr>, \<lparr>remaining = body @ rest, dctx = c\<rparr>) \<and>
        map_merge_entry rt acc \<lparr>remaining = body @ rest, dctx = c\<rparr> =
          Ok (acc(k \<mapsto> v), \<lparr>remaining = rest, dctx = c'\<rparr>))"
    unfolding buffa_ok_def map_laws_def entry_ok_def by (simp only: prod.case) blast
  have turn: "\<exists>c'. roomy rt c' j \<and>
      run_typed rt con un mf (upd acc) \<lparr>remaining = entry n k v @ rest, dctx = c\<rparr> =
        run_typed rt con un mf (upd (acc(k \<mapsto> v))) \<lparr>remaining = rest, dctx = c'\<rparr>"
    if "entry_ok (k, v)" "roomy rt c (map_entry_cost rt k v + j)" for k v acc rest c j
  proof -
    from entry [OF that, of rest acc] obtain body c'
      where "length body < length (entry n k v)" and "roomy rt c' j"
      and "decode_tag rt \<lparr>remaining = entry n k v @ rest, dctx = c\<rparr> =
        Ok (\<lparr>field_number = n, wire_type = LengthDelimited\<rparr>, \<lparr>remaining = body @ rest, dctx = c\<rparr>)"
      and "map_merge_entry rt acc \<lparr>remaining = body @ rest, dctx = c\<rparr> =
        Ok (acc(k \<mapsto> v), \<lparr>remaining = rest, dctx = c'\<rparr>)"
      by blast
    then show ?thesis
      by (intro exI [of _ c'] conjI run_turn [OF rt un]) (auto simp: mf dbind_def)
  qed
  have "list_all entry_ok kvs"
    using kvs e(2) by (auto simp: list_all_iff)
  from run_entries [where run = "run_typed rt con un mf", OF turn this kvs(1), of c j Map.empty rest] room kvs
  show ?thesis
    using sum_dom_map_of [OF kvs(1), of "map_entry_cost rt"] by (simp only: empty_map_add)
qed

text \<open>A nested message: one turn that runs the loop over the payload.\<close>

lemma run_nested:
  assumes rt: "buffa_ok rt" and n: "small_field n" and p: "length p < 2 ^ 31"
    and inner: "\<And>d k. roomy rt d (cost + k) \<Longrightarrow> \<exists>d'. roomy rt d' k \<and>
      run_typed rt con un mf x \<lparr>remaining = p, dctx = d\<rparr> = Ok (y, \<lparr>remaining = [], dctx = d'\<rparr>)"
  obtains body where "length body < length (put_len_delimited_header rt n (length p))"
    and "\<And>c. decode_tag rt \<lparr>remaining = put_len_delimited_header rt n (length p) @ p @ rest, dctx = c\<rparr> =
      Ok (\<lparr>field_number = n, wire_type = LengthDelimited\<rparr>, \<lparr>remaining = body @ p @ rest, dctx = c\<rparr>)"
    and "\<And>c k. roomy rt c (Suc (cost + k)) \<Longrightarrow> \<exists>c'. roomy rt c' k \<and>
      dmap un (merge_length_delimited rt (lift_merge con un mf) (con x))
        \<lparr>remaining = body @ p @ rest, dctx = c\<rparr> = Ok (y, \<lparr>remaining = rest, dctx = c'\<rparr>)"
proof -
  from rt n p obtain body where body: "length body < length (put_len_delimited_header rt n (length p))"
    and tag: "\<And>c. decode_tag rt \<lparr>remaining = put_len_delimited_header rt n (length p) @ p @ rest, dctx = c\<rparr> =
      Ok (\<lparr>field_number = n, wire_type = LengthDelimited\<rparr>, \<lparr>remaining = body @ p @ rest, dctx = c\<rparr>)"
    and merge: "\<And>c k. roomy rt c (Suc k) \<Longrightarrow> \<exists>d. roomy rt d k \<and>
      (\<forall>mf m m' d'. decode_all rt mf m \<lparr>remaining = p, dctx = d\<rparr> = Ok (m', \<lparr>remaining = [], dctx = d'\<rparr>) \<longrightarrow>
        (\<exists>c'. (\<forall>j. roomy rt d' j \<longrightarrow> roomy rt c' j) \<and>
          merge_length_delimited rt mf m \<lparr>remaining = body @ p @ rest, dctx = c\<rparr> =
            Ok (m', \<lparr>remaining = rest, dctx = c'\<rparr>)))"
    unfolding buffa_ok_def nested_laws_def by meson
  have "\<exists>c'. roomy rt c' k \<and> dmap un (merge_length_delimited rt (lift_merge con un mf) (con x))
        \<lparr>remaining = body @ p @ rest, dctx = c\<rparr> = Ok (y, \<lparr>remaining = rest, dctx = c'\<rparr>)"
    if room: "roomy rt c (Suc (cost + k))" for c k
  proof -
    from merge [OF room] obtain d where d: "roomy rt d (cost + k)" and
      run: "\<And>mf m m' d'. decode_all rt mf m \<lparr>remaining = p, dctx = d\<rparr> = Ok (m', \<lparr>remaining = [], dctx = d'\<rparr>) \<Longrightarrow>
        (\<exists>c'. (\<forall>j. roomy rt d' j \<longrightarrow> roomy rt c' j) \<and>
          merge_length_delimited rt mf m \<lparr>remaining = body @ p @ rest, dctx = c\<rparr> =
            Ok (m', \<lparr>remaining = rest, dctx = c'\<rparr>))"
      by blast
    from inner [OF d] obtain d' m' where d': "roomy rt d' k"
      and "decode_all rt (lift_merge con un mf) (con x) \<lparr>remaining = p, dctx = d\<rparr> =
        Ok (m', \<lparr>remaining = [], dctx = d'\<rparr>)" and y: "un m' = y"
      by (auto simp: run_typed_def dmap_def dbind_def split: sum.splits prod.splits)
    from run [OF this(2)] d' y show ?thesis
      by (auto simp: dmap_Ok)
  qed
  with body tag that show thesis by blast
qed

end
