(* ===== verification/Crypto.thy ===== *)
theory Crypto
  imports Prelude
begin

text \<open>
  \<^verbatim>\<open>crates/et-proto/src/crypto.rs\<close>: the per-direction cipher handler. The secretbox primitive
  (the \<^verbatim>\<open>crypto_secretbox\<close> crate) is a parameter, the record \<open>secretbox\<close>; what the code relies on is
  \<open>secretbox_ok\<close> (opening inverts sealing, a sealed message carries a 16 byte MAC) and, where
  forgery matters, \<open>secretbox_authentic\<close> (only sealed messages open: the MAC is a function of key,
  nonce and ciphertext). Sealing is total: the source documents that it cannot fail, so the \<^verbatim>\<open>expect\<close> on
  its result has no branch. The nonce bookkeeping is the code's own and is modelled in full.
\<close>

section \<open>The primitive, a parameter\<close>

record secretbox =
  seal :: "bytes \<Rightarrow> bytes \<Rightarrow> bytes \<Rightarrow> bytes"
  unseal :: "bytes \<Rightarrow> bytes \<Rightarrow> bytes \<Rightarrow> bytes option"

definition KEY_BYTES :: nat where
  "KEY_BYTES = 32"

definition NONCE_BYTES :: nat where
  "NONCE_BYTES = 24"

definition MAC_BYTES :: nat where
  "MAC_BYTES = 16"

definition secretbox_ok :: "secretbox \<Rightarrow> bool" where
  "secretbox_ok sb \<longleftrightarrow>
     (\<forall>k n m. unseal sb k n (seal sb k n m) = Some m) \<and>
     (\<forall>k n m. length (seal sb k n m) = length m + MAC_BYTES)"

definition secretbox_authentic :: "secretbox \<Rightarrow> bool" where
  "secretbox_authentic sb \<longleftrightarrow> (\<forall>k n c m. unseal sb k n c = Some m \<longrightarrow> c = seal sb k n m)"

section \<open>The handler\<close>

datatype CryptoError =
    InvalidKeyLength nat
  | CiphertextTooShort nat
  | DecryptFailed

record CryptoHandler =
  cipher :: bytes
  nonce :: bytes

definition CryptoHandler_new :: "bytes \<Rightarrow> u8 \<Rightarrow> CryptoHandler" where
  "CryptoHandler_new key nonce_msb =
     \<lparr>cipher = key, nonce = (replicate NONCE_BYTES 0)[NONCE_BYTES - 1 := nonce_msb]\<rparr>"

fun increment_bytes :: "bytes \<Rightarrow> bytes" where
  "increment_bytes [] = []"
| "increment_bytes (b # bs) =
     (let b' = b + 1 in if b' \<noteq> 0 then b' # bs else b' # increment_bytes bs)"

definition increment_nonce :: "CryptoHandler \<Rightarrow> CryptoHandler" where
  "increment_nonce h = h\<lparr>nonce := increment_bytes (nonce h)\<rparr>"

definition crypto_encrypt :: "secretbox \<Rightarrow> CryptoHandler \<Rightarrow> bytes \<Rightarrow> CryptoHandler \<times> bytes" where
  "crypto_encrypt sb h plaintext =
     (let h' = increment_nonce h in (h', seal sb (cipher h') (nonce h') plaintext))"

definition crypto_decrypt ::
    "secretbox \<Rightarrow> CryptoHandler \<Rightarrow> bytes \<Rightarrow> CryptoHandler \<times> (CryptoError + bytes)" where
  "crypto_decrypt sb h ciphertext =
     (if length ciphertext < MAC_BYTES then (h, Err (CiphertextTooShort (length ciphertext)))
      else
        (let h' = increment_nonce h in
         case unseal sb (cipher h') (nonce h') ciphertext of
           None \<Rightarrow> (h', Err DecryptFailed)
         | Some plaintext \<Rightarrow> (h', Ok plaintext)))"

text \<open>The handler after \<open>i\<close> operations, and the nonce its \<open>i\<close>-th operation used.\<close>

definition advanced :: "CryptoHandler \<Rightarrow> nat \<Rightarrow> CryptoHandler" where
  "advanced h i = (increment_nonce ^^ i) h"

definition nonce_at :: "CryptoHandler \<Rightarrow> nat \<Rightarrow> bytes" where
  "nonce_at h i = nonce (advanced h i)"

section \<open>The nonce is a little-endian counter\<close>

lemma length_increment_bytes [simp]: "length (increment_bytes bs) = length bs"
  by (induction bs rule: increment_bytes.induct) (auto simp: Let_def)

lemma le_val_increment_bytes: "le_val (increment_bytes bs) = (le_val bs + 1) mod 256 ^ length bs"
proof (induction bs rule: increment_bytes.induct)
  case 1
  then show ?case by simp
next
  case (2 b bs)
  show ?case
  proof (cases "b + 1 = 0")
    case True
    then have "b = - 1" by (simp add: eq_neg_iff_add_eq_0)
    then have b: "unat b = 255" by (simp add: unsigned_minus_1_eq_mask mask_eq_exp_minus_1)
    have "(le_val bs + 1) mod 256 ^ length bs * 256 = ((le_val bs + 1) * 256) mod (256 ^ length bs * 256)"
      by (rule mod_mult_mult2 [symmetric])
    with True b 2 show ?thesis by (simp add: Let_def algebra_simps)
  next
    case False
    have mod: "unat (b + 1) = (unat b + 1) mod 256"
      by (simp add: unat_word_ariths)
    moreover from False have "unat (b + 1) \<noteq> 0"
      by (simp add: unat_eq_0)
    ultimately have u: "unat (b + 1) = unat b + 1"
      using unat_u8_less [of b] by (cases "unat b + 1 = 256") auto
    have "le_val ((b + 1) # bs) < 256 ^ length ((b + 1) # bs)"
      by (rule le_val_bound)
    with False u show ?thesis by (simp add: Let_def)
  qed
qed


lemma cipher_advanced [simp]: "cipher (advanced h i) = cipher h"
  by (induction i) (auto simp: advanced_def increment_nonce_def)

lemma length_nonce_at [simp]: "length (nonce_at h i) = length (nonce h)"
  by (induction i) (auto simp: nonce_at_def advanced_def increment_nonce_def)

lemma advanced_simps [simp]:
  "advanced h 0 = h"
  "increment_nonce (advanced h i) = advanced h (Suc i)"
  by (simp_all add: advanced_def)

lemma advanced_advanced: "advanced (advanced h i) j = advanced h (i + j)"
  unfolding advanced_def by (metis add.commute comp_apply funpow_add)

lemma le_val_nonce_at: "le_val (nonce_at h i) = (le_val (nonce h) + i) mod 256 ^ length (nonce h)"
proof (induction i)
  case 0
  then show ?case by (simp add: nonce_at_def le_val_bound)
next
  case (Suc i)
  have "nonce_at h (Suc i) = increment_bytes (nonce_at h i)"
    by (simp add: nonce_at_def advanced_def increment_nonce_def)
  with Suc show ?case
    by (simp add: le_val_increment_bytes mod_Suc_eq)
qed

lemma CryptoHandler_new_simps [simp]:
  "cipher (CryptoHandler_new key msb) = key"
  "length (nonce (CryptoHandler_new key msb)) = NONCE_BYTES"
  by (simp_all add: CryptoHandler_new_def)

lemma le_val_new: "le_val (nonce (CryptoHandler_new key msb)) = 256 ^ 23 * unat msb"
proof -
  have "nonce (CryptoHandler_new key msb) = replicate 23 0 @ [msb]"
    by (simp add: CryptoHandler_new_def NONCE_BYTES_def numeral_eq_Suc)
  then show ?thesis by (simp add: le_val_append)
qed

text \<open>
  Below \<open>256 ^ 23\<close> operations the counter never reaches the direction byte.
\<close>

lemma le_val_nonce_at_new:
  assumes "i < 256 ^ 23"
  shows "le_val (nonce_at (CryptoHandler_new key msb) i) = 256 ^ 23 * unat msb + i"
proof -
  have "256 ^ 23 * (unat msb + 1) \<le> 256 ^ 23 * (256 :: nat)"
    using unat_u8_less [of msb] by (intro mult_le_mono2) simp
  with assms have "256 ^ 23 * unat msb + i < 256 ^ 24"
    by simp
  then show ?thesis
    by (simp only: le_val_nonce_at le_val_new CryptoHandler_new_simps NONCE_BYTES_def mod_less)
qed

lemma nonce_at_new_inject:
  assumes "i < 256 ^ 23" and "j < 256 ^ 23"
  shows "nonce_at (CryptoHandler_new k a) i = nonce_at (CryptoHandler_new k' b) j \<longleftrightarrow> a = b \<and> i = j"
proof
  assume "nonce_at (CryptoHandler_new k a) i = nonce_at (CryptoHandler_new k' b) j"
  then have eq: "256 ^ 23 * unat a + i = 256 ^ 23 * unat b + j"
    using assms by (metis le_val_nonce_at_new)
  have "unat a = (256 ^ 23 * unat a + i) div 256 ^ 23"
    using assms(1) by simp
  also have "\<dots> = unat b"
    using assms(2) eq by simp
  finally have "unat a = unat b" .
  with eq show "a = b \<and> i = j" by (simp add: word_unat_eq_iff)
next
  assume "a = b \<and> i = j"
  then show "nonce_at (CryptoHandler_new k a) i = nonce_at (CryptoHandler_new k' b) j"
    using assms by (auto intro!: le_val_inject [THEN iffD1] simp: le_val_nonce_at_new)
qed

section \<open>Both ends of a direction stay in lockstep\<close>

lemma crypto_encrypt_advanced:
  "crypto_encrypt sb (advanced h i) m = (advanced h (Suc i), seal sb (cipher h) (nonce_at h (Suc i)) m)"
  by (simp add: crypto_encrypt_def nonce_at_def Let_def)

lemma crypto_decrypt_sealed:
  assumes "secretbox_ok sb"
  shows "crypto_decrypt sb (advanced h i) (seal sb (cipher h) (nonce_at h (Suc i)) m) =
    (advanced h (Suc i), Ok m)"
  using assms by (simp add: crypto_decrypt_def secretbox_ok_def nonce_at_def Let_def)

lemma crypto_decrypt_Ok:
  assumes "secretbox_authentic sb" and "crypto_decrypt sb (advanced h i) c = (h', Ok m)"
  shows "h' = advanced h (Suc i) \<and> c = seal sb (cipher h) (nonce_at h (Suc i)) m"
  using assms
  by (auto simp: crypto_decrypt_def secretbox_authentic_def nonce_at_def Let_def
      split: if_splits option.splits)

lemma crypto_decrypt_short:
  "length c < MAC_BYTES \<Longrightarrow> crypto_decrypt sb h c = (h, Err (CiphertextTooShort (length c)))"
  by (simp add: crypto_decrypt_def)

fun encrypt_all :: "secretbox \<Rightarrow> CryptoHandler \<Rightarrow> bytes list \<Rightarrow> CryptoHandler \<times> bytes list" where
  "encrypt_all sb h [] = (h, [])"
| "encrypt_all sb h (m # ms) =
     (let (h', c) = crypto_encrypt sb h m; (h'', cs) = encrypt_all sb h' ms in (h'', c # cs))"

fun decrypt_all ::
    "secretbox \<Rightarrow> CryptoHandler \<Rightarrow> bytes list \<Rightarrow> CryptoHandler \<times> (CryptoError + bytes list)" where
  "decrypt_all sb h [] = (h, Ok [])"
| "decrypt_all sb h (c # cs) =
     (case crypto_decrypt sb h c of
        (h', Inl e) \<Rightarrow> (h', Inl e)
      | (h', Inr m) \<Rightarrow>
          (case decrypt_all sb h' cs of
             (h'', Inl e) \<Rightarrow> (h'', Inl e)
           | (h'', Inr ms) \<Rightarrow> (h'', Inr (m # ms))))"

lemma decrypt_all_encrypt_all:
  assumes "secretbox_ok sb"
  shows "decrypt_all sb h (snd (encrypt_all sb h ms)) = (advanced h (length ms), Ok ms) \<and>
    fst (encrypt_all sb h ms) = advanced h (length ms)"
proof (induction ms arbitrary: h)
  case Nil
  then show ?case by simp
next
  case (Cons m ms)
  let ?h' = "advanced h 1"
  have "advanced ?h' (length ms) = advanced h (Suc (length ms))"
    by (simp only: advanced_advanced) simp
  with Cons [of ?h'] crypto_encrypt_advanced [of sb h 0 m] crypto_decrypt_sealed [OF assms, of h 0 m]
  show ?case by (auto split: prod.splits)
qed

text \<open>A primitive that returns the nonce it is given, and what encryption is with any primitive.\<close>

definition nonce_box :: secretbox where
  "nonce_box = \<lparr>seal = \<lambda>k n m. n, unseal = \<lambda>k n c. if c = n then Some [] else None\<rparr>"

lemma encrypt_all_seals:
  "snd (encrypt_all sb h ms) = map (\<lambda>(i, m). seal sb (cipher h) (nonce_at h (Suc i)) m) (zip [0..<length ms] ms)"
proof (induction ms arbitrary: h)
  case (Cons m ms)
  have "nonce_at (advanced h 1) (Suc i) = nonce_at h (Suc (Suc i))" for i
    by (simp add: nonce_at_def advanced_advanced)
  with Cons [of "advanced h 1"] crypto_encrypt_advanced [of sb h 0 m] show ?case
    by (simp add: case_prod_unfold upt_conv_Cons zip_map1 map_Suc_upt [symmetric] del: upt_Suc)
qed simp

lemma encrypt_all_nonces:
  "snd (encrypt_all nonce_box h ms) = map (\<lambda>i. nonce_at h (Suc i)) [0..<length ms]"
  unfolding encrypt_all_seals by (rule nth_equalityI) (simp_all add: nonce_box_def)

section \<open>A concrete primitive\<close>

text \<open>
  An additive checksum in place of the MAC: it satisfies both hypotheses, and concrete instances
  of the statements are evaluated on it.
\<close>

definition sum_tag :: "bytes \<Rightarrow> bytes \<Rightarrow> bytes \<Rightarrow> bytes" where
  "sum_tag k n m = le_bytes 16 (le_val k + le_val n + le_val m)"

definition sum_box :: secretbox where
  "sum_box = \<lparr>
     seal = \<lambda>k n m. m @ sum_tag k n m,
     unseal = \<lambda>k n c.
       let m = take (length c - 16) c in
       if 16 \<le> length c \<and> drop (length c - 16) c = sum_tag k n m then Some m else None\<rparr>"

lemma secretbox_ok_sum_box: "secretbox_ok sum_box"
  by (simp add: secretbox_ok_def sum_box_def sum_tag_def MAC_BYTES_def Let_def)

lemma secretbox_authentic_sum_box: "secretbox_authentic sum_box"
proof (unfold secretbox_authentic_def, intro allI impI)
  fix k n c m
  assume "unseal sum_box k n c = Some m"
  then have "m = take (length c - 16) c" and "drop (length c - 16) c = sum_tag k n m"
    by (auto simp: sum_box_def Let_def split: if_splits)
  then have "c = m @ sum_tag k n m"
    by (metis append_take_drop_id)
  then show "c = seal sum_box k n m"
    by (simp add: sum_box_def)
qed

section \<open>Properties\<close>

text \<open>C19. No nonce seals two messages: over all the encryptions of the two directions of a connection, as
  long as each direction makes fewer than \<open>256 ^ 23\<close> of them, the nonces handed to the primitive are all
  different. They are read off the handler's own \<^verbatim>\<open>encrypt\<close>, run with a primitive that returns its nonce; with
  any other primitive the ciphertexts are what it makes of the messages under exactly these nonces.\<close>

theorem nonces_never_repeat:
  assumes "a \<noteq> b" and "length ms < 256 ^ 23" and "length ms' < 256 ^ 23"
    and "ns = snd (encrypt_all nonce_box (CryptoHandler_new k a) ms)"
    and "ns' = snd (encrypt_all nonce_box (CryptoHandler_new k b) ms')"
  shows "distinct (ns @ ns') \<and>
    snd (encrypt_all sb (CryptoHandler_new k a) ms) = map2 (seal sb k) ns ms \<and>
    snd (encrypt_all sb (CryptoHandler_new k b) ms') = map2 (seal sb k) ns' ms'"
proof -
  have eq: "ns = map (\<lambda>i. nonce_at (CryptoHandler_new k a) (Suc i)) [0..<length ms]"
    "ns' = map (\<lambda>i. nonce_at (CryptoHandler_new k b) (Suc i)) [0..<length ms']"
    by (simp_all add: assms(4,5) encrypt_all_nonces)
  have "distinct (ns @ ns')"
    unfolding eq using assms(1-3) by (auto simp: distinct_map inj_on_def nonce_at_new_inject)
  moreover have "snd (encrypt_all sb (CryptoHandler_new k a) ms) = map2 (seal sb k) ns ms"
    "snd (encrypt_all sb (CryptoHandler_new k b) ms') = map2 (seal sb k) ns' ms'"
    unfolding eq encrypt_all_seals by (rule nth_equalityI; simp)+
  ultimately show ?thesis by simp
qed

theorem nonces_never_repeat_witness:
  "distinct (snd (encrypt_all nonce_box (CryptoHandler_new (replicate 32 7) 0) (replicate 300 [1])) @
      snd (encrypt_all nonce_box (CryptoHandler_new (replicate 32 7) 1) [[1], [2]]))"
  by (rule nonces_never_repeat [THEN conjunct1, OF _ _ _ refl refl]) simp_all

text \<open>Lockstep: a receiver that starts from the same handler decrypts a sequence of messages
  encrypted by the sender to exactly those messages, and both handlers end in the same state.\<close>

theorem decrypt_inverts_encrypt:
  assumes "secretbox_ok sb"
  shows "decrypt_all sb h (snd (encrypt_all sb h ms)) = (fst (encrypt_all sb h ms), Ok ms)"
  using decrypt_all_encrypt_all [OF assms, of h ms] by simp

theorem decrypt_inverts_encrypt_witness:
  "decrypt_all sum_box (CryptoHandler_new (replicate 32 1) 0)
      (snd (encrypt_all sum_box (CryptoHandler_new (replicate 32 1) 0) [[1, 2], [], [3]])) =
    (fst (encrypt_all sum_box (CryptoHandler_new (replicate 32 1) 0) [[1, 2], [], [3]]), Ok [[1, 2], [], [3]])"
  by (rule decrypt_inverts_encrypt [OF secretbox_ok_sum_box])

end
