(* ===== verification/Packet.thy ===== *)
theory Packet
  imports Crypto
begin

text \<open>
  \<^verbatim>\<open>crates/et-proto/src/packet.rs\<close>: the packet \<^verbatim>\<open>[encrypted: u8][header: u8][payload]\<close>. The two
  assertions of the source (encrypting an encrypted packet, decrypting a plaintext one) are values
  of the type \<open>panic\<close>.
\<close>

datatype panic = Panic string

record Packet =
  encrypted :: bool
  header :: u8
  payload :: bytes

definition HEADER_SIZE :: nat where
  "HEADER_SIZE = 2"

definition Packet_new :: "u8 \<Rightarrow> bytes \<Rightarrow> Packet" where
  "Packet_new h p = \<lparr>encrypted = False, header = h, payload = p\<rparr>"

fun Packet_parse :: "bytes \<Rightarrow> Packet option" where
  "Packet_parse [] = None"
| "Packet_parse [flags] = None"
| "Packet_parse (flags # h # p) = Some \<lparr>encrypted = (flags \<noteq> 0), header = h, payload = p\<rparr>"

definition Packet_serialize :: "Packet \<Rightarrow> bytes" where
  "Packet_serialize p = (if encrypted p then 1 else 0) # header p # payload p"

definition Packet_encrypt ::
    "secretbox \<Rightarrow> Packet \<Rightarrow> CryptoHandler \<Rightarrow> panic + Packet \<times> CryptoHandler" where
  "Packet_encrypt sb p crypto =
     (if encrypted p then Err (Panic ''tried to encrypt a packet that was already encrypted'')
      else
        (let (crypto', c) = crypto_encrypt sb crypto (payload p)
         in Ok (p\<lparr>payload := c, encrypted := True\<rparr>, crypto')))"

definition Packet_decrypt ::
    "secretbox \<Rightarrow> Packet \<Rightarrow> CryptoHandler \<Rightarrow> panic + CryptoHandler \<times> (CryptoError + Packet)" where
  "Packet_decrypt sb p crypto =
     (if \<not> encrypted p then Err (Panic ''tried to decrypt a packet that wasn't encrypted'')
      else
        (case crypto_decrypt sb crypto (payload p) of
           (crypto', Inl e) \<Rightarrow> Ok (crypto', Inl e)
         | (crypto', Inr m) \<Rightarrow> Ok (crypto', Inr (p\<lparr>payload := m, encrypted := False\<rparr>))))"

section \<open>Serialization\<close>

lemma Packet_parse_serialize [simp]: "Packet_parse (Packet_serialize p) = Some p"
  by (simp add: Packet_serialize_def)

lemma Packet_serialize_inject: "Packet_serialize p = Packet_serialize q \<Longrightarrow> p = q"
  by (metis Packet_parse_serialize option.inject)

lemma length_Packet_serialize: "length (Packet_serialize p) = HEADER_SIZE + length (payload p)"
  by (simp add: Packet_serialize_def HEADER_SIZE_def)

lemma Packet_parse_None_iff: "Packet_parse bs = None \<longleftrightarrow> length bs < HEADER_SIZE"
  by (cases bs rule: Packet_parse.cases) (auto simp: HEADER_SIZE_def)

lemma Packet_parse_SomeD:
  "Packet_parse bs = Some p \<Longrightarrow> \<exists>flags. bs = flags # header p # payload p \<and> encrypted p = (flags \<noteq> 0)"
  by (cases bs rule: Packet_parse.cases) auto

section \<open>Encryption of packets\<close>

text \<open>The serialized form of the \<open>i\<close>-th packet of a stream that starts at handler \<open>h\<close>.\<close>

definition sealed_packet :: "secretbox \<Rightarrow> CryptoHandler \<Rightarrow> nat \<Rightarrow> u8 \<times> bytes \<Rightarrow> bytes" where
  "sealed_packet sb h i hp =
     Packet_serialize
       \<lparr>encrypted = True, header = fst hp, payload = seal sb (cipher h) (nonce_at h (Suc i)) (snd hp)\<rparr>"

text \<open>The packet that a reader gets of it.\<close>

definition plain :: "u8 \<times> bytes \<Rightarrow> Packet" where
  "plain = (\<lambda>(h, p). Packet_new h p)"

lemma Packet_encrypt_new:
  "Packet_encrypt sb (Packet_new hdr pl) (advanced h i) =
    Ok (\<lparr>encrypted = True, header = hdr, payload = seal sb (cipher h) (nonce_at h (Suc i)) pl\<rparr>,
        advanced h (Suc i))"
  by (simp add: Packet_encrypt_def Packet_new_def crypto_encrypt_advanced)

lemma Packet_decrypt_sealed:
  assumes "secretbox_ok sb"
  shows "Packet_decrypt sb
      \<lparr>encrypted = True, header = hdr, payload = seal sb (cipher h) (nonce_at h (Suc i)) pl\<rparr>
      (advanced h i) =
    Ok (advanced h (Suc i), Ok (Packet_new hdr pl))"
  by (simp add: Packet_decrypt_def Packet_new_def crypto_decrypt_sealed [OF assms])

lemma length_sealed_packet:
  "secretbox_ok sb \<Longrightarrow> length (sealed_packet sb h i hp) = HEADER_SIZE + length (snd hp) + MAC_BYTES"
  by (simp add: sealed_packet_def length_Packet_serialize secretbox_ok_def)

lemma Packet_parse_sealed [simp]:
  "Packet_parse (sealed_packet sb h i hp) =
    Some \<lparr>encrypted = True, header = fst hp,
      payload = seal sb (cipher h) (nonce_at h (Suc i)) (snd hp)\<rparr>"
  by (simp add: sealed_packet_def)

lemma Packet_decrypt_Ok:
  assumes "secretbox_authentic sb"
    and "Packet_decrypt sb p (advanced h i) = Ok (h', Ok q)"
  shows "h' = advanced h (Suc i) \<and> q = Packet_new (header p) (payload q) \<and>
    p = \<lparr>encrypted = True, header = header q,
      payload = seal sb (cipher h) (nonce_at h (Suc i)) (payload q)\<rparr>"
  using assms
  by (cases p) (auto simp: Packet_decrypt_def Packet_new_def
      split: if_splits prod.splits sum.splits dest!: crypto_decrypt_Ok)

end
