(* ===== verification/Framing.thy ===== *)
theory Framing
  imports Packet
begin

text \<open>
  \<^verbatim>\<open>crates/et-proto/src/framing.rs\<close>: the two frame formats. An \<^verbatim>\<open>AsyncRead\<close> is the bytes it will
  still deliver and the error kind \<^verbatim>\<open>read_exact\<close> reports when they run out (\<open>UnexpectedEof\<close> for a
  closed peer); an \<^verbatim>\<open>AsyncWrite\<close> is what it has taken so far and how much more it takes before it
  fails. The interface \<open>frame_codec\<close> is what both formats promise, and its lemmas give the
  behaviour of whole frame streams.
\<close>

section \<open>Readers and writers\<close>

datatype io_kind = UnexpectedEof | OtherIo nat

record reader =
  rd_data :: bytes
  rd_end :: io_kind

record writer =
  wr_out :: bytes
  wr_room :: "nat option"
  wr_err :: io_kind

definition read_exact :: "nat \<Rightarrow> reader \<Rightarrow> io_kind + bytes \<times> reader" where
  "read_exact n r =
     (if n \<le> length (rd_data r) then Ok (take n (rd_data r), r\<lparr>rd_data := drop n (rd_data r)\<rparr>)
      else Err (rd_end r))"

definition write_all :: "bytes \<Rightarrow> writer \<Rightarrow> io_kind + writer" where
  "write_all bs w =
     (case wr_room w of
        None \<Rightarrow> Ok (w\<lparr>wr_out := wr_out w @ bs\<rparr>)
      | Some k \<Rightarrow>
          if length bs \<le> k then Ok (w\<lparr>wr_out := wr_out w @ bs, wr_room := Some (k - length bs)\<rparr>)
          else Err (wr_err w))"

definition feed :: "bytes \<Rightarrow> reader \<Rightarrow> reader" where
  "feed bs r = r\<lparr>rd_data := bs @ rd_data r\<rparr>"

lemma feed_simps [simp]:
  "feed [] r = r"
  "feed xs (feed ys r) = feed (xs @ ys) r"
  "rd_end (feed xs r) = rd_end r"
  "rd_data (feed xs r) = xs @ rd_data r"
  by (simp_all add: feed_def)

lemma feed_cancel: "feed xs r = feed ys s \<Longrightarrow> xs @ rd_data r = ys @ rd_data s"
  by (metis feed_simps(4))

lemma read_exact_feed [wire_simps]: "length xs = n \<Longrightarrow> read_exact n (feed xs r) = Ok (xs, r)"
  by (auto simp: read_exact_def)

lemma read_exact_feed_append [wire_simps]:
  "length xs = n \<Longrightarrow> read_exact n (feed (xs @ ys) r) = Ok (xs, feed ys r)"
  by (auto simp: read_exact_def feed_def)

lemma read_exact_Ok:
  "read_exact n r = Ok (xs, r') \<Longrightarrow> length xs = n \<and> r = feed xs r'"
  by (auto simp: read_exact_def feed_def split: if_splits)

section \<open>The frame formats\<close>

datatype FrameError = Closed | InvalidLength int | InvalidPacket | Io io_kind

definition map_io :: "io_kind \<Rightarrow> FrameError" where
  "map_io err = (if err = UnexpectedEof then Closed else Io err)"

definition read_proto_frame :: "reader \<Rightarrow> int \<Rightarrow> FrameError + bytes \<times> reader" where
  "read_proto_frame r max_len =
     (case read_exact 8 r of
        Inl e \<Rightarrow> Err (map_io e)
      | Inr (len_buf, r) \<Rightarrow>
          (let len = i64_from_le_bytes len_buf in
           if \<not> (0 \<le> len \<and> len \<le> max_len) then Err (InvalidLength len)
           else
             (case read_exact (nat len) r of
                Inl e \<Rightarrow> Err (map_io e)
              | Inr (buf, r) \<Rightarrow> Ok (buf, r))))"

definition write_proto_frame :: "bytes \<Rightarrow> writer \<Rightarrow> FrameError + writer" where
  "write_proto_frame bs w =
     (case write_all (i64_to_le_bytes (int (length bs))) w of
        Inl e \<Rightarrow> Err (Io e)
      | Inr w \<Rightarrow>
          (case write_all bs w of
             Inl e \<Rightarrow> Err (Io e)
           | Inr w \<Rightarrow> Ok w))"

definition read_framed_packet :: "reader \<Rightarrow> nat \<Rightarrow> FrameError + Packet \<times> reader" where
  "read_framed_packet r max_len =
     (case read_exact 4 r of
        Inl e \<Rightarrow> Err (map_io e)
      | Inr (len_buf, r) \<Rightarrow>
          (let len = be_val len_buf in
           if max_len < len then Err (InvalidLength (int len))
           else
             (case read_exact len r of
                Inl e \<Rightarrow> Err (map_io e)
              | Inr (buf, r) \<Rightarrow>
                  (case Packet_parse buf of None \<Rightarrow> Err InvalidPacket | Some p \<Rightarrow> Ok (p, r)))))"

definition write_framed_packet :: "Packet \<Rightarrow> writer \<Rightarrow> FrameError + writer" where
  "write_framed_packet p w =
     (let bs = Packet_serialize p in
      case write_all (be_bytes 4 (length bs)) w of
        Inl e \<Rightarrow> Err (Io e)
      | Inr w \<Rightarrow>
          (case write_all bs w of
             Inl e \<Rightarrow> Err (Io e)
           | Inr w \<Rightarrow> Ok w))"

text \<open>The bytes a successful write puts on the wire.\<close>

definition proto_frame :: "bytes \<Rightarrow> bytes" where
  "proto_frame bs = i64_to_le_bytes (int (length bs)) @ bs"

definition packet_frame :: "bytes \<Rightarrow> bytes" where
  "packet_frame serialized = be_bytes 4 (length serialized) @ serialized"

fun read_frames :: "(reader \<Rightarrow> 'e + 'a \<times> reader) \<Rightarrow> nat \<Rightarrow> reader \<Rightarrow> 'e + 'a list \<times> reader" where
  "read_frames dec 0 r = Ok ([], r)"
| "read_frames dec (Suc n) r =
     (case dec r of
        Inl e \<Rightarrow> Inl e
      | Inr (x, r) \<Rightarrow>
          (case read_frames dec n r of
             Inl e \<Rightarrow> Inl e
           | Inr (xs, r) \<Rightarrow> Inr (x # xs, r)))"

section \<open>What a frame format promises\<close>

locale frame_codec =
  fixes ok :: "'a \<Rightarrow> bool"
    and enc :: "'a \<Rightarrow> bytes"
    and dec :: "reader \<Rightarrow> 'e + 'a \<times> reader"
  assumes dec_enc: "ok x \<Longrightarrow> dec (feed (enc x) r) = Ok (x, r)"
begin

lemma dec_enc_append: "ok x \<Longrightarrow> dec (feed (enc x @ ys) r) = Ok (x, feed ys r)"
  using dec_enc [of x "feed ys r"] by simp

text \<open>A concatenation of frames is read back frame by frame, nothing lost or merged.\<close>

lemma read_frames_enc:
  "list_all ok xs \<Longrightarrow> read_frames dec (length xs) (feed (concat (map enc xs)) r) = Ok (xs, r)"
  by (induction xs) (auto simp: dec_enc_append)

text \<open>No frame is a proper prefix of another: a byte stream has at most one reading.\<close>

lemma enc_prefix_free:
  assumes "ok x" and "ok y" and "enc x @ xs = enc y @ ys"
  shows "x = y \<and> xs = ys"
proof -
  let ?r = "\<lparr>rd_data = [], rd_end = UnexpectedEof\<rparr>"
  from dec_enc_append [OF assms(1), of xs ?r] dec_enc_append [OF assms(2), of ys ?r] assms(3)
  have "x = y" and "feed xs ?r = feed ys ?r" by auto
  with feed_cancel [of xs ?r ys ?r] show ?thesis by simp
qed

lemma concat_enc_inject:
  assumes "list_all ok xs" and "list_all ok ys" and "length xs = length ys"
    and "concat (map enc xs) = concat (map enc ys)"
  shows "xs = ys"
proof -
  fix r :: reader
  have "(Ok (xs, r) :: 'e + 'a list \<times> reader) = Ok (ys, r)"
    by (metis assms read_frames_enc)
  then show ?thesis by simp
qed

end

text \<open>Both formats keep the promise below their length caps.\<close>

definition proto_frame_ok :: "int \<Rightarrow> bytes \<Rightarrow> bool" where
  "proto_frame_ok max_len bs \<longleftrightarrow> int (length bs) \<le> max_len \<and> length bs < 2 ^ 63"

definition packet_frame_ok :: "nat \<Rightarrow> Packet \<Rightarrow> bool" where
  "packet_frame_ok max_len p \<longleftrightarrow>
     length (Packet_serialize p) \<le> max_len \<and> length (Packet_serialize p) < 2 ^ 32"

interpretation proto: frame_codec "proto_frame_ok m" proto_frame "\<lambda>r. read_proto_frame r m" for m
proof
  fix x r
  assume "proto_frame_ok m x"
  then show "read_proto_frame (feed (proto_frame x) r) m = Ok (x, r)"
    by (simp add: read_proto_frame_def proto_frame_def proto_frame_ok_def wire_simps)
qed

interpretation framed: frame_codec "packet_frame_ok m" "\<lambda>p. packet_frame (Packet_serialize p)"
  "\<lambda>r. read_framed_packet r m" for m
proof
  fix x r
  assume "packet_frame_ok m x"
  then show "read_framed_packet (feed (packet_frame (Packet_serialize x)) r) m = Ok (x, r)"
    by (simp add: read_framed_packet_def packet_frame_def packet_frame_ok_def wire_simps
        be_val_be_bytes)
qed

lemma write_proto_frame_out:
  assumes "wr_room w = None"
  shows "write_proto_frame bs w = Ok (w\<lparr>wr_out := wr_out w @ proto_frame bs\<rparr>)"
  using assms by (simp add: write_proto_frame_def write_all_def proto_frame_def)

lemma write_framed_packet_out:
  assumes "wr_room w = None"
  shows "write_framed_packet p w = Ok (w\<lparr>wr_out := wr_out w @ packet_frame (Packet_serialize p)\<rparr>)"
  using assms by (simp add: write_framed_packet_def write_all_def packet_frame_def Let_def)

section \<open>Properties\<close>

text \<open>Packet stream round trip: the concatenation of the frames of any packets below the length
  cap is read back as exactly those packets, and the reader is left at the byte after the last
  frame.\<close>

theorem packet_stream_roundtrip:
  assumes "list_all (packet_frame_ok cap) ps"
  shows "read_frames (\<lambda>r. read_framed_packet r cap) (length ps)
      (feed (concat (map (\<lambda>p. packet_frame (Packet_serialize p)) ps)) r) = Ok (ps, r)"
  using assms by (rule framed.read_frames_enc)

theorem packet_stream_roundtrip_witness:
  "read_frames (\<lambda>r. read_framed_packet r 64) 2
      (feed (packet_frame (Packet_serialize (Packet_new 1 [9, 9])) @ packet_frame (Packet_serialize (Packet_new 0 [])))
        \<lparr>rd_data = [5], rd_end = UnexpectedEof\<rparr>) =
    Ok ([Packet_new 1 [9, 9], Packet_new 0 []], \<lparr>rd_data = [5], rd_end = UnexpectedEof\<rparr>)"
  using packet_stream_roundtrip [of 64 "[Packet_new 1 [9, 9], Packet_new 0 []]" "\<lparr>rd_data = [5], rd_end = UnexpectedEof\<rparr>"]
  by (simp add: packet_frame_ok_def Packet_new_def Packet_serialize_def flip: numeral_2_eq_2)

end
