(* ===== verification/Codec.thy ===== *)
theory Codec
  imports Buffa Framing
begin

text \<open>
  The generated \<^verbatim>\<open>Message\<close> implementations of \<^verbatim>\<open>crates/et-proto/src/gen/et.rs\<close>: for each of the
  seventeen messages \<^verbatim>\<open>compute_size\<close>, \<^verbatim>\<open>write_to\<close>, \<^verbatim>\<open>merge_field\<close> and \<^verbatim>\<open>clear\<close>, over the runtime of
  \<open>Buffa\<close>. The size cache is a memo of \<^verbatim>\<open>compute_size\<close> and is modelled by the call itself.
  \<open>decode_M\<close> is \<^verbatim>\<open>decode_from_slice\<close>: the runtime's decode loop, started with the default message.
  The lemmas show that every message decodes to itself and that the computed size is the
  encoded length; the two statements over the sum type \<open>message\<close> collect all messages.
\<close>

section \<open>The implementations\<close>

definition compute_size_ConnectRequest :: "buffa \<Rightarrow> ConnectRequest \<Rightarrow> nat" where
  "compute_size_ConnectRequest rt m = saturate_size rt
     ((case ConnectRequest_clientId m of None \<Rightarrow> 0 | Some v \<Rightarrow> 1 + string_encoded_len rt v) +
      (case ConnectRequest_version m of None \<Rightarrow> 0 | Some v \<Rightarrow> 1 + int32_encoded_len rt v) +
      unknown_encoded_len rt (ConnectRequest_unknown_fields m))"

definition write_to_ConnectRequest :: "buffa \<Rightarrow> ConnectRequest \<Rightarrow> bytes" where
  "write_to_ConnectRequest rt m =
     (case ConnectRequest_clientId m of None \<Rightarrow> [] | Some v \<Rightarrow> put_string_field rt 1 v) @
     (case ConnectRequest_version m of None \<Rightarrow> [] | Some v \<Rightarrow> put_int32_field rt 2 v) @
     unknown_write_to rt (ConnectRequest_unknown_fields m)"

definition merge_field_ConnectRequest :: "buffa \<Rightarrow> ConnectRequest \<Rightarrow> Tag \<Rightarrow> ConnectRequest dec" where
  "merge_field_ConnectRequest rt m tag =
     (if field_number tag = 1 then
        dbind (check_wire_type rt tag LengthDelimited) (\<lambda>_.
        dbind (merge_string rt (case ConnectRequest_clientId m of None \<Rightarrow> [] | Some s \<Rightarrow> s)) (\<lambda>v. dret (m\<lparr>ConnectRequest_clientId := Some v\<rparr>)))
      else if field_number tag = 2 then
        dbind (check_wire_type rt tag Varint) (\<lambda>_.
        dbind (decode_int32 rt) (\<lambda>v. dret (m\<lparr>ConnectRequest_version := Some v\<rparr>)))
      else dbind (decode_unknown_field rt tag) (\<lambda>u. dret (m\<lparr>ConnectRequest_unknown_fields := ConnectRequest_unknown_fields m @ [u]\<rparr>)))"

definition clear_ConnectRequest :: "ConnectRequest \<Rightarrow> ConnectRequest" where
  "clear_ConnectRequest m = m\<lparr>ConnectRequest_clientId := None, ConnectRequest_version := None, ConnectRequest_unknown_fields := []\<rparr>"

abbreviation "run_ConnectRequest rt \<equiv> run_typed rt Msg_ConnectRequest un_ConnectRequest (merge_field_ConnectRequest rt)"

definition decode_ConnectRequest :: "buffa \<Rightarrow> bytes \<Rightarrow> DecodeError + ConnectRequest" where
  "decode_ConnectRequest rt bs = decode_typed rt Msg_ConnectRequest un_ConnectRequest (merge_field_ConnectRequest rt) ConnectRequest_default bs"

definition compute_size_ConnectResponse :: "buffa \<Rightarrow> ConnectResponse \<Rightarrow> nat" where
  "compute_size_ConnectResponse rt m = saturate_size rt
     ((case ConnectResponse_status m of None \<Rightarrow> 0 | Some v \<Rightarrow> 1 + int32_encoded_len rt (ConnectStatus_to_i32 v)) +
      (case ConnectResponse_error m of None \<Rightarrow> 0 | Some v \<Rightarrow> 1 + string_encoded_len rt v) +
      unknown_encoded_len rt (ConnectResponse_unknown_fields m))"

definition write_to_ConnectResponse :: "buffa \<Rightarrow> ConnectResponse \<Rightarrow> bytes" where
  "write_to_ConnectResponse rt m =
     (case ConnectResponse_status m of None \<Rightarrow> [] | Some v \<Rightarrow> put_int32_field rt 1 (ConnectStatus_to_i32 v)) @
     (case ConnectResponse_error m of None \<Rightarrow> [] | Some v \<Rightarrow> put_string_field rt 2 v) @
     unknown_write_to rt (ConnectResponse_unknown_fields m)"

definition merge_field_ConnectResponse :: "buffa \<Rightarrow> ConnectResponse \<Rightarrow> Tag \<Rightarrow> ConnectResponse dec" where
  "merge_field_ConnectResponse rt m tag =
     (if field_number tag = 1 then
        dbind (check_wire_type rt tag Varint) (\<lambda>_.
        dbind (decode_int32 rt) (\<lambda>raw.
        case ConnectStatus_from_i32 raw of
          Some v \<Rightarrow> dret (m\<lparr>ConnectResponse_status := Some v\<rparr>)
        | None \<Rightarrow> dbind (register_unknown_field rt) (\<lambda>_.
            dret (m\<lparr>ConnectResponse_unknown_fields := ConnectResponse_unknown_fields m @ [UnknownField 1 (UVarint (scast raw))]\<rparr>))))
      else if field_number tag = 2 then
        dbind (check_wire_type rt tag LengthDelimited) (\<lambda>_.
        dbind (merge_string rt (case ConnectResponse_error m of None \<Rightarrow> [] | Some s \<Rightarrow> s)) (\<lambda>v. dret (m\<lparr>ConnectResponse_error := Some v\<rparr>)))
      else dbind (decode_unknown_field rt tag) (\<lambda>u. dret (m\<lparr>ConnectResponse_unknown_fields := ConnectResponse_unknown_fields m @ [u]\<rparr>)))"

definition clear_ConnectResponse :: "ConnectResponse \<Rightarrow> ConnectResponse" where
  "clear_ConnectResponse m = m\<lparr>ConnectResponse_status := None, ConnectResponse_error := None, ConnectResponse_unknown_fields := []\<rparr>"

abbreviation "run_ConnectResponse rt \<equiv> run_typed rt Msg_ConnectResponse un_ConnectResponse (merge_field_ConnectResponse rt)"

definition decode_ConnectResponse :: "buffa \<Rightarrow> bytes \<Rightarrow> DecodeError + ConnectResponse" where
  "decode_ConnectResponse rt bs = decode_typed rt Msg_ConnectResponse un_ConnectResponse (merge_field_ConnectResponse rt) ConnectResponse_default bs"

definition compute_size_SequenceHeader :: "buffa \<Rightarrow> SequenceHeader \<Rightarrow> nat" where
  "compute_size_SequenceHeader rt m = saturate_size rt
     ((case SequenceHeader_sequenceNumber m of None \<Rightarrow> 0 | Some v \<Rightarrow> 1 + int32_encoded_len rt v) +
      unknown_encoded_len rt (SequenceHeader_unknown_fields m))"

definition write_to_SequenceHeader :: "buffa \<Rightarrow> SequenceHeader \<Rightarrow> bytes" where
  "write_to_SequenceHeader rt m =
     (case SequenceHeader_sequenceNumber m of None \<Rightarrow> [] | Some v \<Rightarrow> put_int32_field rt 1 v) @
     unknown_write_to rt (SequenceHeader_unknown_fields m)"

definition merge_field_SequenceHeader :: "buffa \<Rightarrow> SequenceHeader \<Rightarrow> Tag \<Rightarrow> SequenceHeader dec" where
  "merge_field_SequenceHeader rt m tag =
     (if field_number tag = 1 then
        dbind (check_wire_type rt tag Varint) (\<lambda>_.
        dbind (decode_int32 rt) (\<lambda>v. dret (m\<lparr>SequenceHeader_sequenceNumber := Some v\<rparr>)))
      else dbind (decode_unknown_field rt tag) (\<lambda>u. dret (m\<lparr>SequenceHeader_unknown_fields := SequenceHeader_unknown_fields m @ [u]\<rparr>)))"

definition clear_SequenceHeader :: "SequenceHeader \<Rightarrow> SequenceHeader" where
  "clear_SequenceHeader m = m\<lparr>SequenceHeader_sequenceNumber := None, SequenceHeader_unknown_fields := []\<rparr>"

abbreviation "run_SequenceHeader rt \<equiv> run_typed rt Msg_SequenceHeader un_SequenceHeader (merge_field_SequenceHeader rt)"

definition decode_SequenceHeader :: "buffa \<Rightarrow> bytes \<Rightarrow> DecodeError + SequenceHeader" where
  "decode_SequenceHeader rt bs = decode_typed rt Msg_SequenceHeader un_SequenceHeader (merge_field_SequenceHeader rt) SequenceHeader_default bs"

definition compute_size_CatchupBuffer :: "buffa \<Rightarrow> CatchupBuffer \<Rightarrow> nat" where
  "compute_size_CatchupBuffer rt m = saturate_size rt
     (sum_list (map (\<lambda>v. 1 + bytes_encoded_len rt v) (CatchupBuffer_buffer m)) +
      unknown_encoded_len rt (CatchupBuffer_unknown_fields m))"

definition write_to_CatchupBuffer :: "buffa \<Rightarrow> CatchupBuffer \<Rightarrow> bytes" where
  "write_to_CatchupBuffer rt m =
     concat (map (\<lambda>v. put_shared_bytes_field rt 1 v) (CatchupBuffer_buffer m)) @
     unknown_write_to rt (CatchupBuffer_unknown_fields m)"

definition merge_field_CatchupBuffer :: "buffa \<Rightarrow> CatchupBuffer \<Rightarrow> Tag \<Rightarrow> CatchupBuffer dec" where
  "merge_field_CatchupBuffer rt m tag =
     (if field_number tag = 1 then
        dbind (check_wire_type rt tag LengthDelimited) (\<lambda>_.
        dbind (decode_bytes rt) (\<lambda>v.
      dbind (register_element_memory rt (element_footprint_bytes rt v)) (\<lambda>_.
        dret (m\<lparr>CatchupBuffer_buffer := CatchupBuffer_buffer m @ [v]\<rparr>))))
      else dbind (decode_unknown_field rt tag) (\<lambda>u. dret (m\<lparr>CatchupBuffer_unknown_fields := CatchupBuffer_unknown_fields m @ [u]\<rparr>)))"

definition clear_CatchupBuffer :: "CatchupBuffer \<Rightarrow> CatchupBuffer" where
  "clear_CatchupBuffer m = m\<lparr>CatchupBuffer_buffer := [], CatchupBuffer_unknown_fields := []\<rparr>"

abbreviation "run_CatchupBuffer rt \<equiv> run_typed rt Msg_CatchupBuffer un_CatchupBuffer (merge_field_CatchupBuffer rt)"

definition decode_CatchupBuffer :: "buffa \<Rightarrow> bytes \<Rightarrow> DecodeError + CatchupBuffer" where
  "decode_CatchupBuffer rt bs = decode_typed rt Msg_CatchupBuffer un_CatchupBuffer (merge_field_CatchupBuffer rt) CatchupBuffer_default bs"

definition compute_size_SocketEndpoint :: "buffa \<Rightarrow> SocketEndpoint \<Rightarrow> nat" where
  "compute_size_SocketEndpoint rt m = saturate_size rt
     ((case SocketEndpoint_name m of None \<Rightarrow> 0 | Some v \<Rightarrow> 1 + string_encoded_len rt v) +
      (case SocketEndpoint_port m of None \<Rightarrow> 0 | Some v \<Rightarrow> 1 + int32_encoded_len rt v) +
      unknown_encoded_len rt (SocketEndpoint_unknown_fields m))"

definition write_to_SocketEndpoint :: "buffa \<Rightarrow> SocketEndpoint \<Rightarrow> bytes" where
  "write_to_SocketEndpoint rt m =
     (case SocketEndpoint_name m of None \<Rightarrow> [] | Some v \<Rightarrow> put_string_field rt 1 v) @
     (case SocketEndpoint_port m of None \<Rightarrow> [] | Some v \<Rightarrow> put_int32_field rt 2 v) @
     unknown_write_to rt (SocketEndpoint_unknown_fields m)"

definition merge_field_SocketEndpoint :: "buffa \<Rightarrow> SocketEndpoint \<Rightarrow> Tag \<Rightarrow> SocketEndpoint dec" where
  "merge_field_SocketEndpoint rt m tag =
     (if field_number tag = 1 then
        dbind (check_wire_type rt tag LengthDelimited) (\<lambda>_.
        dbind (merge_string rt (case SocketEndpoint_name m of None \<Rightarrow> [] | Some s \<Rightarrow> s)) (\<lambda>v. dret (m\<lparr>SocketEndpoint_name := Some v\<rparr>)))
      else if field_number tag = 2 then
        dbind (check_wire_type rt tag Varint) (\<lambda>_.
        dbind (decode_int32 rt) (\<lambda>v. dret (m\<lparr>SocketEndpoint_port := Some v\<rparr>)))
      else dbind (decode_unknown_field rt tag) (\<lambda>u. dret (m\<lparr>SocketEndpoint_unknown_fields := SocketEndpoint_unknown_fields m @ [u]\<rparr>)))"

definition merge_len_SocketEndpoint :: "buffa \<Rightarrow> SocketEndpoint \<Rightarrow> SocketEndpoint dec" where
  "merge_len_SocketEndpoint rt m = dmap un_SocketEndpoint
     (merge_length_delimited rt (lift_merge Msg_SocketEndpoint un_SocketEndpoint (merge_field_SocketEndpoint rt)) (Msg_SocketEndpoint m))"

definition clear_SocketEndpoint :: "SocketEndpoint \<Rightarrow> SocketEndpoint" where
  "clear_SocketEndpoint m = m\<lparr>SocketEndpoint_name := None, SocketEndpoint_port := None, SocketEndpoint_unknown_fields := []\<rparr>"

abbreviation "run_SocketEndpoint rt \<equiv> run_typed rt Msg_SocketEndpoint un_SocketEndpoint (merge_field_SocketEndpoint rt)"

definition decode_SocketEndpoint :: "buffa \<Rightarrow> bytes \<Rightarrow> DecodeError + SocketEndpoint" where
  "decode_SocketEndpoint rt bs = decode_typed rt Msg_SocketEndpoint un_SocketEndpoint (merge_field_SocketEndpoint rt) SocketEndpoint_default bs"

definition compute_size_TerminalBuffer :: "buffa \<Rightarrow> TerminalBuffer \<Rightarrow> nat" where
  "compute_size_TerminalBuffer rt m = saturate_size rt
     ((case TerminalBuffer_buffer m of None \<Rightarrow> 0 | Some v \<Rightarrow> 1 + bytes_encoded_len rt v) +
      unknown_encoded_len rt (TerminalBuffer_unknown_fields m))"

definition write_to_TerminalBuffer :: "buffa \<Rightarrow> TerminalBuffer \<Rightarrow> bytes" where
  "write_to_TerminalBuffer rt m =
     (case TerminalBuffer_buffer m of None \<Rightarrow> [] | Some v \<Rightarrow> put_shared_bytes_field rt 1 v) @
     unknown_write_to rt (TerminalBuffer_unknown_fields m)"

definition merge_field_TerminalBuffer :: "buffa \<Rightarrow> TerminalBuffer \<Rightarrow> Tag \<Rightarrow> TerminalBuffer dec" where
  "merge_field_TerminalBuffer rt m tag =
     (if field_number tag = 1 then
        dbind (check_wire_type rt tag LengthDelimited) (\<lambda>_.
        dbind (merge_bytes rt (case TerminalBuffer_buffer m of None \<Rightarrow> [] | Some s \<Rightarrow> s)) (\<lambda>v. dret (m\<lparr>TerminalBuffer_buffer := Some v\<rparr>)))
      else dbind (decode_unknown_field rt tag) (\<lambda>u. dret (m\<lparr>TerminalBuffer_unknown_fields := TerminalBuffer_unknown_fields m @ [u]\<rparr>)))"

definition clear_TerminalBuffer :: "TerminalBuffer \<Rightarrow> TerminalBuffer" where
  "clear_TerminalBuffer m = m\<lparr>TerminalBuffer_buffer := None, TerminalBuffer_unknown_fields := []\<rparr>"

abbreviation "run_TerminalBuffer rt \<equiv> run_typed rt Msg_TerminalBuffer un_TerminalBuffer (merge_field_TerminalBuffer rt)"

definition decode_TerminalBuffer :: "buffa \<Rightarrow> bytes \<Rightarrow> DecodeError + TerminalBuffer" where
  "decode_TerminalBuffer rt bs = decode_typed rt Msg_TerminalBuffer un_TerminalBuffer (merge_field_TerminalBuffer rt) TerminalBuffer_default bs"

definition compute_size_TerminalInfo :: "buffa \<Rightarrow> TerminalInfo \<Rightarrow> nat" where
  "compute_size_TerminalInfo rt m = saturate_size rt
     ((case TerminalInfo_id m of None \<Rightarrow> 0 | Some v \<Rightarrow> 1 + string_encoded_len rt v) +
      (case TerminalInfo_row m of None \<Rightarrow> 0 | Some v \<Rightarrow> 1 + int32_encoded_len rt v) +
      (case TerminalInfo_column m of None \<Rightarrow> 0 | Some v \<Rightarrow> 1 + int32_encoded_len rt v) +
      (case TerminalInfo_width m of None \<Rightarrow> 0 | Some v \<Rightarrow> 1 + int32_encoded_len rt v) +
      (case TerminalInfo_height m of None \<Rightarrow> 0 | Some v \<Rightarrow> 1 + int32_encoded_len rt v) +
      unknown_encoded_len rt (TerminalInfo_unknown_fields m))"

definition write_to_TerminalInfo :: "buffa \<Rightarrow> TerminalInfo \<Rightarrow> bytes" where
  "write_to_TerminalInfo rt m =
     (case TerminalInfo_id m of None \<Rightarrow> [] | Some v \<Rightarrow> put_string_field rt 1 v) @
     (case TerminalInfo_row m of None \<Rightarrow> [] | Some v \<Rightarrow> put_int32_field rt 2 v) @
     (case TerminalInfo_column m of None \<Rightarrow> [] | Some v \<Rightarrow> put_int32_field rt 3 v) @
     (case TerminalInfo_width m of None \<Rightarrow> [] | Some v \<Rightarrow> put_int32_field rt 4 v) @
     (case TerminalInfo_height m of None \<Rightarrow> [] | Some v \<Rightarrow> put_int32_field rt 5 v) @
     unknown_write_to rt (TerminalInfo_unknown_fields m)"

definition merge_field_TerminalInfo :: "buffa \<Rightarrow> TerminalInfo \<Rightarrow> Tag \<Rightarrow> TerminalInfo dec" where
  "merge_field_TerminalInfo rt m tag =
     (if field_number tag = 1 then
        dbind (check_wire_type rt tag LengthDelimited) (\<lambda>_.
        dbind (merge_string rt (case TerminalInfo_id m of None \<Rightarrow> [] | Some s \<Rightarrow> s)) (\<lambda>v. dret (m\<lparr>TerminalInfo_id := Some v\<rparr>)))
      else if field_number tag = 2 then
        dbind (check_wire_type rt tag Varint) (\<lambda>_.
        dbind (decode_int32 rt) (\<lambda>v. dret (m\<lparr>TerminalInfo_row := Some v\<rparr>)))
      else if field_number tag = 3 then
        dbind (check_wire_type rt tag Varint) (\<lambda>_.
        dbind (decode_int32 rt) (\<lambda>v. dret (m\<lparr>TerminalInfo_column := Some v\<rparr>)))
      else if field_number tag = 4 then
        dbind (check_wire_type rt tag Varint) (\<lambda>_.
        dbind (decode_int32 rt) (\<lambda>v. dret (m\<lparr>TerminalInfo_width := Some v\<rparr>)))
      else if field_number tag = 5 then
        dbind (check_wire_type rt tag Varint) (\<lambda>_.
        dbind (decode_int32 rt) (\<lambda>v. dret (m\<lparr>TerminalInfo_height := Some v\<rparr>)))
      else dbind (decode_unknown_field rt tag) (\<lambda>u. dret (m\<lparr>TerminalInfo_unknown_fields := TerminalInfo_unknown_fields m @ [u]\<rparr>)))"

definition clear_TerminalInfo :: "TerminalInfo \<Rightarrow> TerminalInfo" where
  "clear_TerminalInfo m = m\<lparr>TerminalInfo_id := None, TerminalInfo_row := None, TerminalInfo_column := None, TerminalInfo_width := None, TerminalInfo_height := None, TerminalInfo_unknown_fields := []\<rparr>"

abbreviation "run_TerminalInfo rt \<equiv> run_typed rt Msg_TerminalInfo un_TerminalInfo (merge_field_TerminalInfo rt)"

definition decode_TerminalInfo :: "buffa \<Rightarrow> bytes \<Rightarrow> DecodeError + TerminalInfo" where
  "decode_TerminalInfo rt bs = decode_typed rt Msg_TerminalInfo un_TerminalInfo (merge_field_TerminalInfo rt) TerminalInfo_default bs"

definition compute_size_PortForwardSourceRequest :: "buffa \<Rightarrow> PortForwardSourceRequest \<Rightarrow> nat" where
  "compute_size_PortForwardSourceRequest rt m = saturate_size rt
     ((case PortForwardSourceRequest_source m of None \<Rightarrow> 0 | Some v \<Rightarrow>
        (let inner_size = compute_size_SocketEndpoint rt v in 1 + varint_len rt inner_size + inner_size)) +
      (case PortForwardSourceRequest_destination m of None \<Rightarrow> 0 | Some v \<Rightarrow>
        (let inner_size = compute_size_SocketEndpoint rt v in 1 + varint_len rt inner_size + inner_size)) +
      (case PortForwardSourceRequest_environmentvariable m of None \<Rightarrow> 0 | Some v \<Rightarrow> 1 + string_encoded_len rt v) +
      unknown_encoded_len rt (PortForwardSourceRequest_unknown_fields m))"

definition write_to_PortForwardSourceRequest :: "buffa \<Rightarrow> PortForwardSourceRequest \<Rightarrow> bytes" where
  "write_to_PortForwardSourceRequest rt m =
     (case PortForwardSourceRequest_source m of None \<Rightarrow> [] | Some v \<Rightarrow> put_len_delimited_header rt 1 (compute_size_SocketEndpoint rt v) @
        write_to_SocketEndpoint rt v) @
     (case PortForwardSourceRequest_destination m of None \<Rightarrow> [] | Some v \<Rightarrow> put_len_delimited_header rt 2 (compute_size_SocketEndpoint rt v) @
        write_to_SocketEndpoint rt v) @
     (case PortForwardSourceRequest_environmentvariable m of None \<Rightarrow> [] | Some v \<Rightarrow> put_string_field rt 3 v) @
     unknown_write_to rt (PortForwardSourceRequest_unknown_fields m)"

definition merge_field_PortForwardSourceRequest :: "buffa \<Rightarrow> PortForwardSourceRequest \<Rightarrow> Tag \<Rightarrow> PortForwardSourceRequest dec" where
  "merge_field_PortForwardSourceRequest rt m tag =
     (if field_number tag = 1 then
        dbind (check_wire_type rt tag LengthDelimited) (\<lambda>_.
        dbind (merge_len_SocketEndpoint rt (case PortForwardSourceRequest_source m of None \<Rightarrow> SocketEndpoint_default | Some s \<Rightarrow> s))
        (\<lambda>v. dret (m\<lparr>PortForwardSourceRequest_source := Some v\<rparr>)))
      else if field_number tag = 2 then
        dbind (check_wire_type rt tag LengthDelimited) (\<lambda>_.
        dbind (merge_len_SocketEndpoint rt (case PortForwardSourceRequest_destination m of None \<Rightarrow> SocketEndpoint_default | Some s \<Rightarrow> s))
        (\<lambda>v. dret (m\<lparr>PortForwardSourceRequest_destination := Some v\<rparr>)))
      else if field_number tag = 3 then
        dbind (check_wire_type rt tag LengthDelimited) (\<lambda>_.
        dbind (merge_string rt (case PortForwardSourceRequest_environmentvariable m of None \<Rightarrow> [] | Some s \<Rightarrow> s)) (\<lambda>v. dret (m\<lparr>PortForwardSourceRequest_environmentvariable := Some v\<rparr>)))
      else dbind (decode_unknown_field rt tag) (\<lambda>u. dret (m\<lparr>PortForwardSourceRequest_unknown_fields := PortForwardSourceRequest_unknown_fields m @ [u]\<rparr>)))"

definition merge_len_PortForwardSourceRequest :: "buffa \<Rightarrow> PortForwardSourceRequest \<Rightarrow> PortForwardSourceRequest dec" where
  "merge_len_PortForwardSourceRequest rt m = dmap un_PortForwardSourceRequest
     (merge_length_delimited rt (lift_merge Msg_PortForwardSourceRequest un_PortForwardSourceRequest (merge_field_PortForwardSourceRequest rt)) (Msg_PortForwardSourceRequest m))"

definition clear_PortForwardSourceRequest :: "PortForwardSourceRequest \<Rightarrow> PortForwardSourceRequest" where
  "clear_PortForwardSourceRequest m = m\<lparr>PortForwardSourceRequest_source := None, PortForwardSourceRequest_destination := None, PortForwardSourceRequest_environmentvariable := None, PortForwardSourceRequest_unknown_fields := []\<rparr>"

abbreviation "run_PortForwardSourceRequest rt \<equiv> run_typed rt Msg_PortForwardSourceRequest un_PortForwardSourceRequest (merge_field_PortForwardSourceRequest rt)"

definition decode_PortForwardSourceRequest :: "buffa \<Rightarrow> bytes \<Rightarrow> DecodeError + PortForwardSourceRequest" where
  "decode_PortForwardSourceRequest rt bs = decode_typed rt Msg_PortForwardSourceRequest un_PortForwardSourceRequest (merge_field_PortForwardSourceRequest rt) PortForwardSourceRequest_default bs"

definition compute_size_PortForwardSourceResponse :: "buffa \<Rightarrow> PortForwardSourceResponse \<Rightarrow> nat" where
  "compute_size_PortForwardSourceResponse rt m = saturate_size rt
     ((case PortForwardSourceResponse_error m of None \<Rightarrow> 0 | Some v \<Rightarrow> 1 + string_encoded_len rt v) +
      unknown_encoded_len rt (PortForwardSourceResponse_unknown_fields m))"

definition write_to_PortForwardSourceResponse :: "buffa \<Rightarrow> PortForwardSourceResponse \<Rightarrow> bytes" where
  "write_to_PortForwardSourceResponse rt m =
     (case PortForwardSourceResponse_error m of None \<Rightarrow> [] | Some v \<Rightarrow> put_string_field rt 1 v) @
     unknown_write_to rt (PortForwardSourceResponse_unknown_fields m)"

definition merge_field_PortForwardSourceResponse :: "buffa \<Rightarrow> PortForwardSourceResponse \<Rightarrow> Tag \<Rightarrow> PortForwardSourceResponse dec" where
  "merge_field_PortForwardSourceResponse rt m tag =
     (if field_number tag = 1 then
        dbind (check_wire_type rt tag LengthDelimited) (\<lambda>_.
        dbind (merge_string rt (case PortForwardSourceResponse_error m of None \<Rightarrow> [] | Some s \<Rightarrow> s)) (\<lambda>v. dret (m\<lparr>PortForwardSourceResponse_error := Some v\<rparr>)))
      else dbind (decode_unknown_field rt tag) (\<lambda>u. dret (m\<lparr>PortForwardSourceResponse_unknown_fields := PortForwardSourceResponse_unknown_fields m @ [u]\<rparr>)))"

definition clear_PortForwardSourceResponse :: "PortForwardSourceResponse \<Rightarrow> PortForwardSourceResponse" where
  "clear_PortForwardSourceResponse m = m\<lparr>PortForwardSourceResponse_error := None, PortForwardSourceResponse_unknown_fields := []\<rparr>"

abbreviation "run_PortForwardSourceResponse rt \<equiv> run_typed rt Msg_PortForwardSourceResponse un_PortForwardSourceResponse (merge_field_PortForwardSourceResponse rt)"

definition decode_PortForwardSourceResponse :: "buffa \<Rightarrow> bytes \<Rightarrow> DecodeError + PortForwardSourceResponse" where
  "decode_PortForwardSourceResponse rt bs = decode_typed rt Msg_PortForwardSourceResponse un_PortForwardSourceResponse (merge_field_PortForwardSourceResponse rt) PortForwardSourceResponse_default bs"

definition compute_size_PortForwardDestinationRequest :: "buffa \<Rightarrow> PortForwardDestinationRequest \<Rightarrow> nat" where
  "compute_size_PortForwardDestinationRequest rt m = saturate_size rt
     ((case PortForwardDestinationRequest_destination m of None \<Rightarrow> 0 | Some v \<Rightarrow>
        (let inner_size = compute_size_SocketEndpoint rt v in 1 + varint_len rt inner_size + inner_size)) +
      (case PortForwardDestinationRequest_fd m of None \<Rightarrow> 0 | Some v \<Rightarrow> 1 + int32_encoded_len rt v) +
      unknown_encoded_len rt (PortForwardDestinationRequest_unknown_fields m))"

definition write_to_PortForwardDestinationRequest :: "buffa \<Rightarrow> PortForwardDestinationRequest \<Rightarrow> bytes" where
  "write_to_PortForwardDestinationRequest rt m =
     (case PortForwardDestinationRequest_destination m of None \<Rightarrow> [] | Some v \<Rightarrow> put_len_delimited_header rt 1 (compute_size_SocketEndpoint rt v) @
        write_to_SocketEndpoint rt v) @
     (case PortForwardDestinationRequest_fd m of None \<Rightarrow> [] | Some v \<Rightarrow> put_int32_field rt 2 v) @
     unknown_write_to rt (PortForwardDestinationRequest_unknown_fields m)"

definition merge_field_PortForwardDestinationRequest :: "buffa \<Rightarrow> PortForwardDestinationRequest \<Rightarrow> Tag \<Rightarrow> PortForwardDestinationRequest dec" where
  "merge_field_PortForwardDestinationRequest rt m tag =
     (if field_number tag = 1 then
        dbind (check_wire_type rt tag LengthDelimited) (\<lambda>_.
        dbind (merge_len_SocketEndpoint rt (case PortForwardDestinationRequest_destination m of None \<Rightarrow> SocketEndpoint_default | Some s \<Rightarrow> s))
        (\<lambda>v. dret (m\<lparr>PortForwardDestinationRequest_destination := Some v\<rparr>)))
      else if field_number tag = 2 then
        dbind (check_wire_type rt tag Varint) (\<lambda>_.
        dbind (decode_int32 rt) (\<lambda>v. dret (m\<lparr>PortForwardDestinationRequest_fd := Some v\<rparr>)))
      else dbind (decode_unknown_field rt tag) (\<lambda>u. dret (m\<lparr>PortForwardDestinationRequest_unknown_fields := PortForwardDestinationRequest_unknown_fields m @ [u]\<rparr>)))"

definition clear_PortForwardDestinationRequest :: "PortForwardDestinationRequest \<Rightarrow> PortForwardDestinationRequest" where
  "clear_PortForwardDestinationRequest m = m\<lparr>PortForwardDestinationRequest_destination := None, PortForwardDestinationRequest_fd := None, PortForwardDestinationRequest_unknown_fields := []\<rparr>"

abbreviation "run_PortForwardDestinationRequest rt \<equiv> run_typed rt Msg_PortForwardDestinationRequest un_PortForwardDestinationRequest (merge_field_PortForwardDestinationRequest rt)"

definition decode_PortForwardDestinationRequest :: "buffa \<Rightarrow> bytes \<Rightarrow> DecodeError + PortForwardDestinationRequest" where
  "decode_PortForwardDestinationRequest rt bs = decode_typed rt Msg_PortForwardDestinationRequest un_PortForwardDestinationRequest (merge_field_PortForwardDestinationRequest rt) PortForwardDestinationRequest_default bs"

definition compute_size_PortForwardDestinationResponse :: "buffa \<Rightarrow> PortForwardDestinationResponse \<Rightarrow> nat" where
  "compute_size_PortForwardDestinationResponse rt m = saturate_size rt
     ((case PortForwardDestinationResponse_clientfd m of None \<Rightarrow> 0 | Some v \<Rightarrow> 1 + int32_encoded_len rt v) +
      (case PortForwardDestinationResponse_socketid m of None \<Rightarrow> 0 | Some v \<Rightarrow> 1 + int32_encoded_len rt v) +
      (case PortForwardDestinationResponse_error m of None \<Rightarrow> 0 | Some v \<Rightarrow> 1 + string_encoded_len rt v) +
      unknown_encoded_len rt (PortForwardDestinationResponse_unknown_fields m))"

definition write_to_PortForwardDestinationResponse :: "buffa \<Rightarrow> PortForwardDestinationResponse \<Rightarrow> bytes" where
  "write_to_PortForwardDestinationResponse rt m =
     (case PortForwardDestinationResponse_clientfd m of None \<Rightarrow> [] | Some v \<Rightarrow> put_int32_field rt 1 v) @
     (case PortForwardDestinationResponse_socketid m of None \<Rightarrow> [] | Some v \<Rightarrow> put_int32_field rt 2 v) @
     (case PortForwardDestinationResponse_error m of None \<Rightarrow> [] | Some v \<Rightarrow> put_string_field rt 3 v) @
     unknown_write_to rt (PortForwardDestinationResponse_unknown_fields m)"

definition merge_field_PortForwardDestinationResponse :: "buffa \<Rightarrow> PortForwardDestinationResponse \<Rightarrow> Tag \<Rightarrow> PortForwardDestinationResponse dec" where
  "merge_field_PortForwardDestinationResponse rt m tag =
     (if field_number tag = 1 then
        dbind (check_wire_type rt tag Varint) (\<lambda>_.
        dbind (decode_int32 rt) (\<lambda>v. dret (m\<lparr>PortForwardDestinationResponse_clientfd := Some v\<rparr>)))
      else if field_number tag = 2 then
        dbind (check_wire_type rt tag Varint) (\<lambda>_.
        dbind (decode_int32 rt) (\<lambda>v. dret (m\<lparr>PortForwardDestinationResponse_socketid := Some v\<rparr>)))
      else if field_number tag = 3 then
        dbind (check_wire_type rt tag LengthDelimited) (\<lambda>_.
        dbind (merge_string rt (case PortForwardDestinationResponse_error m of None \<Rightarrow> [] | Some s \<Rightarrow> s)) (\<lambda>v. dret (m\<lparr>PortForwardDestinationResponse_error := Some v\<rparr>)))
      else dbind (decode_unknown_field rt tag) (\<lambda>u. dret (m\<lparr>PortForwardDestinationResponse_unknown_fields := PortForwardDestinationResponse_unknown_fields m @ [u]\<rparr>)))"

definition clear_PortForwardDestinationResponse :: "PortForwardDestinationResponse \<Rightarrow> PortForwardDestinationResponse" where
  "clear_PortForwardDestinationResponse m = m\<lparr>PortForwardDestinationResponse_clientfd := None, PortForwardDestinationResponse_socketid := None, PortForwardDestinationResponse_error := None, PortForwardDestinationResponse_unknown_fields := []\<rparr>"

abbreviation "run_PortForwardDestinationResponse rt \<equiv> run_typed rt Msg_PortForwardDestinationResponse un_PortForwardDestinationResponse (merge_field_PortForwardDestinationResponse rt)"

definition decode_PortForwardDestinationResponse :: "buffa \<Rightarrow> bytes \<Rightarrow> DecodeError + PortForwardDestinationResponse" where
  "decode_PortForwardDestinationResponse rt bs = decode_typed rt Msg_PortForwardDestinationResponse un_PortForwardDestinationResponse (merge_field_PortForwardDestinationResponse rt) PortForwardDestinationResponse_default bs"

definition compute_size_PortForwardData :: "buffa \<Rightarrow> PortForwardData \<Rightarrow> nat" where
  "compute_size_PortForwardData rt m = saturate_size rt
     ((case PortForwardData_sourcetodestination m of None \<Rightarrow> 0 | Some v \<Rightarrow> 1 + BOOL_ENCODED_LEN rt) +
      (case PortForwardData_socketid m of None \<Rightarrow> 0 | Some v \<Rightarrow> 1 + int32_encoded_len rt v) +
      (case PortForwardData_buffer m of None \<Rightarrow> 0 | Some v \<Rightarrow> 1 + bytes_encoded_len rt v) +
      (case PortForwardData_error m of None \<Rightarrow> 0 | Some v \<Rightarrow> 1 + string_encoded_len rt v) +
      (case PortForwardData_closed m of None \<Rightarrow> 0 | Some v \<Rightarrow> 1 + BOOL_ENCODED_LEN rt) +
      unknown_encoded_len rt (PortForwardData_unknown_fields m))"

definition write_to_PortForwardData :: "buffa \<Rightarrow> PortForwardData \<Rightarrow> bytes" where
  "write_to_PortForwardData rt m =
     (case PortForwardData_sourcetodestination m of None \<Rightarrow> [] | Some v \<Rightarrow> put_bool_field rt 1 v) @
     (case PortForwardData_socketid m of None \<Rightarrow> [] | Some v \<Rightarrow> put_int32_field rt 2 v) @
     (case PortForwardData_buffer m of None \<Rightarrow> [] | Some v \<Rightarrow> put_shared_bytes_field rt 3 v) @
     (case PortForwardData_error m of None \<Rightarrow> [] | Some v \<Rightarrow> put_string_field rt 4 v) @
     (case PortForwardData_closed m of None \<Rightarrow> [] | Some v \<Rightarrow> put_bool_field rt 5 v) @
     unknown_write_to rt (PortForwardData_unknown_fields m)"

definition merge_field_PortForwardData :: "buffa \<Rightarrow> PortForwardData \<Rightarrow> Tag \<Rightarrow> PortForwardData dec" where
  "merge_field_PortForwardData rt m tag =
     (if field_number tag = 1 then
        dbind (check_wire_type rt tag Varint) (\<lambda>_.
        dbind (decode_bool rt) (\<lambda>v. dret (m\<lparr>PortForwardData_sourcetodestination := Some v\<rparr>)))
      else if field_number tag = 2 then
        dbind (check_wire_type rt tag Varint) (\<lambda>_.
        dbind (decode_int32 rt) (\<lambda>v. dret (m\<lparr>PortForwardData_socketid := Some v\<rparr>)))
      else if field_number tag = 3 then
        dbind (check_wire_type rt tag LengthDelimited) (\<lambda>_.
        dbind (merge_bytes rt (case PortForwardData_buffer m of None \<Rightarrow> [] | Some s \<Rightarrow> s)) (\<lambda>v. dret (m\<lparr>PortForwardData_buffer := Some v\<rparr>)))
      else if field_number tag = 4 then
        dbind (check_wire_type rt tag LengthDelimited) (\<lambda>_.
        dbind (merge_string rt (case PortForwardData_error m of None \<Rightarrow> [] | Some s \<Rightarrow> s)) (\<lambda>v. dret (m\<lparr>PortForwardData_error := Some v\<rparr>)))
      else if field_number tag = 5 then
        dbind (check_wire_type rt tag Varint) (\<lambda>_.
        dbind (decode_bool rt) (\<lambda>v. dret (m\<lparr>PortForwardData_closed := Some v\<rparr>)))
      else dbind (decode_unknown_field rt tag) (\<lambda>u. dret (m\<lparr>PortForwardData_unknown_fields := PortForwardData_unknown_fields m @ [u]\<rparr>)))"

definition clear_PortForwardData :: "PortForwardData \<Rightarrow> PortForwardData" where
  "clear_PortForwardData m = m\<lparr>PortForwardData_sourcetodestination := None, PortForwardData_socketid := None, PortForwardData_buffer := None, PortForwardData_error := None, PortForwardData_closed := None, PortForwardData_unknown_fields := []\<rparr>"

abbreviation "run_PortForwardData rt \<equiv> run_typed rt Msg_PortForwardData un_PortForwardData (merge_field_PortForwardData rt)"

definition decode_PortForwardData :: "buffa \<Rightarrow> bytes \<Rightarrow> DecodeError + PortForwardData" where
  "decode_PortForwardData rt bs = decode_typed rt Msg_PortForwardData un_PortForwardData (merge_field_PortForwardData rt) PortForwardData_default bs"

definition compute_size_InitialPayload :: "buffa \<Rightarrow> InitialPayload \<Rightarrow> nat" where
  "compute_size_InitialPayload rt m = saturate_size rt
     ((case InitialPayload_jumphost m of None \<Rightarrow> 0 | Some v \<Rightarrow> 1 + BOOL_ENCODED_LEN rt) +
      sum_list (map (\<lambda>v. let inner_size = compute_size_PortForwardSourceRequest rt v
        in 1 + varint_len rt inner_size + inner_size) (InitialPayload_reversetunnels m)) +
      map_field_len rt (InitialPayload_environmentvariables m) 1 +
      unknown_encoded_len rt (InitialPayload_unknown_fields m))"

definition write_to_InitialPayload :: "buffa \<Rightarrow> InitialPayload \<Rightarrow> bytes" where
  "write_to_InitialPayload rt m =
     (case InitialPayload_jumphost m of None \<Rightarrow> [] | Some v \<Rightarrow> put_bool_field rt 1 v) @
     concat (map (\<lambda>v. put_len_delimited_header rt 2 (compute_size_PortForwardSourceRequest rt v) @
        write_to_PortForwardSourceRequest rt v) (InitialPayload_reversetunnels m)) @
     map_write_field rt (InitialPayload_environmentvariables m) 3 @
     unknown_write_to rt (InitialPayload_unknown_fields m)"

definition merge_field_InitialPayload :: "buffa \<Rightarrow> InitialPayload \<Rightarrow> Tag \<Rightarrow> InitialPayload dec" where
  "merge_field_InitialPayload rt m tag =
     (if field_number tag = 1 then
        dbind (check_wire_type rt tag Varint) (\<lambda>_.
        dbind (decode_bool rt) (\<lambda>v. dret (m\<lparr>InitialPayload_jumphost := Some v\<rparr>)))
      else if field_number tag = 2 then
        dbind (check_wire_type rt tag LengthDelimited) (\<lambda>_.
        dbind (register_element_memory rt
          (element_footprint_source_request rt PortForwardSourceRequest_default)) (\<lambda>_.
      dbind (merge_len_PortForwardSourceRequest rt PortForwardSourceRequest_default) (\<lambda>v.
        dret (m\<lparr>InitialPayload_reversetunnels := InitialPayload_reversetunnels m @ [v]\<rparr>))))
      else if field_number tag = 3 then
        dbind (check_wire_type rt tag LengthDelimited) (\<lambda>_.
        dbind (map_merge_entry rt (InitialPayload_environmentvariables m)) (\<lambda>v. dret (m\<lparr>InitialPayload_environmentvariables := v\<rparr>)))
      else dbind (decode_unknown_field rt tag) (\<lambda>u. dret (m\<lparr>InitialPayload_unknown_fields := InitialPayload_unknown_fields m @ [u]\<rparr>)))"

definition clear_InitialPayload :: "InitialPayload \<Rightarrow> InitialPayload" where
  "clear_InitialPayload m = m\<lparr>InitialPayload_jumphost := None, InitialPayload_reversetunnels := [], InitialPayload_environmentvariables := Map.empty, InitialPayload_unknown_fields := []\<rparr>"

abbreviation "run_InitialPayload rt \<equiv> run_typed rt Msg_InitialPayload un_InitialPayload (merge_field_InitialPayload rt)"

definition decode_InitialPayload :: "buffa \<Rightarrow> bytes \<Rightarrow> DecodeError + InitialPayload" where
  "decode_InitialPayload rt bs = decode_typed rt Msg_InitialPayload un_InitialPayload (merge_field_InitialPayload rt) InitialPayload_default bs"

definition compute_size_InitialResponse :: "buffa \<Rightarrow> InitialResponse \<Rightarrow> nat" where
  "compute_size_InitialResponse rt m = saturate_size rt
     ((case InitialResponse_error m of None \<Rightarrow> 0 | Some v \<Rightarrow> 1 + string_encoded_len rt v) +
      unknown_encoded_len rt (InitialResponse_unknown_fields m))"

definition write_to_InitialResponse :: "buffa \<Rightarrow> InitialResponse \<Rightarrow> bytes" where
  "write_to_InitialResponse rt m =
     (case InitialResponse_error m of None \<Rightarrow> [] | Some v \<Rightarrow> put_string_field rt 1 v) @
     unknown_write_to rt (InitialResponse_unknown_fields m)"

definition merge_field_InitialResponse :: "buffa \<Rightarrow> InitialResponse \<Rightarrow> Tag \<Rightarrow> InitialResponse dec" where
  "merge_field_InitialResponse rt m tag =
     (if field_number tag = 1 then
        dbind (check_wire_type rt tag LengthDelimited) (\<lambda>_.
        dbind (merge_string rt (case InitialResponse_error m of None \<Rightarrow> [] | Some s \<Rightarrow> s)) (\<lambda>v. dret (m\<lparr>InitialResponse_error := Some v\<rparr>)))
      else dbind (decode_unknown_field rt tag) (\<lambda>u. dret (m\<lparr>InitialResponse_unknown_fields := InitialResponse_unknown_fields m @ [u]\<rparr>)))"

definition clear_InitialResponse :: "InitialResponse \<Rightarrow> InitialResponse" where
  "clear_InitialResponse m = m\<lparr>InitialResponse_error := None, InitialResponse_unknown_fields := []\<rparr>"

abbreviation "run_InitialResponse rt \<equiv> run_typed rt Msg_InitialResponse un_InitialResponse (merge_field_InitialResponse rt)"

definition decode_InitialResponse :: "buffa \<Rightarrow> bytes \<Rightarrow> DecodeError + InitialResponse" where
  "decode_InitialResponse rt bs = decode_typed rt Msg_InitialResponse un_InitialResponse (merge_field_InitialResponse rt) InitialResponse_default bs"

definition compute_size_ConfigParams :: "buffa \<Rightarrow> ConfigParams \<Rightarrow> nat" where
  "compute_size_ConfigParams rt m = saturate_size rt
     ((case ConfigParams_vlevel m of None \<Rightarrow> 0 | Some v \<Rightarrow> 1 + int32_encoded_len rt v) +
      (case ConfigParams_minloglevel m of None \<Rightarrow> 0 | Some v \<Rightarrow> 1 + int32_encoded_len rt v) +
      unknown_encoded_len rt (ConfigParams_unknown_fields m))"

definition write_to_ConfigParams :: "buffa \<Rightarrow> ConfigParams \<Rightarrow> bytes" where
  "write_to_ConfigParams rt m =
     (case ConfigParams_vlevel m of None \<Rightarrow> [] | Some v \<Rightarrow> put_int32_field rt 1 v) @
     (case ConfigParams_minloglevel m of None \<Rightarrow> [] | Some v \<Rightarrow> put_int32_field rt 2 v) @
     unknown_write_to rt (ConfigParams_unknown_fields m)"

definition merge_field_ConfigParams :: "buffa \<Rightarrow> ConfigParams \<Rightarrow> Tag \<Rightarrow> ConfigParams dec" where
  "merge_field_ConfigParams rt m tag =
     (if field_number tag = 1 then
        dbind (check_wire_type rt tag Varint) (\<lambda>_.
        dbind (decode_int32 rt) (\<lambda>v. dret (m\<lparr>ConfigParams_vlevel := Some v\<rparr>)))
      else if field_number tag = 2 then
        dbind (check_wire_type rt tag Varint) (\<lambda>_.
        dbind (decode_int32 rt) (\<lambda>v. dret (m\<lparr>ConfigParams_minloglevel := Some v\<rparr>)))
      else dbind (decode_unknown_field rt tag) (\<lambda>u. dret (m\<lparr>ConfigParams_unknown_fields := ConfigParams_unknown_fields m @ [u]\<rparr>)))"

definition clear_ConfigParams :: "ConfigParams \<Rightarrow> ConfigParams" where
  "clear_ConfigParams m = m\<lparr>ConfigParams_vlevel := None, ConfigParams_minloglevel := None, ConfigParams_unknown_fields := []\<rparr>"

abbreviation "run_ConfigParams rt \<equiv> run_typed rt Msg_ConfigParams un_ConfigParams (merge_field_ConfigParams rt)"

definition decode_ConfigParams :: "buffa \<Rightarrow> bytes \<Rightarrow> DecodeError + ConfigParams" where
  "decode_ConfigParams rt bs = decode_typed rt Msg_ConfigParams un_ConfigParams (merge_field_ConfigParams rt) ConfigParams_default bs"

definition compute_size_TermInit :: "buffa \<Rightarrow> TermInit \<Rightarrow> nat" where
  "compute_size_TermInit rt m = saturate_size rt
     (sum_list (map (\<lambda>v. 1 + string_encoded_len rt v) (TermInit_environmentnames m)) +
      sum_list (map (\<lambda>v. 1 + string_encoded_len rt v) (TermInit_environmentvalues m)) +
      unknown_encoded_len rt (TermInit_unknown_fields m))"

definition write_to_TermInit :: "buffa \<Rightarrow> TermInit \<Rightarrow> bytes" where
  "write_to_TermInit rt m =
     concat (map (\<lambda>v. put_string_field rt 1 v) (TermInit_environmentnames m)) @
     concat (map (\<lambda>v. put_string_field rt 2 v) (TermInit_environmentvalues m)) @
     unknown_write_to rt (TermInit_unknown_fields m)"

definition merge_field_TermInit :: "buffa \<Rightarrow> TermInit \<Rightarrow> Tag \<Rightarrow> TermInit dec" where
  "merge_field_TermInit rt m tag =
     (if field_number tag = 1 then
        dbind (check_wire_type rt tag LengthDelimited) (\<lambda>_.
        dbind (decode_string rt) (\<lambda>v.
      dbind (register_element_memory rt (element_footprint_string rt v)) (\<lambda>_.
        dret (m\<lparr>TermInit_environmentnames := TermInit_environmentnames m @ [v]\<rparr>))))
      else if field_number tag = 2 then
        dbind (check_wire_type rt tag LengthDelimited) (\<lambda>_.
        dbind (decode_string rt) (\<lambda>v.
      dbind (register_element_memory rt (element_footprint_string rt v)) (\<lambda>_.
        dret (m\<lparr>TermInit_environmentvalues := TermInit_environmentvalues m @ [v]\<rparr>))))
      else dbind (decode_unknown_field rt tag) (\<lambda>u. dret (m\<lparr>TermInit_unknown_fields := TermInit_unknown_fields m @ [u]\<rparr>)))"

definition clear_TermInit :: "TermInit \<Rightarrow> TermInit" where
  "clear_TermInit m = m\<lparr>TermInit_environmentnames := [], TermInit_environmentvalues := [], TermInit_unknown_fields := []\<rparr>"

abbreviation "run_TermInit rt \<equiv> run_typed rt Msg_TermInit un_TermInit (merge_field_TermInit rt)"

definition decode_TermInit :: "buffa \<Rightarrow> bytes \<Rightarrow> DecodeError + TermInit" where
  "decode_TermInit rt bs = decode_typed rt Msg_TermInit un_TermInit (merge_field_TermInit rt) TermInit_default bs"

definition compute_size_TerminalUserInfo :: "buffa \<Rightarrow> TerminalUserInfo \<Rightarrow> nat" where
  "compute_size_TerminalUserInfo rt m = saturate_size rt
     ((case TerminalUserInfo_id m of None \<Rightarrow> 0 | Some v \<Rightarrow> 1 + string_encoded_len rt v) +
      (case TerminalUserInfo_passkey m of None \<Rightarrow> 0 | Some v \<Rightarrow> 1 + string_encoded_len rt v) +
      (case TerminalUserInfo_uid m of None \<Rightarrow> 0 | Some v \<Rightarrow> 1 + int64_encoded_len rt v) +
      (case TerminalUserInfo_gid m of None \<Rightarrow> 0 | Some v \<Rightarrow> 1 + int64_encoded_len rt v) +
      (case TerminalUserInfo_fd m of None \<Rightarrow> 0 | Some v \<Rightarrow> 1 + int64_encoded_len rt v) +
      unknown_encoded_len rt (TerminalUserInfo_unknown_fields m))"

definition write_to_TerminalUserInfo :: "buffa \<Rightarrow> TerminalUserInfo \<Rightarrow> bytes" where
  "write_to_TerminalUserInfo rt m =
     (case TerminalUserInfo_id m of None \<Rightarrow> [] | Some v \<Rightarrow> put_string_field rt 1 v) @
     (case TerminalUserInfo_passkey m of None \<Rightarrow> [] | Some v \<Rightarrow> put_string_field rt 2 v) @
     (case TerminalUserInfo_uid m of None \<Rightarrow> [] | Some v \<Rightarrow> put_int64_field rt 3 v) @
     (case TerminalUserInfo_gid m of None \<Rightarrow> [] | Some v \<Rightarrow> put_int64_field rt 4 v) @
     (case TerminalUserInfo_fd m of None \<Rightarrow> [] | Some v \<Rightarrow> put_int64_field rt 5 v) @
     unknown_write_to rt (TerminalUserInfo_unknown_fields m)"

definition merge_field_TerminalUserInfo :: "buffa \<Rightarrow> TerminalUserInfo \<Rightarrow> Tag \<Rightarrow> TerminalUserInfo dec" where
  "merge_field_TerminalUserInfo rt m tag =
     (if field_number tag = 1 then
        dbind (check_wire_type rt tag LengthDelimited) (\<lambda>_.
        dbind (merge_string rt (case TerminalUserInfo_id m of None \<Rightarrow> [] | Some s \<Rightarrow> s)) (\<lambda>v. dret (m\<lparr>TerminalUserInfo_id := Some v\<rparr>)))
      else if field_number tag = 2 then
        dbind (check_wire_type rt tag LengthDelimited) (\<lambda>_.
        dbind (merge_string rt (case TerminalUserInfo_passkey m of None \<Rightarrow> [] | Some s \<Rightarrow> s)) (\<lambda>v. dret (m\<lparr>TerminalUserInfo_passkey := Some v\<rparr>)))
      else if field_number tag = 3 then
        dbind (check_wire_type rt tag Varint) (\<lambda>_.
        dbind (decode_int64 rt) (\<lambda>v. dret (m\<lparr>TerminalUserInfo_uid := Some v\<rparr>)))
      else if field_number tag = 4 then
        dbind (check_wire_type rt tag Varint) (\<lambda>_.
        dbind (decode_int64 rt) (\<lambda>v. dret (m\<lparr>TerminalUserInfo_gid := Some v\<rparr>)))
      else if field_number tag = 5 then
        dbind (check_wire_type rt tag Varint) (\<lambda>_.
        dbind (decode_int64 rt) (\<lambda>v. dret (m\<lparr>TerminalUserInfo_fd := Some v\<rparr>)))
      else dbind (decode_unknown_field rt tag) (\<lambda>u. dret (m\<lparr>TerminalUserInfo_unknown_fields := TerminalUserInfo_unknown_fields m @ [u]\<rparr>)))"

definition clear_TerminalUserInfo :: "TerminalUserInfo \<Rightarrow> TerminalUserInfo" where
  "clear_TerminalUserInfo m = m\<lparr>TerminalUserInfo_id := None, TerminalUserInfo_passkey := None, TerminalUserInfo_uid := None, TerminalUserInfo_gid := None, TerminalUserInfo_fd := None, TerminalUserInfo_unknown_fields := []\<rparr>"

abbreviation "run_TerminalUserInfo rt \<equiv> run_typed rt Msg_TerminalUserInfo un_TerminalUserInfo (merge_field_TerminalUserInfo rt)"

definition decode_TerminalUserInfo :: "buffa \<Rightarrow> bytes \<Rightarrow> DecodeError + TerminalUserInfo" where
  "decode_TerminalUserInfo rt bs = decode_typed rt Msg_TerminalUserInfo un_TerminalUserInfo (merge_field_TerminalUserInfo rt) TerminalUserInfo_default bs"

section \<open>Well-formed messages and what decoding them costs\<close>

definition wf_ConnectRequest :: "buffa \<Rightarrow> ConnectRequest \<Rightarrow> bool" where
  "wf_ConnectRequest rt m \<longleftrightarrow>
     pred_option wire_text (ConnectRequest_clientId m) \<and>
     ConnectRequest_unknown_fields m = []"

definition wf_ConnectResponse :: "buffa \<Rightarrow> ConnectResponse \<Rightarrow> bool" where
  "wf_ConnectResponse rt m \<longleftrightarrow>
     pred_option wire_text (ConnectResponse_error m) \<and>
     ConnectResponse_unknown_fields m = []"

definition wf_SequenceHeader :: "buffa \<Rightarrow> SequenceHeader \<Rightarrow> bool" where
  "wf_SequenceHeader rt m \<longleftrightarrow>
     SequenceHeader_unknown_fields m = []"

definition wf_CatchupBuffer :: "buffa \<Rightarrow> CatchupBuffer \<Rightarrow> bool" where
  "wf_CatchupBuffer rt m \<longleftrightarrow>
     list_all wire_bytes (CatchupBuffer_buffer m) \<and>
     CatchupBuffer_unknown_fields m = []"

definition cost_CatchupBuffer :: "buffa \<Rightarrow> CatchupBuffer \<Rightarrow> nat" where
  "cost_CatchupBuffer rt m =
     sum_list (map (element_footprint_bytes rt) (CatchupBuffer_buffer m))"

definition wf_SocketEndpoint :: "buffa \<Rightarrow> SocketEndpoint \<Rightarrow> bool" where
  "wf_SocketEndpoint rt m \<longleftrightarrow>
     pred_option wire_text (SocketEndpoint_name m) \<and>
     SocketEndpoint_unknown_fields m = []"

definition wf_nested_SocketEndpoint :: "buffa \<Rightarrow> SocketEndpoint \<Rightarrow> bool" where
  "wf_nested_SocketEndpoint rt m \<longleftrightarrow> wf_SocketEndpoint rt m \<and> length (write_to_SocketEndpoint rt m) < 2 ^ 31"

definition wf_TerminalBuffer :: "buffa \<Rightarrow> TerminalBuffer \<Rightarrow> bool" where
  "wf_TerminalBuffer rt m \<longleftrightarrow>
     pred_option wire_bytes (TerminalBuffer_buffer m) \<and>
     TerminalBuffer_unknown_fields m = []"

definition wf_TerminalInfo :: "buffa \<Rightarrow> TerminalInfo \<Rightarrow> bool" where
  "wf_TerminalInfo rt m \<longleftrightarrow>
     pred_option wire_text (TerminalInfo_id m) \<and>
     TerminalInfo_unknown_fields m = []"

definition wf_PortForwardSourceRequest :: "buffa \<Rightarrow> PortForwardSourceRequest \<Rightarrow> bool" where
  "wf_PortForwardSourceRequest rt m \<longleftrightarrow>
     pred_option (wf_nested_SocketEndpoint rt) (PortForwardSourceRequest_source m) \<and>
     pred_option (wf_nested_SocketEndpoint rt) (PortForwardSourceRequest_destination m) \<and>
     pred_option wire_text (PortForwardSourceRequest_environmentvariable m) \<and>
     PortForwardSourceRequest_unknown_fields m = []"

definition wf_nested_PortForwardSourceRequest :: "buffa \<Rightarrow> PortForwardSourceRequest \<Rightarrow> bool" where
  "wf_nested_PortForwardSourceRequest rt m \<longleftrightarrow> wf_PortForwardSourceRequest rt m \<and> length (write_to_PortForwardSourceRequest rt m) < 2 ^ 31"

definition cost_PortForwardSourceRequest :: "PortForwardSourceRequest \<Rightarrow> nat" where
  "cost_PortForwardSourceRequest m =
     (case PortForwardSourceRequest_source m of None \<Rightarrow> 0 | Some v \<Rightarrow> 1) +
     (case PortForwardSourceRequest_destination m of None \<Rightarrow> 0 | Some v \<Rightarrow> 1)"

definition wf_PortForwardSourceResponse :: "buffa \<Rightarrow> PortForwardSourceResponse \<Rightarrow> bool" where
  "wf_PortForwardSourceResponse rt m \<longleftrightarrow>
     pred_option wire_text (PortForwardSourceResponse_error m) \<and>
     PortForwardSourceResponse_unknown_fields m = []"

definition wf_PortForwardDestinationRequest :: "buffa \<Rightarrow> PortForwardDestinationRequest \<Rightarrow> bool" where
  "wf_PortForwardDestinationRequest rt m \<longleftrightarrow>
     pred_option (wf_nested_SocketEndpoint rt) (PortForwardDestinationRequest_destination m) \<and>
     PortForwardDestinationRequest_unknown_fields m = []"

definition cost_PortForwardDestinationRequest :: "buffa \<Rightarrow> PortForwardDestinationRequest \<Rightarrow> nat" where
  "cost_PortForwardDestinationRequest rt m =
     (case PortForwardDestinationRequest_destination m of None \<Rightarrow> 0 | Some v \<Rightarrow> 1)"

definition wf_PortForwardDestinationResponse :: "buffa \<Rightarrow> PortForwardDestinationResponse \<Rightarrow> bool" where
  "wf_PortForwardDestinationResponse rt m \<longleftrightarrow>
     pred_option wire_text (PortForwardDestinationResponse_error m) \<and>
     PortForwardDestinationResponse_unknown_fields m = []"

definition wf_PortForwardData :: "buffa \<Rightarrow> PortForwardData \<Rightarrow> bool" where
  "wf_PortForwardData rt m \<longleftrightarrow>
     pred_option wire_bytes (PortForwardData_buffer m) \<and>
     pred_option wire_text (PortForwardData_error m) \<and>
     PortForwardData_unknown_fields m = []"

definition wf_InitialPayload :: "buffa \<Rightarrow> InitialPayload \<Rightarrow> bool" where
  "wf_InitialPayload rt m \<longleftrightarrow>
     list_all (wf_nested_PortForwardSourceRequest rt) (InitialPayload_reversetunnels m) \<and>
     finite (dom (InitialPayload_environmentvariables m)) \<and> (\<forall>k v. InitialPayload_environmentvariables m k = Some v \<longrightarrow> entry_ok (k, v)) \<and>
     InitialPayload_unknown_fields m = []"

definition cost_InitialPayload :: "buffa \<Rightarrow> InitialPayload \<Rightarrow> nat" where
  "cost_InitialPayload rt m =
     sum_list (map (\<lambda>v. element_footprint_source_request rt PortForwardSourceRequest_default +
        Suc (cost_PortForwardSourceRequest v)) (InitialPayload_reversetunnels m)) +
     (\<Sum>k\<in>dom (InitialPayload_environmentvariables m). map_entry_cost rt k (the (InitialPayload_environmentvariables m k)))"

definition wf_InitialResponse :: "buffa \<Rightarrow> InitialResponse \<Rightarrow> bool" where
  "wf_InitialResponse rt m \<longleftrightarrow>
     pred_option wire_text (InitialResponse_error m) \<and>
     InitialResponse_unknown_fields m = []"

definition wf_ConfigParams :: "buffa \<Rightarrow> ConfigParams \<Rightarrow> bool" where
  "wf_ConfigParams rt m \<longleftrightarrow>
     ConfigParams_unknown_fields m = []"

definition wf_TermInit :: "buffa \<Rightarrow> TermInit \<Rightarrow> bool" where
  "wf_TermInit rt m \<longleftrightarrow>
     list_all wire_text (TermInit_environmentnames m) \<and>
     list_all wire_text (TermInit_environmentvalues m) \<and>
     TermInit_unknown_fields m = []"

definition cost_TermInit :: "buffa \<Rightarrow> TermInit \<Rightarrow> nat" where
  "cost_TermInit rt m =
     sum_list (map (element_footprint_string rt) (TermInit_environmentnames m)) +
     sum_list (map (element_footprint_string rt) (TermInit_environmentvalues m))"

definition wf_TerminalUserInfo :: "buffa \<Rightarrow> TerminalUserInfo \<Rightarrow> bool" where
  "wf_TerminalUserInfo rt m \<longleftrightarrow>
     pred_option wire_text (TerminalUserInfo_id m) \<and>
     pred_option wire_text (TerminalUserInfo_passkey m) \<and>
     TerminalUserInfo_unknown_fields m = []"

section \<open>Fields\<close>

lemma run_ConnectRequest_clientId [codec_steps]:
  assumes "buffa_ok rt" and "ConnectRequest_clientId m = None" and "pred_option wire_text opt"
  shows "run_ConnectRequest rt m 
      \<lparr>remaining = (case opt of None \<Rightarrow> [] | Some v \<Rightarrow> put_string_field rt 1 v) @ rest, dctx = c\<rparr> =
    run_ConnectRequest rt (m\<lparr>ConnectRequest_clientId := opt\<rparr>) \<lparr>remaining = rest, dctx = c\<rparr>"
  by (rule run_opt [OF assms(1) puts_string [where old = "[]", OF assms(1)]])
    (use assms in \<open>auto simp: merge_field_ConnectRequest_def small_field_def dbind_def\<close>)

lemma run_ConnectRequest_version [codec_steps]:
  assumes "buffa_ok rt" and "ConnectRequest_version m = None"
  shows "run_ConnectRequest rt m 
      \<lparr>remaining = (case opt of None \<Rightarrow> [] | Some v \<Rightarrow> put_int32_field rt 2 v) @ rest, dctx = c\<rparr> =
    run_ConnectRequest rt (m\<lparr>ConnectRequest_version := opt\<rparr>) \<lparr>remaining = rest, dctx = c\<rparr>"
  by (rule run_opt [OF assms(1) puts_int32 [OF assms(1)]])
    (use assms in \<open>auto simp: merge_field_ConnectRequest_def small_field_def dbind_def\<close>)

lemma run_ConnectResponse_status [codec_steps]:
  assumes "buffa_ok rt" and "ConnectResponse_status m = None"
  shows "run_ConnectResponse rt m 
      \<lparr>remaining = (case opt of None \<Rightarrow> [] | Some v \<Rightarrow> put_int32_field rt 1 (ConnectStatus_to_i32 v)) @ rest, dctx = c\<rparr> =
    run_ConnectResponse rt (m\<lparr>ConnectResponse_status := opt\<rparr>) \<lparr>remaining = rest, dctx = c\<rparr>"
  by (rule run_opt [OF assms(1) puts_int32 [OF assms(1)]])
    (use assms in \<open>auto simp: merge_field_ConnectResponse_def small_field_def dbind_def\<close>)

lemma run_ConnectResponse_error [codec_steps]:
  assumes "buffa_ok rt" and "ConnectResponse_error m = None" and "pred_option wire_text opt"
  shows "run_ConnectResponse rt m 
      \<lparr>remaining = (case opt of None \<Rightarrow> [] | Some v \<Rightarrow> put_string_field rt 2 v) @ rest, dctx = c\<rparr> =
    run_ConnectResponse rt (m\<lparr>ConnectResponse_error := opt\<rparr>) \<lparr>remaining = rest, dctx = c\<rparr>"
  by (rule run_opt [OF assms(1) puts_string [where old = "[]", OF assms(1)]])
    (use assms in \<open>auto simp: merge_field_ConnectResponse_def small_field_def dbind_def\<close>)

lemma run_SequenceHeader_sequenceNumber [codec_steps]:
  assumes "buffa_ok rt" and "SequenceHeader_sequenceNumber m = None"
  shows "run_SequenceHeader rt m 
      \<lparr>remaining = (case opt of None \<Rightarrow> [] | Some v \<Rightarrow> put_int32_field rt 1 v) @ rest, dctx = c\<rparr> =
    run_SequenceHeader rt (m\<lparr>SequenceHeader_sequenceNumber := opt\<rparr>) \<lparr>remaining = rest, dctx = c\<rparr>"
  by (rule run_opt [OF assms(1) puts_int32 [OF assms(1)]])
    (use assms in \<open>auto simp: merge_field_SequenceHeader_def small_field_def dbind_def\<close>)

lemma run_SocketEndpoint_name [codec_steps]:
  assumes "buffa_ok rt" and "SocketEndpoint_name m = None" and "pred_option wire_text opt"
  shows "run_SocketEndpoint rt m 
      \<lparr>remaining = (case opt of None \<Rightarrow> [] | Some v \<Rightarrow> put_string_field rt 1 v) @ rest, dctx = c\<rparr> =
    run_SocketEndpoint rt (m\<lparr>SocketEndpoint_name := opt\<rparr>) \<lparr>remaining = rest, dctx = c\<rparr>"
  by (rule run_opt [OF assms(1) puts_string [where old = "[]", OF assms(1)]])
    (use assms in \<open>auto simp: merge_field_SocketEndpoint_def small_field_def dbind_def\<close>)

lemma run_SocketEndpoint_port [codec_steps]:
  assumes "buffa_ok rt" and "SocketEndpoint_port m = None"
  shows "run_SocketEndpoint rt m 
      \<lparr>remaining = (case opt of None \<Rightarrow> [] | Some v \<Rightarrow> put_int32_field rt 2 v) @ rest, dctx = c\<rparr> =
    run_SocketEndpoint rt (m\<lparr>SocketEndpoint_port := opt\<rparr>) \<lparr>remaining = rest, dctx = c\<rparr>"
  by (rule run_opt [OF assms(1) puts_int32 [OF assms(1)]])
    (use assms in \<open>auto simp: merge_field_SocketEndpoint_def small_field_def dbind_def\<close>)

lemma run_TerminalBuffer_buffer [codec_steps]:
  assumes "buffa_ok rt" and "TerminalBuffer_buffer m = None" and "pred_option wire_bytes opt"
  shows "run_TerminalBuffer rt m 
      \<lparr>remaining = (case opt of None \<Rightarrow> [] | Some v \<Rightarrow> put_shared_bytes_field rt 1 v) @ rest, dctx = c\<rparr> =
    run_TerminalBuffer rt (m\<lparr>TerminalBuffer_buffer := opt\<rparr>) \<lparr>remaining = rest, dctx = c\<rparr>"
  by (rule run_opt [OF assms(1) puts_bytes [where oldb = "[]", OF assms(1)]])
    (use assms in \<open>auto simp: merge_field_TerminalBuffer_def small_field_def dbind_def\<close>)

lemma run_TerminalInfo_id [codec_steps]:
  assumes "buffa_ok rt" and "TerminalInfo_id m = None" and "pred_option wire_text opt"
  shows "run_TerminalInfo rt m 
      \<lparr>remaining = (case opt of None \<Rightarrow> [] | Some v \<Rightarrow> put_string_field rt 1 v) @ rest, dctx = c\<rparr> =
    run_TerminalInfo rt (m\<lparr>TerminalInfo_id := opt\<rparr>) \<lparr>remaining = rest, dctx = c\<rparr>"
  by (rule run_opt [OF assms(1) puts_string [where old = "[]", OF assms(1)]])
    (use assms in \<open>auto simp: merge_field_TerminalInfo_def small_field_def dbind_def\<close>)

lemma run_TerminalInfo_row [codec_steps]:
  assumes "buffa_ok rt" and "TerminalInfo_row m = None"
  shows "run_TerminalInfo rt m 
      \<lparr>remaining = (case opt of None \<Rightarrow> [] | Some v \<Rightarrow> put_int32_field rt 2 v) @ rest, dctx = c\<rparr> =
    run_TerminalInfo rt (m\<lparr>TerminalInfo_row := opt\<rparr>) \<lparr>remaining = rest, dctx = c\<rparr>"
  by (rule run_opt [OF assms(1) puts_int32 [OF assms(1)]])
    (use assms in \<open>auto simp: merge_field_TerminalInfo_def small_field_def dbind_def\<close>)

lemma run_TerminalInfo_column [codec_steps]:
  assumes "buffa_ok rt" and "TerminalInfo_column m = None"
  shows "run_TerminalInfo rt m 
      \<lparr>remaining = (case opt of None \<Rightarrow> [] | Some v \<Rightarrow> put_int32_field rt 3 v) @ rest, dctx = c\<rparr> =
    run_TerminalInfo rt (m\<lparr>TerminalInfo_column := opt\<rparr>) \<lparr>remaining = rest, dctx = c\<rparr>"
  by (rule run_opt [OF assms(1) puts_int32 [OF assms(1)]])
    (use assms in \<open>auto simp: merge_field_TerminalInfo_def small_field_def dbind_def\<close>)

lemma run_TerminalInfo_width [codec_steps]:
  assumes "buffa_ok rt" and "TerminalInfo_width m = None"
  shows "run_TerminalInfo rt m 
      \<lparr>remaining = (case opt of None \<Rightarrow> [] | Some v \<Rightarrow> put_int32_field rt 4 v) @ rest, dctx = c\<rparr> =
    run_TerminalInfo rt (m\<lparr>TerminalInfo_width := opt\<rparr>) \<lparr>remaining = rest, dctx = c\<rparr>"
  by (rule run_opt [OF assms(1) puts_int32 [OF assms(1)]])
    (use assms in \<open>auto simp: merge_field_TerminalInfo_def small_field_def dbind_def\<close>)

lemma run_TerminalInfo_height [codec_steps]:
  assumes "buffa_ok rt" and "TerminalInfo_height m = None"
  shows "run_TerminalInfo rt m 
      \<lparr>remaining = (case opt of None \<Rightarrow> [] | Some v \<Rightarrow> put_int32_field rt 5 v) @ rest, dctx = c\<rparr> =
    run_TerminalInfo rt (m\<lparr>TerminalInfo_height := opt\<rparr>) \<lparr>remaining = rest, dctx = c\<rparr>"
  by (rule run_opt [OF assms(1) puts_int32 [OF assms(1)]])
    (use assms in \<open>auto simp: merge_field_TerminalInfo_def small_field_def dbind_def\<close>)

lemma run_PortForwardSourceRequest_environmentvariable [codec_steps]:
  assumes "buffa_ok rt" and "PortForwardSourceRequest_environmentvariable m = None" and "pred_option wire_text opt"
  shows "run_PortForwardSourceRequest rt m 
      \<lparr>remaining = (case opt of None \<Rightarrow> [] | Some v \<Rightarrow> put_string_field rt 3 v) @ rest, dctx = c\<rparr> =
    run_PortForwardSourceRequest rt (m\<lparr>PortForwardSourceRequest_environmentvariable := opt\<rparr>) \<lparr>remaining = rest, dctx = c\<rparr>"
  by (rule run_opt [OF assms(1) puts_string [where old = "[]", OF assms(1)]])
    (use assms in \<open>auto simp: merge_field_PortForwardSourceRequest_def small_field_def dbind_def\<close>)

lemma run_PortForwardSourceResponse_error [codec_steps]:
  assumes "buffa_ok rt" and "PortForwardSourceResponse_error m = None" and "pred_option wire_text opt"
  shows "run_PortForwardSourceResponse rt m 
      \<lparr>remaining = (case opt of None \<Rightarrow> [] | Some v \<Rightarrow> put_string_field rt 1 v) @ rest, dctx = c\<rparr> =
    run_PortForwardSourceResponse rt (m\<lparr>PortForwardSourceResponse_error := opt\<rparr>) \<lparr>remaining = rest, dctx = c\<rparr>"
  by (rule run_opt [OF assms(1) puts_string [where old = "[]", OF assms(1)]])
    (use assms in \<open>auto simp: merge_field_PortForwardSourceResponse_def small_field_def dbind_def\<close>)

lemma run_PortForwardDestinationRequest_fd [codec_steps]:
  assumes "buffa_ok rt" and "PortForwardDestinationRequest_fd m = None"
  shows "run_PortForwardDestinationRequest rt m 
      \<lparr>remaining = (case opt of None \<Rightarrow> [] | Some v \<Rightarrow> put_int32_field rt 2 v) @ rest, dctx = c\<rparr> =
    run_PortForwardDestinationRequest rt (m\<lparr>PortForwardDestinationRequest_fd := opt\<rparr>) \<lparr>remaining = rest, dctx = c\<rparr>"
  by (rule run_opt [OF assms(1) puts_int32 [OF assms(1)]])
    (use assms in \<open>auto simp: merge_field_PortForwardDestinationRequest_def small_field_def dbind_def\<close>)

lemma run_PortForwardDestinationResponse_clientfd [codec_steps]:
  assumes "buffa_ok rt" and "PortForwardDestinationResponse_clientfd m = None"
  shows "run_PortForwardDestinationResponse rt m 
      \<lparr>remaining = (case opt of None \<Rightarrow> [] | Some v \<Rightarrow> put_int32_field rt 1 v) @ rest, dctx = c\<rparr> =
    run_PortForwardDestinationResponse rt (m\<lparr>PortForwardDestinationResponse_clientfd := opt\<rparr>) \<lparr>remaining = rest, dctx = c\<rparr>"
  by (rule run_opt [OF assms(1) puts_int32 [OF assms(1)]])
    (use assms in \<open>auto simp: merge_field_PortForwardDestinationResponse_def small_field_def dbind_def\<close>)

lemma run_PortForwardDestinationResponse_socketid [codec_steps]:
  assumes "buffa_ok rt" and "PortForwardDestinationResponse_socketid m = None"
  shows "run_PortForwardDestinationResponse rt m 
      \<lparr>remaining = (case opt of None \<Rightarrow> [] | Some v \<Rightarrow> put_int32_field rt 2 v) @ rest, dctx = c\<rparr> =
    run_PortForwardDestinationResponse rt (m\<lparr>PortForwardDestinationResponse_socketid := opt\<rparr>) \<lparr>remaining = rest, dctx = c\<rparr>"
  by (rule run_opt [OF assms(1) puts_int32 [OF assms(1)]])
    (use assms in \<open>auto simp: merge_field_PortForwardDestinationResponse_def small_field_def dbind_def\<close>)

lemma run_PortForwardDestinationResponse_error [codec_steps]:
  assumes "buffa_ok rt" and "PortForwardDestinationResponse_error m = None" and "pred_option wire_text opt"
  shows "run_PortForwardDestinationResponse rt m 
      \<lparr>remaining = (case opt of None \<Rightarrow> [] | Some v \<Rightarrow> put_string_field rt 3 v) @ rest, dctx = c\<rparr> =
    run_PortForwardDestinationResponse rt (m\<lparr>PortForwardDestinationResponse_error := opt\<rparr>) \<lparr>remaining = rest, dctx = c\<rparr>"
  by (rule run_opt [OF assms(1) puts_string [where old = "[]", OF assms(1)]])
    (use assms in \<open>auto simp: merge_field_PortForwardDestinationResponse_def small_field_def dbind_def\<close>)

lemma run_PortForwardData_sourcetodestination [codec_steps]:
  assumes "buffa_ok rt" and "PortForwardData_sourcetodestination m = None"
  shows "run_PortForwardData rt m 
      \<lparr>remaining = (case opt of None \<Rightarrow> [] | Some v \<Rightarrow> put_bool_field rt 1 v) @ rest, dctx = c\<rparr> =
    run_PortForwardData rt (m\<lparr>PortForwardData_sourcetodestination := opt\<rparr>) \<lparr>remaining = rest, dctx = c\<rparr>"
  by (rule run_opt [OF assms(1) puts_bool [OF assms(1)]])
    (use assms in \<open>auto simp: merge_field_PortForwardData_def small_field_def dbind_def\<close>)

lemma run_PortForwardData_socketid [codec_steps]:
  assumes "buffa_ok rt" and "PortForwardData_socketid m = None"
  shows "run_PortForwardData rt m 
      \<lparr>remaining = (case opt of None \<Rightarrow> [] | Some v \<Rightarrow> put_int32_field rt 2 v) @ rest, dctx = c\<rparr> =
    run_PortForwardData rt (m\<lparr>PortForwardData_socketid := opt\<rparr>) \<lparr>remaining = rest, dctx = c\<rparr>"
  by (rule run_opt [OF assms(1) puts_int32 [OF assms(1)]])
    (use assms in \<open>auto simp: merge_field_PortForwardData_def small_field_def dbind_def\<close>)

lemma run_PortForwardData_buffer [codec_steps]:
  assumes "buffa_ok rt" and "PortForwardData_buffer m = None" and "pred_option wire_bytes opt"
  shows "run_PortForwardData rt m 
      \<lparr>remaining = (case opt of None \<Rightarrow> [] | Some v \<Rightarrow> put_shared_bytes_field rt 3 v) @ rest, dctx = c\<rparr> =
    run_PortForwardData rt (m\<lparr>PortForwardData_buffer := opt\<rparr>) \<lparr>remaining = rest, dctx = c\<rparr>"
  by (rule run_opt [OF assms(1) puts_bytes [where oldb = "[]", OF assms(1)]])
    (use assms in \<open>auto simp: merge_field_PortForwardData_def small_field_def dbind_def\<close>)

lemma run_PortForwardData_error [codec_steps]:
  assumes "buffa_ok rt" and "PortForwardData_error m = None" and "pred_option wire_text opt"
  shows "run_PortForwardData rt m 
      \<lparr>remaining = (case opt of None \<Rightarrow> [] | Some v \<Rightarrow> put_string_field rt 4 v) @ rest, dctx = c\<rparr> =
    run_PortForwardData rt (m\<lparr>PortForwardData_error := opt\<rparr>) \<lparr>remaining = rest, dctx = c\<rparr>"
  by (rule run_opt [OF assms(1) puts_string [where old = "[]", OF assms(1)]])
    (use assms in \<open>auto simp: merge_field_PortForwardData_def small_field_def dbind_def\<close>)

lemma run_PortForwardData_closed [codec_steps]:
  assumes "buffa_ok rt" and "PortForwardData_closed m = None"
  shows "run_PortForwardData rt m 
      \<lparr>remaining = (case opt of None \<Rightarrow> [] | Some v \<Rightarrow> put_bool_field rt 5 v) @ rest, dctx = c\<rparr> =
    run_PortForwardData rt (m\<lparr>PortForwardData_closed := opt\<rparr>) \<lparr>remaining = rest, dctx = c\<rparr>"
  by (rule run_opt [OF assms(1) puts_bool [OF assms(1)]])
    (use assms in \<open>auto simp: merge_field_PortForwardData_def small_field_def dbind_def\<close>)

lemma run_InitialPayload_jumphost [codec_steps]:
  assumes "buffa_ok rt" and "InitialPayload_jumphost m = None"
  shows "run_InitialPayload rt m 
      \<lparr>remaining = (case opt of None \<Rightarrow> [] | Some v \<Rightarrow> put_bool_field rt 1 v) @ rest, dctx = c\<rparr> =
    run_InitialPayload rt (m\<lparr>InitialPayload_jumphost := opt\<rparr>) \<lparr>remaining = rest, dctx = c\<rparr>"
  by (rule run_opt [OF assms(1) puts_bool [OF assms(1)]])
    (use assms in \<open>auto simp: merge_field_InitialPayload_def small_field_def dbind_def\<close>)

lemma run_InitialResponse_error [codec_steps]:
  assumes "buffa_ok rt" and "InitialResponse_error m = None" and "pred_option wire_text opt"
  shows "run_InitialResponse rt m 
      \<lparr>remaining = (case opt of None \<Rightarrow> [] | Some v \<Rightarrow> put_string_field rt 1 v) @ rest, dctx = c\<rparr> =
    run_InitialResponse rt (m\<lparr>InitialResponse_error := opt\<rparr>) \<lparr>remaining = rest, dctx = c\<rparr>"
  by (rule run_opt [OF assms(1) puts_string [where old = "[]", OF assms(1)]])
    (use assms in \<open>auto simp: merge_field_InitialResponse_def small_field_def dbind_def\<close>)

lemma run_ConfigParams_vlevel [codec_steps]:
  assumes "buffa_ok rt" and "ConfigParams_vlevel m = None"
  shows "run_ConfigParams rt m 
      \<lparr>remaining = (case opt of None \<Rightarrow> [] | Some v \<Rightarrow> put_int32_field rt 1 v) @ rest, dctx = c\<rparr> =
    run_ConfigParams rt (m\<lparr>ConfigParams_vlevel := opt\<rparr>) \<lparr>remaining = rest, dctx = c\<rparr>"
  by (rule run_opt [OF assms(1) puts_int32 [OF assms(1)]])
    (use assms in \<open>auto simp: merge_field_ConfigParams_def small_field_def dbind_def\<close>)

lemma run_ConfigParams_minloglevel [codec_steps]:
  assumes "buffa_ok rt" and "ConfigParams_minloglevel m = None"
  shows "run_ConfigParams rt m 
      \<lparr>remaining = (case opt of None \<Rightarrow> [] | Some v \<Rightarrow> put_int32_field rt 2 v) @ rest, dctx = c\<rparr> =
    run_ConfigParams rt (m\<lparr>ConfigParams_minloglevel := opt\<rparr>) \<lparr>remaining = rest, dctx = c\<rparr>"
  by (rule run_opt [OF assms(1) puts_int32 [OF assms(1)]])
    (use assms in \<open>auto simp: merge_field_ConfigParams_def small_field_def dbind_def\<close>)

lemma run_TerminalUserInfo_id [codec_steps]:
  assumes "buffa_ok rt" and "TerminalUserInfo_id m = None" and "pred_option wire_text opt"
  shows "run_TerminalUserInfo rt m 
      \<lparr>remaining = (case opt of None \<Rightarrow> [] | Some v \<Rightarrow> put_string_field rt 1 v) @ rest, dctx = c\<rparr> =
    run_TerminalUserInfo rt (m\<lparr>TerminalUserInfo_id := opt\<rparr>) \<lparr>remaining = rest, dctx = c\<rparr>"
  by (rule run_opt [OF assms(1) puts_string [where old = "[]", OF assms(1)]])
    (use assms in \<open>auto simp: merge_field_TerminalUserInfo_def small_field_def dbind_def\<close>)

lemma run_TerminalUserInfo_passkey [codec_steps]:
  assumes "buffa_ok rt" and "TerminalUserInfo_passkey m = None" and "pred_option wire_text opt"
  shows "run_TerminalUserInfo rt m 
      \<lparr>remaining = (case opt of None \<Rightarrow> [] | Some v \<Rightarrow> put_string_field rt 2 v) @ rest, dctx = c\<rparr> =
    run_TerminalUserInfo rt (m\<lparr>TerminalUserInfo_passkey := opt\<rparr>) \<lparr>remaining = rest, dctx = c\<rparr>"
  by (rule run_opt [OF assms(1) puts_string [where old = "[]", OF assms(1)]])
    (use assms in \<open>auto simp: merge_field_TerminalUserInfo_def small_field_def dbind_def\<close>)

lemma run_TerminalUserInfo_uid [codec_steps]:
  assumes "buffa_ok rt" and "TerminalUserInfo_uid m = None"
  shows "run_TerminalUserInfo rt m 
      \<lparr>remaining = (case opt of None \<Rightarrow> [] | Some v \<Rightarrow> put_int64_field rt 3 v) @ rest, dctx = c\<rparr> =
    run_TerminalUserInfo rt (m\<lparr>TerminalUserInfo_uid := opt\<rparr>) \<lparr>remaining = rest, dctx = c\<rparr>"
  by (rule run_opt [OF assms(1) puts_int64 [OF assms(1)]])
    (use assms in \<open>auto simp: merge_field_TerminalUserInfo_def small_field_def dbind_def\<close>)

lemma run_TerminalUserInfo_gid [codec_steps]:
  assumes "buffa_ok rt" and "TerminalUserInfo_gid m = None"
  shows "run_TerminalUserInfo rt m 
      \<lparr>remaining = (case opt of None \<Rightarrow> [] | Some v \<Rightarrow> put_int64_field rt 4 v) @ rest, dctx = c\<rparr> =
    run_TerminalUserInfo rt (m\<lparr>TerminalUserInfo_gid := opt\<rparr>) \<lparr>remaining = rest, dctx = c\<rparr>"
  by (rule run_opt [OF assms(1) puts_int64 [OF assms(1)]])
    (use assms in \<open>auto simp: merge_field_TerminalUserInfo_def small_field_def dbind_def\<close>)

lemma run_TerminalUserInfo_fd [codec_steps]:
  assumes "buffa_ok rt" and "TerminalUserInfo_fd m = None"
  shows "run_TerminalUserInfo rt m 
      \<lparr>remaining = (case opt of None \<Rightarrow> [] | Some v \<Rightarrow> put_int64_field rt 5 v) @ rest, dctx = c\<rparr> =
    run_TerminalUserInfo rt (m\<lparr>TerminalUserInfo_fd := opt\<rparr>) \<lparr>remaining = rest, dctx = c\<rparr>"
  by (rule run_opt [OF assms(1) puts_int64 [OF assms(1)]])
    (use assms in \<open>auto simp: merge_field_TerminalUserInfo_def small_field_def dbind_def\<close>)

lemmas codec_last = codec_steps [where rest = "[]", unfolded append_Nil2]

section \<open>Sizes\<close>

lemma compute_size_ConnectRequest:
  assumes "buffa_ok rt" and "length (write_to_ConnectRequest rt m) < 2 ^ 32"
  shows "compute_size_ConnectRequest rt m = length (write_to_ConnectRequest rt m)"
  using assms
  by (auto simp: compute_size_ConnectRequest_def write_to_ConnectRequest_def size_steps small_field_def length_concat o_def Let_def split: option.splits)

lemma compute_size_ConnectResponse:
  assumes "buffa_ok rt" and "length (write_to_ConnectResponse rt m) < 2 ^ 32"
  shows "compute_size_ConnectResponse rt m = length (write_to_ConnectResponse rt m)"
  using assms
  by (auto simp: compute_size_ConnectResponse_def write_to_ConnectResponse_def size_steps small_field_def length_concat o_def Let_def split: option.splits)

lemma compute_size_SequenceHeader:
  assumes "buffa_ok rt" and "length (write_to_SequenceHeader rt m) < 2 ^ 32"
  shows "compute_size_SequenceHeader rt m = length (write_to_SequenceHeader rt m)"
  using assms
  by (auto simp: compute_size_SequenceHeader_def write_to_SequenceHeader_def size_steps small_field_def length_concat o_def Let_def split: option.splits)

lemma compute_size_CatchupBuffer:
  assumes "buffa_ok rt" and "length (write_to_CatchupBuffer rt m) < 2 ^ 32"
  shows "compute_size_CatchupBuffer rt m = length (write_to_CatchupBuffer rt m)"
  using assms
  by (auto simp: compute_size_CatchupBuffer_def write_to_CatchupBuffer_def size_steps small_field_def length_concat o_def Let_def split: option.splits)

lemma compute_size_SocketEndpoint:
  assumes "buffa_ok rt" and "length (write_to_SocketEndpoint rt m) < 2 ^ 32"
  shows "compute_size_SocketEndpoint rt m = length (write_to_SocketEndpoint rt m)"
  using assms
  by (auto simp: compute_size_SocketEndpoint_def write_to_SocketEndpoint_def size_steps small_field_def length_concat o_def Let_def split: option.splits)

lemma compute_size_TerminalBuffer:
  assumes "buffa_ok rt" and "length (write_to_TerminalBuffer rt m) < 2 ^ 32"
  shows "compute_size_TerminalBuffer rt m = length (write_to_TerminalBuffer rt m)"
  using assms
  by (auto simp: compute_size_TerminalBuffer_def write_to_TerminalBuffer_def size_steps small_field_def length_concat o_def Let_def split: option.splits)

lemma compute_size_TerminalInfo:
  assumes "buffa_ok rt" and "length (write_to_TerminalInfo rt m) < 2 ^ 32"
  shows "compute_size_TerminalInfo rt m = length (write_to_TerminalInfo rt m)"
  using assms
  by (auto simp: compute_size_TerminalInfo_def write_to_TerminalInfo_def size_steps small_field_def length_concat o_def Let_def split: option.splits)

lemma compute_size_PortForwardSourceResponse:
  assumes "buffa_ok rt" and "length (write_to_PortForwardSourceResponse rt m) < 2 ^ 32"
  shows "compute_size_PortForwardSourceResponse rt m = length (write_to_PortForwardSourceResponse rt m)"
  using assms
  by (auto simp: compute_size_PortForwardSourceResponse_def write_to_PortForwardSourceResponse_def size_steps small_field_def length_concat o_def Let_def split: option.splits)

lemma compute_size_PortForwardDestinationResponse:
  assumes "buffa_ok rt" and "length (write_to_PortForwardDestinationResponse rt m) < 2 ^ 32"
  shows "compute_size_PortForwardDestinationResponse rt m = length (write_to_PortForwardDestinationResponse rt m)"
  using assms
  by (auto simp: compute_size_PortForwardDestinationResponse_def write_to_PortForwardDestinationResponse_def size_steps small_field_def length_concat o_def Let_def split: option.splits)

lemma compute_size_PortForwardData:
  assumes "buffa_ok rt" and "length (write_to_PortForwardData rt m) < 2 ^ 32"
  shows "compute_size_PortForwardData rt m = length (write_to_PortForwardData rt m)"
  using assms
  by (auto simp: compute_size_PortForwardData_def write_to_PortForwardData_def size_steps small_field_def length_concat o_def Let_def split: option.splits)

lemma compute_size_InitialResponse:
  assumes "buffa_ok rt" and "length (write_to_InitialResponse rt m) < 2 ^ 32"
  shows "compute_size_InitialResponse rt m = length (write_to_InitialResponse rt m)"
  using assms
  by (auto simp: compute_size_InitialResponse_def write_to_InitialResponse_def size_steps small_field_def length_concat o_def Let_def split: option.splits)

lemma compute_size_ConfigParams:
  assumes "buffa_ok rt" and "length (write_to_ConfigParams rt m) < 2 ^ 32"
  shows "compute_size_ConfigParams rt m = length (write_to_ConfigParams rt m)"
  using assms
  by (auto simp: compute_size_ConfigParams_def write_to_ConfigParams_def size_steps small_field_def length_concat o_def Let_def split: option.splits)

lemma compute_size_TermInit:
  assumes "buffa_ok rt" and "length (write_to_TermInit rt m) < 2 ^ 32"
  shows "compute_size_TermInit rt m = length (write_to_TermInit rt m)"
  using assms
  by (auto simp: compute_size_TermInit_def write_to_TermInit_def size_steps small_field_def length_concat o_def Let_def split: option.splits)

lemma compute_size_TerminalUserInfo:
  assumes "buffa_ok rt" and "length (write_to_TerminalUserInfo rt m) < 2 ^ 32"
  shows "compute_size_TerminalUserInfo rt m = length (write_to_TerminalUserInfo rt m)"
  using assms
  by (auto simp: compute_size_TerminalUserInfo_def write_to_TerminalUserInfo_def size_steps small_field_def length_concat o_def Let_def split: option.splits)

lemma compute_size_PortForwardDestinationRequest:
  assumes rt: "buffa_ok rt" and len: "length (write_to_PortForwardDestinationRequest rt m) < 2 ^ 32"
  shows "compute_size_PortForwardDestinationRequest rt m = length (write_to_PortForwardDestinationRequest rt m)"
proof -
  have inner: "compute_size_SocketEndpoint rt v = length (write_to_SocketEndpoint rt v)"
    if "PortForwardDestinationRequest_destination m = Some v" for v
    using that len by (intro compute_size_SocketEndpoint [OF rt])
      (simp add: write_to_PortForwardDestinationRequest_def)
  show ?thesis
    using len by (cases "PortForwardDestinationRequest_destination m")
      (auto simp: compute_size_PortForwardDestinationRequest_def write_to_PortForwardDestinationRequest_def
        size_steps [OF rt] small_field_def Let_def inner split: option.splits)
qed

lemma compute_size_PortForwardSourceRequest:
  assumes rt: "buffa_ok rt" and len: "length (write_to_PortForwardSourceRequest rt m) < 2 ^ 32"
  shows "compute_size_PortForwardSourceRequest rt m = length (write_to_PortForwardSourceRequest rt m)"
proof -
  have inner: "compute_size_SocketEndpoint rt v = length (write_to_SocketEndpoint rt v)"
    if "PortForwardSourceRequest_source m = Some v \<or> PortForwardSourceRequest_destination m = Some v" for v
    using that len by (intro compute_size_SocketEndpoint [OF rt])
      (auto simp: write_to_PortForwardSourceRequest_def)
  show ?thesis
    using len by (cases "PortForwardSourceRequest_source m"; cases "PortForwardSourceRequest_destination m")
      (auto simp: compute_size_PortForwardSourceRequest_def write_to_PortForwardSourceRequest_def
        size_steps [OF rt] small_field_def Let_def inner split: option.splits)
qed

lemma compute_size_InitialPayload:
  assumes rt: "buffa_ok rt" and len: "length (write_to_InitialPayload rt m) < 2 ^ 32"
    and fin: "finite (dom (InitialPayload_environmentvariables m))"
  shows "compute_size_InitialPayload rt m = length (write_to_InitialPayload rt m)"
proof -
  let ?w = "\<lambda>v. length (write_to_PortForwardSourceRequest rt v)"
  have inner: "compute_size_PortForwardSourceRequest rt v = ?w v"
    if v: "v \<in> set (InitialPayload_reversetunnels m)" for v
  proof (intro compute_size_PortForwardSourceRequest [OF rt])
    have "?w v \<le> sum_list (map ?w (InitialPayload_reversetunnels m))"
      using v by (intro member_le_sum_list) auto
    also have "\<dots> < 2 ^ 32"
      using len by (simp add: write_to_InitialPayload_def length_concat o_def sum_list_addf)
    finally show "?w v < 2 ^ 32" .
  qed
  have "(\<Sum>v\<leftarrow>InitialPayload_reversetunnels m.
        Suc (varint_len rt (compute_size_PortForwardSourceRequest rt v) + compute_size_PortForwardSourceRequest rt v)) =
      (\<Sum>v\<leftarrow>InitialPayload_reversetunnels m.
        Suc (varint_len rt (compute_size_PortForwardSourceRequest rt v) + ?w v))"
    using inner by (intro arg_cong [where f = sum_list] map_cong) simp_all
  with len fin show ?thesis
    by (auto simp: compute_size_InitialPayload_def write_to_InitialPayload_def size_steps [OF rt]
        small_field_def length_concat o_def Let_def split: option.splits)
qed

section \<open>Messages\<close>

lemma decode_loop_ConnectRequest:
  assumes "buffa_ok rt" and "wf_ConnectRequest rt m"
  shows "run_ConnectRequest rt ConnectRequest_default \<lparr>remaining = write_to_ConnectRequest rt m, dctx = c\<rparr> =
    Ok (m, \<lparr>remaining = [], dctx = c\<rparr>)"
  using assms by (cases m) (simp add: write_to_ConnectRequest_def wf_ConnectRequest_def ConnectRequest_default_def
      codec_steps codec_last run_typed_Nil)

lemma decode_loop_ConnectResponse:
  assumes "buffa_ok rt" and "wf_ConnectResponse rt m"
  shows "run_ConnectResponse rt ConnectResponse_default \<lparr>remaining = write_to_ConnectResponse rt m, dctx = c\<rparr> =
    Ok (m, \<lparr>remaining = [], dctx = c\<rparr>)"
  using assms by (cases m) (simp add: write_to_ConnectResponse_def wf_ConnectResponse_def ConnectResponse_default_def
      codec_steps codec_last run_typed_Nil)

lemma decode_loop_SequenceHeader:
  assumes "buffa_ok rt" and "wf_SequenceHeader rt m"
  shows "run_SequenceHeader rt SequenceHeader_default \<lparr>remaining = write_to_SequenceHeader rt m, dctx = c\<rparr> =
    Ok (m, \<lparr>remaining = [], dctx = c\<rparr>)"
  using assms by (cases m) (simp add: write_to_SequenceHeader_def wf_SequenceHeader_def SequenceHeader_default_def
      codec_steps codec_last run_typed_Nil)

lemma decode_loop_SocketEndpoint:
  assumes "buffa_ok rt" and "wf_SocketEndpoint rt m"
  shows "run_SocketEndpoint rt SocketEndpoint_default \<lparr>remaining = write_to_SocketEndpoint rt m, dctx = c\<rparr> =
    Ok (m, \<lparr>remaining = [], dctx = c\<rparr>)"
  using assms by (cases m) (simp add: write_to_SocketEndpoint_def wf_SocketEndpoint_def SocketEndpoint_default_def
      codec_steps codec_last run_typed_Nil)

lemma decode_loop_TerminalBuffer:
  assumes "buffa_ok rt" and "wf_TerminalBuffer rt m"
  shows "run_TerminalBuffer rt TerminalBuffer_default \<lparr>remaining = write_to_TerminalBuffer rt m, dctx = c\<rparr> =
    Ok (m, \<lparr>remaining = [], dctx = c\<rparr>)"
  using assms by (cases m) (simp add: write_to_TerminalBuffer_def wf_TerminalBuffer_def TerminalBuffer_default_def
      codec_steps codec_last run_typed_Nil)

lemma decode_loop_TerminalInfo:
  assumes "buffa_ok rt" and "wf_TerminalInfo rt m"
  shows "run_TerminalInfo rt TerminalInfo_default \<lparr>remaining = write_to_TerminalInfo rt m, dctx = c\<rparr> =
    Ok (m, \<lparr>remaining = [], dctx = c\<rparr>)"
  using assms by (cases m) (simp add: write_to_TerminalInfo_def wf_TerminalInfo_def TerminalInfo_default_def
      codec_steps codec_last run_typed_Nil)

lemma decode_loop_PortForwardSourceResponse:
  assumes "buffa_ok rt" and "wf_PortForwardSourceResponse rt m"
  shows "run_PortForwardSourceResponse rt PortForwardSourceResponse_default \<lparr>remaining = write_to_PortForwardSourceResponse rt m, dctx = c\<rparr> =
    Ok (m, \<lparr>remaining = [], dctx = c\<rparr>)"
  using assms by (cases m) (simp add: write_to_PortForwardSourceResponse_def wf_PortForwardSourceResponse_def PortForwardSourceResponse_default_def
      codec_steps codec_last run_typed_Nil)

lemma decode_loop_PortForwardDestinationResponse:
  assumes "buffa_ok rt" and "wf_PortForwardDestinationResponse rt m"
  shows "run_PortForwardDestinationResponse rt PortForwardDestinationResponse_default \<lparr>remaining = write_to_PortForwardDestinationResponse rt m, dctx = c\<rparr> =
    Ok (m, \<lparr>remaining = [], dctx = c\<rparr>)"
  using assms by (cases m) (simp add: write_to_PortForwardDestinationResponse_def wf_PortForwardDestinationResponse_def PortForwardDestinationResponse_default_def
      codec_steps codec_last run_typed_Nil)

lemma decode_loop_PortForwardData:
  assumes "buffa_ok rt" and "wf_PortForwardData rt m"
  shows "run_PortForwardData rt PortForwardData_default \<lparr>remaining = write_to_PortForwardData rt m, dctx = c\<rparr> =
    Ok (m, \<lparr>remaining = [], dctx = c\<rparr>)"
  using assms by (cases m) (simp add: write_to_PortForwardData_def wf_PortForwardData_def PortForwardData_default_def
      codec_steps codec_last run_typed_Nil)

lemma decode_loop_InitialResponse:
  assumes "buffa_ok rt" and "wf_InitialResponse rt m"
  shows "run_InitialResponse rt InitialResponse_default \<lparr>remaining = write_to_InitialResponse rt m, dctx = c\<rparr> =
    Ok (m, \<lparr>remaining = [], dctx = c\<rparr>)"
  using assms by (cases m) (simp add: write_to_InitialResponse_def wf_InitialResponse_def InitialResponse_default_def
      codec_steps codec_last run_typed_Nil)

lemma decode_loop_ConfigParams:
  assumes "buffa_ok rt" and "wf_ConfigParams rt m"
  shows "run_ConfigParams rt ConfigParams_default \<lparr>remaining = write_to_ConfigParams rt m, dctx = c\<rparr> =
    Ok (m, \<lparr>remaining = [], dctx = c\<rparr>)"
  using assms by (cases m) (simp add: write_to_ConfigParams_def wf_ConfigParams_def ConfigParams_default_def
      codec_steps codec_last run_typed_Nil)

lemma decode_loop_TerminalUserInfo:
  assumes "buffa_ok rt" and "wf_TerminalUserInfo rt m"
  shows "run_TerminalUserInfo rt TerminalUserInfo_default \<lparr>remaining = write_to_TerminalUserInfo rt m, dctx = c\<rparr> =
    Ok (m, \<lparr>remaining = [], dctx = c\<rparr>)"
  using assms by (cases m) (simp add: write_to_TerminalUserInfo_def wf_TerminalUserInfo_def TerminalUserInfo_default_def
      codec_steps codec_last run_typed_Nil)

lemma decode_loop_CatchupBuffer:
  assumes rt: "buffa_ok rt" and wf: "wf_CatchupBuffer rt m"
    and room: "roomy rt c (cost_CatchupBuffer rt m + k)"
  shows "\<exists>c'. roomy rt c' k \<and>
    run_CatchupBuffer rt CatchupBuffer_default \<lparr>remaining = write_to_CatchupBuffer rt m, dctx = c\<rparr> =
      Ok (m, \<lparr>remaining = [], dctx = c'\<rparr>)"
proof -
  let ?upd = "\<lambda>us. CatchupBuffer_default\<lparr>CatchupBuffer_buffer := us\<rparr>"
  have "\<exists>c'. roomy rt c' k \<and>
      run_CatchupBuffer rt (?upd [])
        \<lparr>remaining = concat (map (\<lambda>v. put_shared_bytes_field rt 1 v) (CatchupBuffer_buffer m)) @ [], dctx = c\<rparr> =
      run_CatchupBuffer rt (?upd ([] @ CatchupBuffer_buffer m)) \<lparr>remaining = [], dctx = c'\<rparr>"
    using wf room unfolding wf_CatchupBuffer_def cost_CatchupBuffer_def
    by (intro run_repeated [OF rt _ puts_decode_bytes [OF rt], where cost = "element_footprint_bytes rt"])
      (auto simp: list_all_iff small_field_def merge_field_CatchupBuffer_def rt)
  with rt wf show ?thesis
    by (cases m) (simp add: run_typed_Nil write_to_CatchupBuffer_def wf_CatchupBuffer_def CatchupBuffer_default_def)
qed

lemma decode_loop_TermInit:
  assumes rt: "buffa_ok rt" and wf: "wf_TermInit rt m"
    and room: "roomy rt c (cost_TermInit rt m + k)"
  shows "\<exists>c'. roomy rt c' k \<and>
    run_TermInit rt TermInit_default \<lparr>remaining = write_to_TermInit rt m, dctx = c\<rparr> =
      Ok (m, \<lparr>remaining = [], dctx = c'\<rparr>)"
proof -
  let ?vs = "concat (map (\<lambda>v. put_string_field rt 2 v) (TermInit_environmentvalues m))"
  let ?upd = "\<lambda>us. TermInit_default\<lparr>TermInit_environmentnames := us\<rparr>"
  let ?upd2 = "\<lambda>us. TermInit_default
    \<lparr>TermInit_environmentnames := TermInit_environmentnames m, TermInit_environmentvalues := us\<rparr>"
  have "\<exists>c'. roomy rt c' (sum_list (map (element_footprint_string rt) (TermInit_environmentvalues m)) + k) \<and>
      run_TermInit rt (?upd [])
        \<lparr>remaining = concat (map (\<lambda>v. put_string_field rt 1 v) (TermInit_environmentnames m)) @ ?vs, dctx = c\<rparr> =
      run_TermInit rt (?upd ([] @ TermInit_environmentnames m)) \<lparr>remaining = ?vs, dctx = c'\<rparr>"
    using wf room unfolding wf_TermInit_def cost_TermInit_def
    by (intro run_repeated [OF rt _ puts_decode_string [OF rt], where cost = "element_footprint_string rt"])
      (auto simp: list_all_iff small_field_def merge_field_TermInit_def rt add.assoc)
  then obtain c1
    where c1: "roomy rt c1 (sum_list (map (element_footprint_string rt) (TermInit_environmentvalues m)) + k)"
      and names: "run_TermInit rt (?upd [])
        \<lparr>remaining = concat (map (\<lambda>v. put_string_field rt 1 v) (TermInit_environmentnames m)) @ ?vs, dctx = c\<rparr> =
      run_TermInit rt (?upd (TermInit_environmentnames m)) \<lparr>remaining = ?vs, dctx = c1\<rparr>"
    by auto
  have "\<exists>c'. roomy rt c' k \<and>
      run_TermInit rt (?upd2 []) \<lparr>remaining = ?vs @ [], dctx = c1\<rparr> =
      run_TermInit rt (?upd2 ([] @ TermInit_environmentvalues m)) \<lparr>remaining = [], dctx = c'\<rparr>"
    using wf c1 unfolding wf_TermInit_def
    by (intro run_repeated [OF rt _ puts_decode_string [OF rt], where cost = "element_footprint_string rt"])
      (auto simp: list_all_iff small_field_def merge_field_TermInit_def rt)
  with rt wf names show ?thesis
    by (cases m) (simp add: run_typed_Nil write_to_TermInit_def wf_TermInit_def TermInit_default_def)
qed

text \<open>The endpoints nested in the port forwarding requests.\<close>

lemma run_endpoint:
  assumes rt: "buffa_ok rt" and un: "\<And>y. un (con y) = y" and n: "small_field n"
    and wf: "pred_option (wf_nested_SocketEndpoint rt) opt"
    and room: "roomy rt c ((case opt of None \<Rightarrow> 0 | Some v \<Rightarrow> 1) + k)"
    and mf: "\<And>v. opt = Some v \<Longrightarrow> mf x \<lparr>field_number = n, wire_type = LengthDelimited\<rparr> =
      dbind (merge_len_SocketEndpoint rt SocketEndpoint_default) (\<lambda>v. dret (upd v))"
    and x: "\<And>v. opt = Some v \<Longrightarrow> upd v = y" "opt = None \<Longrightarrow> y = x"
  shows "\<exists>c'. roomy rt c' k \<and>
    run_typed rt con un mf x
      \<lparr>remaining = (case opt of None \<Rightarrow> [] | Some v \<Rightarrow>
          put_len_delimited_header rt n (compute_size_SocketEndpoint rt v) @
          write_to_SocketEndpoint rt v) @ rest, dctx = c\<rparr> =
    run_typed rt con un mf y \<lparr>remaining = rest, dctx = c'\<rparr>"
proof (cases opt)
  case (Some v)
  let ?p = "write_to_SocketEndpoint rt v"
  from wf Some have p: "length ?p < 2 ^ 31" and v: "wf_SocketEndpoint rt v"
    by (simp_all add: wf_nested_SocketEndpoint_def)
  have size: "compute_size_SocketEndpoint rt v = length ?p"
    using p by (intro compute_size_SocketEndpoint [OF rt]) simp
  have inner: "\<exists>d'. roomy rt d' k \<and>
      run_SocketEndpoint rt SocketEndpoint_default \<lparr>remaining = ?p, dctx = d\<rparr> =
        Ok (v, \<lparr>remaining = [], dctx = d'\<rparr>)" if "roomy rt d (0 + k)" for d k
    using that decode_loop_SocketEndpoint [OF rt v] by auto
  from run_nested [OF rt n p inner] obtain body
    where body: "length body < length (put_len_delimited_header rt n (length ?p))"
      and tag: "\<And>c. decode_tag rt \<lparr>remaining = put_len_delimited_header rt n (length ?p) @ ?p @ rest, dctx = c\<rparr> =
        Ok (\<lparr>field_number = n, wire_type = LengthDelimited\<rparr>, \<lparr>remaining = body @ ?p @ rest, dctx = c\<rparr>)"
      and "\<And>c k. roomy rt c (Suc (0 + k)) \<Longrightarrow> \<exists>c'. roomy rt c' k \<and>
        merge_len_SocketEndpoint rt SocketEndpoint_default
          \<lparr>remaining = body @ ?p @ rest, dctx = c\<rparr> = Ok (v, \<lparr>remaining = rest, dctx = c'\<rparr>)"
    unfolding merge_len_SocketEndpoint_def by blast
  from this(3) [of c k] room Some obtain c' where c': "roomy rt c' k"
    and merge: "merge_len_SocketEndpoint rt SocketEndpoint_default
      \<lparr>remaining = body @ ?p @ rest, dctx = c\<rparr> = Ok (v, \<lparr>remaining = rest, dctx = c'\<rparr>)"
    by auto
  have "run_typed rt con un mf x
      \<lparr>remaining = put_len_delimited_header rt n (length ?p) @ ?p @ rest, dctx = c\<rparr> =
    run_typed rt con un mf y \<lparr>remaining = rest, dctx = c'\<rparr>"
    using body by (intro run_turn [OF rt un tag]) (auto simp: mf [OF Some] dbind_def merge x(1) [OF Some])
  with c' Some size show ?thesis by auto
qed (use room x(2) in auto)

lemma decode_loop_PortForwardSourceRequest:
  assumes rt: "buffa_ok rt" and wf: "wf_PortForwardSourceRequest rt m"
    and room: "roomy rt c (cost_PortForwardSourceRequest m + k)"
  shows "\<exists>c'. roomy rt c' k \<and>
    run_PortForwardSourceRequest rt PortForwardSourceRequest_default
      \<lparr>remaining = write_to_PortForwardSourceRequest rt m, dctx = c\<rparr> = Ok (m, \<lparr>remaining = [], dctx = c'\<rparr>)"
proof -
  let ?D = PortForwardSourceRequest_default
  let ?m1 = "?D\<lparr>PortForwardSourceRequest_source := PortForwardSourceRequest_source m\<rparr>"
  let ?m2 = "?m1\<lparr>PortForwardSourceRequest_destination := PortForwardSourceRequest_destination m\<rparr>"
  have wfs: "pred_option (wf_nested_SocketEndpoint rt) (PortForwardSourceRequest_source m)"
      "pred_option (wf_nested_SocketEndpoint rt) (PortForwardSourceRequest_destination m)"
    using wf by (simp_all add: wf_PortForwardSourceRequest_def)
  obtain c1 where c1: "roomy rt c1
        ((case PortForwardSourceRequest_destination m of None \<Rightarrow> 0 | Some v \<Rightarrow> 1) + k)"
    and s1: "\<And>rest. run_PortForwardSourceRequest rt ?D
      \<lparr>remaining = write_to_PortForwardSourceRequest rt m, dctx = c\<rparr> =
      run_PortForwardSourceRequest rt ?m1 \<lparr>remaining =
        (case PortForwardSourceRequest_destination m of None \<Rightarrow> [] | Some v \<Rightarrow>
          put_len_delimited_header rt 2 (compute_size_SocketEndpoint rt v) @ write_to_SocketEndpoint rt v) @
        (case PortForwardSourceRequest_environmentvariable m of None \<Rightarrow> [] | Some v \<Rightarrow> put_string_field rt 3 v), dctx = c1\<rparr>"
    using run_endpoint [OF rt _ _ wfs(1), of un_PortForwardSourceRequest Msg_PortForwardSourceRequest 1 c
        "(case PortForwardSourceRequest_destination m of None \<Rightarrow> 0 | Some v \<Rightarrow> 1) + k"
        "merge_field_PortForwardSourceRequest rt" ?D "\<lambda>v. ?D\<lparr>PortForwardSourceRequest_source := Some v\<rparr>" ?m1] room wf rt
    by (auto simp: small_field_def merge_field_PortForwardSourceRequest_def write_to_PortForwardSourceRequest_def
        PortForwardSourceRequest_default_def wf_PortForwardSourceRequest_def cost_PortForwardSourceRequest_def add.assoc)
  obtain c2 where c2: "roomy rt c2 k"
    and s2: "run_PortForwardSourceRequest rt ?m1 \<lparr>remaining =
        (case PortForwardSourceRequest_destination m of None \<Rightarrow> [] | Some v \<Rightarrow>
          put_len_delimited_header rt 2 (compute_size_SocketEndpoint rt v) @ write_to_SocketEndpoint rt v) @
        (case PortForwardSourceRequest_environmentvariable m of None \<Rightarrow> [] | Some v \<Rightarrow> put_string_field rt 3 v), dctx = c1\<rparr> =
      run_PortForwardSourceRequest rt ?m2 \<lparr>remaining =
        (case PortForwardSourceRequest_environmentvariable m of None \<Rightarrow> [] | Some v \<Rightarrow> put_string_field rt 3 v), dctx = c2\<rparr>"
    using run_endpoint [OF rt _ _ wfs(2), of un_PortForwardSourceRequest Msg_PortForwardSourceRequest 2 c1 k
        "merge_field_PortForwardSourceRequest rt" ?m1 "\<lambda>v. ?m1\<lparr>PortForwardSourceRequest_destination := Some v\<rparr>" ?m2] c1 rt
    by (auto simp: small_field_def merge_field_PortForwardSourceRequest_def PortForwardSourceRequest_default_def)
  show ?thesis
    using c2 rt wf s1 s2 by (cases m)
      (auto simp: wf_PortForwardSourceRequest_def PortForwardSourceRequest_default_def codec_last run_typed_Nil)
qed

lemma decode_loop_PortForwardDestinationRequest:
  assumes rt: "buffa_ok rt" and wf: "wf_PortForwardDestinationRequest rt m"
    and room: "roomy rt c (cost_PortForwardDestinationRequest rt m + k)"
  shows "\<exists>c'. roomy rt c' k \<and>
    run_PortForwardDestinationRequest rt PortForwardDestinationRequest_default
      \<lparr>remaining = write_to_PortForwardDestinationRequest rt m, dctx = c\<rparr> = Ok (m, \<lparr>remaining = [], dctx = c'\<rparr>)"
proof -
  let ?D = PortForwardDestinationRequest_default
  let ?m1 = "?D\<lparr>PortForwardDestinationRequest_destination := PortForwardDestinationRequest_destination m\<rparr>"
  have wfs: "pred_option (wf_nested_SocketEndpoint rt) (PortForwardDestinationRequest_destination m)"
    using wf by (simp add: wf_PortForwardDestinationRequest_def)
  obtain c1 where c1: "roomy rt c1 k"
    and s1: "run_PortForwardDestinationRequest rt ?D
      \<lparr>remaining = write_to_PortForwardDestinationRequest rt m, dctx = c\<rparr> =
      run_PortForwardDestinationRequest rt ?m1 \<lparr>remaining =
        (case PortForwardDestinationRequest_fd m of None \<Rightarrow> [] | Some v \<Rightarrow> put_int32_field rt 2 v), dctx = c1\<rparr>"
    using run_endpoint [OF rt _ _ wfs, of un_PortForwardDestinationRequest Msg_PortForwardDestinationRequest 1 c k
        "merge_field_PortForwardDestinationRequest rt" ?D
        "\<lambda>v. ?D\<lparr>PortForwardDestinationRequest_destination := Some v\<rparr>" ?m1] room wf rt
    by (auto simp: small_field_def merge_field_PortForwardDestinationRequest_def
        write_to_PortForwardDestinationRequest_def PortForwardDestinationRequest_default_def
        wf_PortForwardDestinationRequest_def cost_PortForwardDestinationRequest_def)
  show ?thesis
    using c1 rt wf s1 by (cases m)
      (auto simp: wf_PortForwardDestinationRequest_def PortForwardDestinationRequest_default_def codec_last run_typed_Nil)
qed

text \<open>The reverse tunnels of the initial payload: every request is registered, then merged.\<close>

abbreviation source_request_cost :: "buffa \<Rightarrow> PortForwardSourceRequest \<Rightarrow> nat" where
  "source_request_cost rt v \<equiv> element_footprint_source_request rt PortForwardSourceRequest_default +
     Suc (cost_PortForwardSourceRequest v)"

abbreviation source_request_chunk :: "buffa \<Rightarrow> PortForwardSourceRequest \<Rightarrow> bytes" where
  "source_request_chunk rt v \<equiv>
     put_len_delimited_header rt 2 (compute_size_PortForwardSourceRequest rt v) @
     write_to_PortForwardSourceRequest rt v"

lemma run_source_request:
  assumes rt: "buffa_ok rt" and wf: "wf_nested_PortForwardSourceRequest rt v"
    and room: "roomy rt c (source_request_cost rt v + k)"
  shows "\<exists>c'. roomy rt c' k \<and>
    run_InitialPayload rt m \<lparr>remaining = source_request_chunk rt v @ rest, dctx = c\<rparr> =
    run_InitialPayload rt (m\<lparr>InitialPayload_reversetunnels := InitialPayload_reversetunnels m @ [v]\<rparr>)
      \<lparr>remaining = rest, dctx = c'\<rparr>"
proof -
  let ?p = "write_to_PortForwardSourceRequest rt v" and ?D = PortForwardSourceRequest_default
  let ?f = "element_footprint_source_request rt ?D"
  from wf have p: "length ?p < 2 ^ 31" and v: "wf_PortForwardSourceRequest rt v"
    by (simp_all add: wf_nested_PortForwardSourceRequest_def)
  have size: "compute_size_PortForwardSourceRequest rt v = length ?p"
    using p by (intro compute_size_PortForwardSourceRequest [OF rt]) simp
  have inner: "\<exists>d'. roomy rt d' k \<and>
      run_PortForwardSourceRequest rt ?D \<lparr>remaining = ?p, dctx = d\<rparr> = Ok (v, \<lparr>remaining = [], dctx = d'\<rparr>)"
    if "roomy rt d (cost_PortForwardSourceRequest v + k)" for d k
    using that by (rule decode_loop_PortForwardSourceRequest [OF rt v])
  have n: "small_field 2" by (simp add: small_field_def)
  from run_nested [OF rt n p inner] obtain body
    where body: "length body < length (put_len_delimited_header rt 2 (length ?p))"
      and tag: "\<And>c. decode_tag rt \<lparr>remaining = put_len_delimited_header rt 2 (length ?p) @ ?p @ rest, dctx = c\<rparr> =
        Ok (\<lparr>field_number = 2, wire_type = LengthDelimited\<rparr>, \<lparr>remaining = body @ ?p @ rest, dctx = c\<rparr>)"
      and merge: "\<And>c k. roomy rt c (Suc (cost_PortForwardSourceRequest v + k)) \<Longrightarrow> \<exists>c'. roomy rt c' k \<and>
        merge_len_PortForwardSourceRequest rt ?D
          \<lparr>remaining = body @ ?p @ rest, dctx = c\<rparr> = Ok (v, \<lparr>remaining = rest, dctx = c'\<rparr>)"
    unfolding merge_len_PortForwardSourceRequest_def by blast
  have "roomy rt c (?f + Suc (cost_PortForwardSourceRequest v + k))"
    using room by (simp add: add.assoc)
  with rt obtain c1 where c1: "roomy rt c1 (Suc (cost_PortForwardSourceRequest v + k))" and
    reg: "register_element_memory rt ?f \<lparr>remaining = body @ ?p @ rest, dctx = c\<rparr> =
      Ok ((), \<lparr>remaining = body @ ?p @ rest, dctx = c1\<rparr>)"
    unfolding buffa_ok_def context_laws_def by blast
  from merge [OF c1] obtain c' where c': "roomy rt c' k" and
    "merge_len_PortForwardSourceRequest rt ?D \<lparr>remaining = body @ ?p @ rest, dctx = c1\<rparr> =
      Ok (v, \<lparr>remaining = rest, dctx = c'\<rparr>)"
    by blast
  with reg body have "run_InitialPayload rt m
      \<lparr>remaining = put_len_delimited_header rt 2 (length ?p) @ ?p @ rest, dctx = c\<rparr> =
    run_InitialPayload rt (m\<lparr>InitialPayload_reversetunnels := InitialPayload_reversetunnels m @ [v]\<rparr>)
      \<lparr>remaining = rest, dctx = c'\<rparr>"
    by (intro run_turn [OF rt _ tag]) (auto simp: merge_field_InitialPayload_def rt dbind_def)
  with c' size show ?thesis by auto
qed

lemma run_source_requests:
  assumes rt: "buffa_ok rt" and "list_all (wf_nested_PortForwardSourceRequest rt) vs"
    and "roomy rt c (sum_list (map (source_request_cost rt) vs) + k)"
  shows "\<exists>c'. roomy rt c' k \<and>
    run_InitialPayload rt m \<lparr>remaining = concat (map (source_request_chunk rt) vs) @ rest, dctx = c\<rparr> =
    run_InitialPayload rt (m\<lparr>InitialPayload_reversetunnels := InitialPayload_reversetunnels m @ vs\<rparr>)
      \<lparr>remaining = rest, dctx = c'\<rparr>"
  using assms(2-)
proof (induction vs arbitrary: m c)
  case (Cons v vs)
  let ?m1 = "m\<lparr>InitialPayload_reversetunnels := InitialPayload_reversetunnels m @ [v]\<rparr>"
  from Cons.prems have v: "wf_nested_PortForwardSourceRequest rt v"
    and vs: "list_all (wf_nested_PortForwardSourceRequest rt) vs"
    and room: "roomy rt c (source_request_cost rt v + (sum_list (map (source_request_cost rt) vs) + k))"
    by (simp_all add: add.assoc)
  from run_source_request [OF rt v room] obtain c1
    where c1: "roomy rt c1 (sum_list (map (source_request_cost rt) vs) + k)"
    and "run_InitialPayload rt m
        \<lparr>remaining = source_request_chunk rt v @ concat (map (source_request_chunk rt) vs) @ rest, dctx = c\<rparr> =
      run_InitialPayload rt ?m1 \<lparr>remaining = concat (map (source_request_chunk rt) vs) @ rest, dctx = c1\<rparr>"
    by blast
  with Cons.IH [OF vs c1, of ?m1] show ?case by auto
qed auto

lemma decode_loop_InitialPayload:
  assumes rt: "buffa_ok rt" and wf: "wf_InitialPayload rt m"
    and room: "roomy rt c (cost_InitialPayload rt m + k)"
  shows "\<exists>c'. roomy rt c' k \<and>
    run_InitialPayload rt InitialPayload_default \<lparr>remaining = write_to_InitialPayload rt m, dctx = c\<rparr> =
      Ok (m, \<lparr>remaining = [], dctx = c'\<rparr>)"
proof -
  let ?e = "InitialPayload_environmentvariables m" and ?vs = "InitialPayload_reversetunnels m"
  let ?m1 = "InitialPayload_default\<lparr>InitialPayload_jumphost := InitialPayload_jumphost m\<rparr>"
  let ?m2 = "?m1\<lparr>InitialPayload_reversetunnels := ?vs\<rparr>"
  let ?upd = "\<lambda>e. ?m2\<lparr>InitialPayload_environmentvariables := e\<rparr>"
  from wf have vs: "list_all (wf_nested_PortForwardSourceRequest rt) ?vs"
    and e: "finite (dom ?e)" "\<And>k v. ?e k = Some v \<Longrightarrow> entry_ok (k, v)"
    by (auto simp: wf_InitialPayload_def)
  have "roomy rt c (sum_list (map (source_request_cost rt) ?vs) +
      ((\<Sum>k\<in>dom ?e. map_entry_cost rt k (the (?e k))) + k))"
    using room by (simp add: cost_InitialPayload_def add.assoc)
  from run_source_requests [OF rt vs this, of ?m1 "map_write_field rt ?e 3"] obtain c1
    where c1: "roomy rt c1 ((\<Sum>k\<in>dom ?e. map_entry_cost rt k (the (?e k))) + k)"
    and s1: "run_InitialPayload rt ?m1
        \<lparr>remaining = concat (map (source_request_chunk rt) ?vs) @ map_write_field rt ?e 3, dctx = c\<rparr> =
      run_InitialPayload rt ?m2 \<lparr>remaining = map_write_field rt ?e 3, dctx = c1\<rparr>"
    by (auto simp: InitialPayload_default_def)
  have "\<exists>c'. roomy rt c' k \<and> run_InitialPayload rt (?upd Map.empty)
        \<lparr>remaining = map_write_field rt ?e 3 @ [], dctx = c1\<rparr> =
      run_InitialPayload rt (?upd ?e) \<lparr>remaining = [], dctx = c'\<rparr>"
    by (intro run_map_entries [OF rt _ _ e c1])
      (simp_all add: small_field_def merge_field_InitialPayload_def rt)
  with s1 rt wf show ?thesis
    by (cases m) (auto simp: write_to_InitialPayload_def wf_InitialPayload_def InitialPayload_default_def
        codec_steps run_typed_Nil)
qed

lemma fresh_roomy: "buffa_ok rt \<Longrightarrow> k \<le> decode_limit rt \<Longrightarrow> roomy rt (fresh_ctx rt) (k + 0)"
  unfolding buffa_ok_def context_laws_def by auto

lemma decode_write_ConnectRequest:
  assumes "buffa_ok rt" and "wf_ConnectRequest rt m"
  shows "decode_ConnectRequest rt (write_to_ConnectRequest rt m) = Ok m"
  using decode_loop_ConnectRequest [OF assms] by (simp add: decode_ConnectRequest_def decode_typed_def)

lemma decode_write_ConnectResponse:
  assumes "buffa_ok rt" and "wf_ConnectResponse rt m"
  shows "decode_ConnectResponse rt (write_to_ConnectResponse rt m) = Ok m"
  using decode_loop_ConnectResponse [OF assms] by (simp add: decode_ConnectResponse_def decode_typed_def)

lemma decode_write_SequenceHeader:
  assumes "buffa_ok rt" and "wf_SequenceHeader rt m"
  shows "decode_SequenceHeader rt (write_to_SequenceHeader rt m) = Ok m"
  using decode_loop_SequenceHeader [OF assms] by (simp add: decode_SequenceHeader_def decode_typed_def)

lemma decode_write_CatchupBuffer:
  assumes "buffa_ok rt" and "wf_CatchupBuffer rt m" and "cost_CatchupBuffer rt m \<le> decode_limit rt"
  shows "decode_CatchupBuffer rt (write_to_CatchupBuffer rt m) = Ok m"
  using decode_loop_CatchupBuffer [OF assms(1,2), of "fresh_ctx rt" 0] fresh_roomy [OF assms(1,3)]
  by (auto simp: decode_CatchupBuffer_def decode_typed_def)

lemma decode_write_SocketEndpoint:
  assumes "buffa_ok rt" and "wf_SocketEndpoint rt m"
  shows "decode_SocketEndpoint rt (write_to_SocketEndpoint rt m) = Ok m"
  using decode_loop_SocketEndpoint [OF assms] by (simp add: decode_SocketEndpoint_def decode_typed_def)

lemma decode_write_TerminalBuffer:
  assumes "buffa_ok rt" and "wf_TerminalBuffer rt m"
  shows "decode_TerminalBuffer rt (write_to_TerminalBuffer rt m) = Ok m"
  using decode_loop_TerminalBuffer [OF assms] by (simp add: decode_TerminalBuffer_def decode_typed_def)

lemma decode_write_TerminalInfo:
  assumes "buffa_ok rt" and "wf_TerminalInfo rt m"
  shows "decode_TerminalInfo rt (write_to_TerminalInfo rt m) = Ok m"
  using decode_loop_TerminalInfo [OF assms] by (simp add: decode_TerminalInfo_def decode_typed_def)

lemma decode_write_PortForwardSourceRequest:
  assumes "buffa_ok rt" and "wf_PortForwardSourceRequest rt m" and "cost_PortForwardSourceRequest m \<le> decode_limit rt"
  shows "decode_PortForwardSourceRequest rt (write_to_PortForwardSourceRequest rt m) = Ok m"
  using decode_loop_PortForwardSourceRequest [OF assms(1,2), of "fresh_ctx rt" 0] fresh_roomy [OF assms(1,3)]
  by (auto simp: decode_PortForwardSourceRequest_def decode_typed_def)

lemma decode_write_PortForwardSourceResponse:
  assumes "buffa_ok rt" and "wf_PortForwardSourceResponse rt m"
  shows "decode_PortForwardSourceResponse rt (write_to_PortForwardSourceResponse rt m) = Ok m"
  using decode_loop_PortForwardSourceResponse [OF assms] by (simp add: decode_PortForwardSourceResponse_def decode_typed_def)

lemma decode_write_PortForwardDestinationRequest:
  assumes "buffa_ok rt" and "wf_PortForwardDestinationRequest rt m" and "cost_PortForwardDestinationRequest rt m \<le> decode_limit rt"
  shows "decode_PortForwardDestinationRequest rt (write_to_PortForwardDestinationRequest rt m) = Ok m"
  using decode_loop_PortForwardDestinationRequest [OF assms(1,2), of "fresh_ctx rt" 0] fresh_roomy [OF assms(1,3)]
  by (auto simp: decode_PortForwardDestinationRequest_def decode_typed_def)

lemma decode_write_PortForwardDestinationResponse:
  assumes "buffa_ok rt" and "wf_PortForwardDestinationResponse rt m"
  shows "decode_PortForwardDestinationResponse rt (write_to_PortForwardDestinationResponse rt m) = Ok m"
  using decode_loop_PortForwardDestinationResponse [OF assms] by (simp add: decode_PortForwardDestinationResponse_def decode_typed_def)

lemma decode_write_PortForwardData:
  assumes "buffa_ok rt" and "wf_PortForwardData rt m"
  shows "decode_PortForwardData rt (write_to_PortForwardData rt m) = Ok m"
  using decode_loop_PortForwardData [OF assms] by (simp add: decode_PortForwardData_def decode_typed_def)

lemma decode_write_InitialPayload:
  assumes "buffa_ok rt" and "wf_InitialPayload rt m" and "cost_InitialPayload rt m \<le> decode_limit rt"
  shows "decode_InitialPayload rt (write_to_InitialPayload rt m) = Ok m"
  using decode_loop_InitialPayload [OF assms(1,2), of "fresh_ctx rt" 0] fresh_roomy [OF assms(1,3)]
  by (auto simp: decode_InitialPayload_def decode_typed_def)

lemma decode_write_InitialResponse:
  assumes "buffa_ok rt" and "wf_InitialResponse rt m"
  shows "decode_InitialResponse rt (write_to_InitialResponse rt m) = Ok m"
  using decode_loop_InitialResponse [OF assms] by (simp add: decode_InitialResponse_def decode_typed_def)

lemma decode_write_ConfigParams:
  assumes "buffa_ok rt" and "wf_ConfigParams rt m"
  shows "decode_ConfigParams rt (write_to_ConfigParams rt m) = Ok m"
  using decode_loop_ConfigParams [OF assms] by (simp add: decode_ConfigParams_def decode_typed_def)

lemma decode_write_TermInit:
  assumes "buffa_ok rt" and "wf_TermInit rt m" and "cost_TermInit rt m \<le> decode_limit rt"
  shows "decode_TermInit rt (write_to_TermInit rt m) = Ok m"
  using decode_loop_TermInit [OF assms(1,2), of "fresh_ctx rt" 0] fresh_roomy [OF assms(1,3)]
  by (auto simp: decode_TermInit_def decode_typed_def)

lemma decode_write_TerminalUserInfo:
  assumes "buffa_ok rt" and "wf_TerminalUserInfo rt m"
  shows "decode_TerminalUserInfo rt (write_to_TerminalUserInfo rt m) = Ok m"
  using decode_loop_TerminalUserInfo [OF assms] by (simp add: decode_TerminalUserInfo_def decode_typed_def)

section \<open>All messages\<close>

primrec write_to_message :: "buffa \<Rightarrow> message \<Rightarrow> bytes" where
  "write_to_message rt (Msg_ConnectRequest m) = write_to_ConnectRequest rt m"
| "write_to_message rt (Msg_ConnectResponse m) = write_to_ConnectResponse rt m"
| "write_to_message rt (Msg_SequenceHeader m) = write_to_SequenceHeader rt m"
| "write_to_message rt (Msg_CatchupBuffer m) = write_to_CatchupBuffer rt m"
| "write_to_message rt (Msg_SocketEndpoint m) = write_to_SocketEndpoint rt m"
| "write_to_message rt (Msg_TerminalBuffer m) = write_to_TerminalBuffer rt m"
| "write_to_message rt (Msg_TerminalInfo m) = write_to_TerminalInfo rt m"
| "write_to_message rt (Msg_PortForwardSourceRequest m) = write_to_PortForwardSourceRequest rt m"
| "write_to_message rt (Msg_PortForwardSourceResponse m) = write_to_PortForwardSourceResponse rt m"
| "write_to_message rt (Msg_PortForwardDestinationRequest m) = write_to_PortForwardDestinationRequest rt m"
| "write_to_message rt (Msg_PortForwardDestinationResponse m) = write_to_PortForwardDestinationResponse rt m"
| "write_to_message rt (Msg_PortForwardData m) = write_to_PortForwardData rt m"
| "write_to_message rt (Msg_InitialPayload m) = write_to_InitialPayload rt m"
| "write_to_message rt (Msg_InitialResponse m) = write_to_InitialResponse rt m"
| "write_to_message rt (Msg_ConfigParams m) = write_to_ConfigParams rt m"
| "write_to_message rt (Msg_TermInit m) = write_to_TermInit rt m"
| "write_to_message rt (Msg_TerminalUserInfo m) = write_to_TerminalUserInfo rt m"

primrec encoded_len :: "buffa \<Rightarrow> message \<Rightarrow> nat" where
  "encoded_len rt (Msg_ConnectRequest m) = compute_size_ConnectRequest rt m"
| "encoded_len rt (Msg_ConnectResponse m) = compute_size_ConnectResponse rt m"
| "encoded_len rt (Msg_SequenceHeader m) = compute_size_SequenceHeader rt m"
| "encoded_len rt (Msg_CatchupBuffer m) = compute_size_CatchupBuffer rt m"
| "encoded_len rt (Msg_SocketEndpoint m) = compute_size_SocketEndpoint rt m"
| "encoded_len rt (Msg_TerminalBuffer m) = compute_size_TerminalBuffer rt m"
| "encoded_len rt (Msg_TerminalInfo m) = compute_size_TerminalInfo rt m"
| "encoded_len rt (Msg_PortForwardSourceRequest m) = compute_size_PortForwardSourceRequest rt m"
| "encoded_len rt (Msg_PortForwardSourceResponse m) = compute_size_PortForwardSourceResponse rt m"
| "encoded_len rt (Msg_PortForwardDestinationRequest m) = compute_size_PortForwardDestinationRequest rt m"
| "encoded_len rt (Msg_PortForwardDestinationResponse m) = compute_size_PortForwardDestinationResponse rt m"
| "encoded_len rt (Msg_PortForwardData m) = compute_size_PortForwardData rt m"
| "encoded_len rt (Msg_InitialPayload m) = compute_size_InitialPayload rt m"
| "encoded_len rt (Msg_InitialResponse m) = compute_size_InitialResponse rt m"
| "encoded_len rt (Msg_ConfigParams m) = compute_size_ConfigParams rt m"
| "encoded_len rt (Msg_TermInit m) = compute_size_TermInit rt m"
| "encoded_len rt (Msg_TerminalUserInfo m) = compute_size_TerminalUserInfo rt m"

primrec decode_same :: "buffa \<Rightarrow> message \<Rightarrow> bytes \<Rightarrow> DecodeError + message" where
  "decode_same rt (Msg_ConnectRequest m) bs = map_sum id Msg_ConnectRequest (decode_ConnectRequest rt bs)"
| "decode_same rt (Msg_ConnectResponse m) bs = map_sum id Msg_ConnectResponse (decode_ConnectResponse rt bs)"
| "decode_same rt (Msg_SequenceHeader m) bs = map_sum id Msg_SequenceHeader (decode_SequenceHeader rt bs)"
| "decode_same rt (Msg_CatchupBuffer m) bs = map_sum id Msg_CatchupBuffer (decode_CatchupBuffer rt bs)"
| "decode_same rt (Msg_SocketEndpoint m) bs = map_sum id Msg_SocketEndpoint (decode_SocketEndpoint rt bs)"
| "decode_same rt (Msg_TerminalBuffer m) bs = map_sum id Msg_TerminalBuffer (decode_TerminalBuffer rt bs)"
| "decode_same rt (Msg_TerminalInfo m) bs = map_sum id Msg_TerminalInfo (decode_TerminalInfo rt bs)"
| "decode_same rt (Msg_PortForwardSourceRequest m) bs = map_sum id Msg_PortForwardSourceRequest (decode_PortForwardSourceRequest rt bs)"
| "decode_same rt (Msg_PortForwardSourceResponse m) bs = map_sum id Msg_PortForwardSourceResponse (decode_PortForwardSourceResponse rt bs)"
| "decode_same rt (Msg_PortForwardDestinationRequest m) bs = map_sum id Msg_PortForwardDestinationRequest (decode_PortForwardDestinationRequest rt bs)"
| "decode_same rt (Msg_PortForwardDestinationResponse m) bs = map_sum id Msg_PortForwardDestinationResponse (decode_PortForwardDestinationResponse rt bs)"
| "decode_same rt (Msg_PortForwardData m) bs = map_sum id Msg_PortForwardData (decode_PortForwardData rt bs)"
| "decode_same rt (Msg_InitialPayload m) bs = map_sum id Msg_InitialPayload (decode_InitialPayload rt bs)"
| "decode_same rt (Msg_InitialResponse m) bs = map_sum id Msg_InitialResponse (decode_InitialResponse rt bs)"
| "decode_same rt (Msg_ConfigParams m) bs = map_sum id Msg_ConfigParams (decode_ConfigParams rt bs)"
| "decode_same rt (Msg_TermInit m) bs = map_sum id Msg_TermInit (decode_TermInit rt bs)"
| "decode_same rt (Msg_TerminalUserInfo m) bs = map_sum id Msg_TerminalUserInfo (decode_TerminalUserInfo rt bs)"

primrec clear_message :: "message \<Rightarrow> message" where
  "clear_message (Msg_ConnectRequest m) = Msg_ConnectRequest (clear_ConnectRequest m)"
| "clear_message (Msg_ConnectResponse m) = Msg_ConnectResponse (clear_ConnectResponse m)"
| "clear_message (Msg_SequenceHeader m) = Msg_SequenceHeader (clear_SequenceHeader m)"
| "clear_message (Msg_CatchupBuffer m) = Msg_CatchupBuffer (clear_CatchupBuffer m)"
| "clear_message (Msg_SocketEndpoint m) = Msg_SocketEndpoint (clear_SocketEndpoint m)"
| "clear_message (Msg_TerminalBuffer m) = Msg_TerminalBuffer (clear_TerminalBuffer m)"
| "clear_message (Msg_TerminalInfo m) = Msg_TerminalInfo (clear_TerminalInfo m)"
| "clear_message (Msg_PortForwardSourceRequest m) = Msg_PortForwardSourceRequest (clear_PortForwardSourceRequest m)"
| "clear_message (Msg_PortForwardSourceResponse m) = Msg_PortForwardSourceResponse (clear_PortForwardSourceResponse m)"
| "clear_message (Msg_PortForwardDestinationRequest m) = Msg_PortForwardDestinationRequest (clear_PortForwardDestinationRequest m)"
| "clear_message (Msg_PortForwardDestinationResponse m) = Msg_PortForwardDestinationResponse (clear_PortForwardDestinationResponse m)"
| "clear_message (Msg_PortForwardData m) = Msg_PortForwardData (clear_PortForwardData m)"
| "clear_message (Msg_InitialPayload m) = Msg_InitialPayload (clear_InitialPayload m)"
| "clear_message (Msg_InitialResponse m) = Msg_InitialResponse (clear_InitialResponse m)"
| "clear_message (Msg_ConfigParams m) = Msg_ConfigParams (clear_ConfigParams m)"
| "clear_message (Msg_TermInit m) = Msg_TermInit (clear_TermInit m)"
| "clear_message (Msg_TerminalUserInfo m) = Msg_TerminalUserInfo (clear_TerminalUserInfo m)"

primrec default_message :: "message \<Rightarrow> message" where
  "default_message (Msg_ConnectRequest m) = Msg_ConnectRequest ConnectRequest_default"
| "default_message (Msg_ConnectResponse m) = Msg_ConnectResponse ConnectResponse_default"
| "default_message (Msg_SequenceHeader m) = Msg_SequenceHeader SequenceHeader_default"
| "default_message (Msg_CatchupBuffer m) = Msg_CatchupBuffer CatchupBuffer_default"
| "default_message (Msg_SocketEndpoint m) = Msg_SocketEndpoint SocketEndpoint_default"
| "default_message (Msg_TerminalBuffer m) = Msg_TerminalBuffer TerminalBuffer_default"
| "default_message (Msg_TerminalInfo m) = Msg_TerminalInfo TerminalInfo_default"
| "default_message (Msg_PortForwardSourceRequest m) = Msg_PortForwardSourceRequest PortForwardSourceRequest_default"
| "default_message (Msg_PortForwardSourceResponse m) = Msg_PortForwardSourceResponse PortForwardSourceResponse_default"
| "default_message (Msg_PortForwardDestinationRequest m) = Msg_PortForwardDestinationRequest PortForwardDestinationRequest_default"
| "default_message (Msg_PortForwardDestinationResponse m) = Msg_PortForwardDestinationResponse PortForwardDestinationResponse_default"
| "default_message (Msg_PortForwardData m) = Msg_PortForwardData PortForwardData_default"
| "default_message (Msg_InitialPayload m) = Msg_InitialPayload InitialPayload_default"
| "default_message (Msg_InitialResponse m) = Msg_InitialResponse InitialResponse_default"
| "default_message (Msg_ConfigParams m) = Msg_ConfigParams ConfigParams_default"
| "default_message (Msg_TermInit m) = Msg_TermInit TermInit_default"
| "default_message (Msg_TerminalUserInfo m) = Msg_TerminalUserInfo TerminalUserInfo_default"

primrec wf_message :: "buffa \<Rightarrow> message \<Rightarrow> bool" where
  "wf_message rt (Msg_ConnectRequest m) = (wf_ConnectRequest rt m)"
| "wf_message rt (Msg_ConnectResponse m) = (wf_ConnectResponse rt m)"
| "wf_message rt (Msg_SequenceHeader m) = (wf_SequenceHeader rt m)"
| "wf_message rt (Msg_CatchupBuffer m) = (wf_CatchupBuffer rt m \<and> cost_CatchupBuffer rt m \<le> decode_limit rt)"
| "wf_message rt (Msg_SocketEndpoint m) = (wf_SocketEndpoint rt m)"
| "wf_message rt (Msg_TerminalBuffer m) = (wf_TerminalBuffer rt m)"
| "wf_message rt (Msg_TerminalInfo m) = (wf_TerminalInfo rt m)"
| "wf_message rt (Msg_PortForwardSourceRequest m) = (wf_PortForwardSourceRequest rt m \<and> cost_PortForwardSourceRequest m \<le> decode_limit rt)"
| "wf_message rt (Msg_PortForwardSourceResponse m) = (wf_PortForwardSourceResponse rt m)"
| "wf_message rt (Msg_PortForwardDestinationRequest m) = (wf_PortForwardDestinationRequest rt m \<and> cost_PortForwardDestinationRequest rt m \<le> decode_limit rt)"
| "wf_message rt (Msg_PortForwardDestinationResponse m) = (wf_PortForwardDestinationResponse rt m)"
| "wf_message rt (Msg_PortForwardData m) = (wf_PortForwardData rt m)"
| "wf_message rt (Msg_InitialPayload m) = (wf_InitialPayload rt m \<and> cost_InitialPayload rt m \<le> decode_limit rt)"
| "wf_message rt (Msg_InitialResponse m) = (wf_InitialResponse rt m)"
| "wf_message rt (Msg_ConfigParams m) = (wf_ConfigParams rt m)"
| "wf_message rt (Msg_TermInit m) = (wf_TermInit rt m \<and> cost_TermInit rt m \<le> decode_limit rt)"
| "wf_message rt (Msg_TerminalUserInfo m) = (wf_TerminalUserInfo rt m)"

lemmas decode_write =
  decode_write_ConnectRequest
  decode_write_ConnectResponse
  decode_write_SequenceHeader
  decode_write_CatchupBuffer
  decode_write_SocketEndpoint
  decode_write_TerminalBuffer
  decode_write_TerminalInfo
  decode_write_PortForwardSourceRequest
  decode_write_PortForwardSourceResponse
  decode_write_PortForwardDestinationRequest
  decode_write_PortForwardDestinationResponse
  decode_write_PortForwardData
  decode_write_InitialPayload
  decode_write_InitialResponse
  decode_write_ConfigParams
  decode_write_TermInit
  decode_write_TerminalUserInfo

lemmas compute_sizes =
  compute_size_ConnectRequest
  compute_size_ConnectResponse
  compute_size_SequenceHeader
  compute_size_CatchupBuffer
  compute_size_SocketEndpoint
  compute_size_TerminalBuffer
  compute_size_TerminalInfo
  compute_size_PortForwardSourceRequest
  compute_size_PortForwardSourceResponse
  compute_size_PortForwardDestinationRequest
  compute_size_PortForwardDestinationResponse
  compute_size_PortForwardData
  compute_size_InitialPayload
  compute_size_InitialResponse
  compute_size_ConfigParams
  compute_size_TermInit
  compute_size_TerminalUserInfo

lemmas message_unfolds =
  wf_ConnectRequest_def
  wf_ConnectResponse_def
  wf_SequenceHeader_def
  wf_CatchupBuffer_def
  wf_SocketEndpoint_def
  wf_TerminalBuffer_def
  wf_TerminalInfo_def
  wf_PortForwardSourceRequest_def
  wf_PortForwardSourceResponse_def
  wf_PortForwardDestinationRequest_def
  wf_PortForwardDestinationResponse_def
  wf_PortForwardData_def
  wf_InitialPayload_def
  wf_InitialResponse_def
  wf_ConfigParams_def
  wf_TermInit_def
  wf_TerminalUserInfo_def

lemmas clear_unfolds =
  clear_ConnectRequest_def ConnectRequest_default_def
  clear_ConnectResponse_def ConnectResponse_default_def
  clear_SequenceHeader_def SequenceHeader_default_def
  clear_CatchupBuffer_def CatchupBuffer_default_def
  clear_SocketEndpoint_def SocketEndpoint_default_def
  clear_TerminalBuffer_def TerminalBuffer_default_def
  clear_TerminalInfo_def TerminalInfo_default_def
  clear_PortForwardSourceRequest_def PortForwardSourceRequest_default_def
  clear_PortForwardSourceResponse_def PortForwardSourceResponse_default_def
  clear_PortForwardDestinationRequest_def PortForwardDestinationRequest_default_def
  clear_PortForwardDestinationResponse_def PortForwardDestinationResponse_default_def
  clear_PortForwardData_def PortForwardData_default_def
  clear_InitialPayload_def InitialPayload_default_def
  clear_InitialResponse_def InitialResponse_default_def
  clear_ConfigParams_def ConfigParams_default_def
  clear_TermInit_def TermInit_default_def
  clear_TerminalUserInfo_def TerminalUserInfo_default_def

lemma decode_same_encode:
  assumes "buffa_ok rt" and "wf_message rt m"
  shows "decode_same rt m (write_to_message rt m) = Ok m"
  using assms by (cases m) (simp_all add: decode_write)

lemma encoded_len_correct:
  assumes "buffa_ok rt" and "wf_message rt m" and "length (write_to_message rt m) < 2 ^ 32"
  shows "encoded_len rt m = length (write_to_message rt m)"
  using assms by (cases m) (simp_all add: compute_sizes wf_InitialPayload_def)

lemma clear_message_default: "clear_message m = default_message m"
  by (cases m) (simp_all add: clear_unfolds)

section \<open>Closed enumerations\<close>

text \<open>
  A status number the schema does not know is kept as an unknown field, and the message decodes
  without a status.
\<close>

lemma decode_ConnectResponse_unknown_status:
  assumes rt: "buffa_ok rt" and "1 \<le> decode_limit rt" and raw: "ConnectStatus_from_i32 raw = None"
    and e: "pred_option wire_text e"
  shows "decode_ConnectResponse rt
      (put_int32_field rt 1 raw @ (case e of None \<Rightarrow> [] | Some v \<Rightarrow> put_string_field rt 2 v)) =
    Ok \<lparr>ConnectResponse_status = None, ConnectResponse_error = e,
        ConnectResponse_unknown_fields = [UnknownField 1 (UVarint (scast raw))]\<rparr>"
proof -
  let ?rest = "case e of None \<Rightarrow> [] | Some v \<Rightarrow> put_string_field rt 2 v"
  let ?D = ConnectResponse_default and ?c = "fresh_ctx rt"
  let ?m1 = "?D\<lparr>ConnectResponse_unknown_fields := [UnknownField 1 (UVarint (scast raw))]\<rparr>"
  have "puts rt (put_int32_field rt 1 raw) 1 Varint (decode_int32 rt) raw"
    by (rule puts_int32 [OF rt]) (simp add: small_field_def)
  then obtain body where "length body < length (put_int32_field rt 1 raw)"
    and tag: "decode_tag rt \<lparr>remaining = put_int32_field rt 1 raw @ ?rest, dctx = ?c\<rparr> =
      Ok (\<lparr>field_number = 1, wire_type = Varint\<rparr>, \<lparr>remaining = body @ ?rest, dctx = ?c\<rparr>)"
    and "decode_int32 rt \<lparr>remaining = body @ ?rest, dctx = ?c\<rparr> = Ok (raw, \<lparr>remaining = ?rest, dctx = ?c\<rparr>)"
    unfolding puts_def by blast
  moreover have "roomy rt ?c (Suc 0)"
    using fresh_roomy [OF rt assms(2)] by simp
  with rt obtain c' where "register_unknown_field rt \<lparr>remaining = ?rest, dctx = ?c\<rparr> =
      Ok ((), \<lparr>remaining = ?rest, dctx = c'\<rparr>)"
    unfolding buffa_ok_def context_laws_def by blast
  ultimately have "run_ConnectResponse rt ?D \<lparr>remaining = put_int32_field rt 1 raw @ ?rest, dctx = ?c\<rparr> =
      run_ConnectResponse rt ?m1 \<lparr>remaining = ?rest, dctx = c'\<rparr>"
    by (intro run_turn [OF rt _ tag])
      (auto simp: merge_field_ConnectResponse_def rt dbind_def raw ConnectResponse_default_def)
  then show ?thesis
    by (simp add: decode_ConnectResponse_def decode_typed_def ConnectResponse_default_def
        codec_last [OF rt] e run_typed_Nil [OF rt])
qed

section \<open>Messages on the wire\<close>

text \<open>
  What the rest of the program relies on: a message that is sent as a frame is the message that
  is received.
\<close>

locale message_codec =
  fixes ok :: "'m \<Rightarrow> bool"
    and encode :: "'m \<Rightarrow> bytes"
    and decode :: "bytes \<Rightarrow> DecodeError + 'm"
  assumes decode_encode: "ok m \<Longrightarrow> decode (encode m) = Ok m"
begin

lemma encode_inject: "ok m \<Longrightarrow> ok m' \<Longrightarrow> encode m = encode m' \<longleftrightarrow> m = m'"
  by (metis Inr_inject decode_encode)

lemma exchange:
  assumes "ok m" and "proto_frame_ok cap (encode m)"
  shows "\<exists>bs. read_proto_frame (feed (proto_frame (encode m)) r) cap = Ok (bs, r) \<and> decode bs = Ok m"
  using assms by (simp add: proto.dec_enc decode_encode)

lemma stream:
  assumes "list_all ok ms" and "list_all (\<lambda>m. proto_frame_ok cap (encode m)) ms"
  shows "\<exists>bss. read_frames (\<lambda>r. read_proto_frame r cap) (length ms)
      (feed (concat (map (\<lambda>m. proto_frame (encode m)) ms)) r) = Ok (bss, r) \<and> map decode bss = map Ok ms"
proof -
  have "list_all (proto_frame_ok cap) (map encode ms)"
    using assms(2) by (simp add: list.pred_map comp_def)
  from proto.read_frames_enc [OF this, of r] assms(1) show ?thesis
    by (auto simp: comp_def list_all_iff decode_encode)
qed

end

interpretation any_message: message_codec "\<lambda>m. buffa_ok rt \<and> wf_message rt m \<and> default_message m = d"
  "write_to_message rt" "decode_same rt d" for rt d
proof
  fix m
  assume ok: "buffa_ok rt \<and> wf_message rt m \<and> default_message m = d"
  then have "decode_same rt d = decode_same rt m"
    by (cases m) (auto simp: fun_eq_iff)
  with ok show "decode_same rt d (write_to_message rt m) = Ok m"
    by (simp add: decode_same_encode)
qed

interpretation connect_request: message_codec "\<lambda>m. buffa_ok rt \<and> wf_ConnectRequest rt m"
  "write_to_ConnectRequest rt" "decode_ConnectRequest rt" for rt
  by unfold_locales (auto simp: decode_write)

interpretation connect_response: message_codec "\<lambda>m. buffa_ok rt \<and> wf_ConnectResponse rt m"
  "write_to_ConnectResponse rt" "decode_ConnectResponse rt" for rt
  by unfold_locales (auto simp: decode_write)

interpretation sequence_header: message_codec "\<lambda>m. buffa_ok rt \<and> wf_SequenceHeader rt m"
  "write_to_SequenceHeader rt" "decode_SequenceHeader rt" for rt
  by unfold_locales (auto simp: decode_write)

interpretation catchup_buffer: message_codec
  "\<lambda>m. buffa_ok rt \<and> wf_CatchupBuffer rt m \<and> cost_CatchupBuffer rt m \<le> decode_limit rt"
  "write_to_CatchupBuffer rt" "decode_CatchupBuffer rt" for rt
  by unfold_locales (auto simp: decode_write)

end
