(* ===== verification/Wire.thy ===== *)
theory Wire
  imports Buffa "HOL-Library.List_Lexorder" "HOL-Library.Char_ord"
begin

text \<open>
  A runtime that satisfies \<open>buffa_ok\<close>: the protobuf wire format written out (base 128 varints, tags,
  length delimited fields, map entries as nested messages), with a decode context that counts
  units. It shows that the laws of \<open>Buffa\<close> are consistent and gives the concrete values on which
  codec statements are evaluated; nothing in the model of the program depends on it.
\<close>

section \<open>Varints and fields\<close>

fun put_varint :: "nat \<Rightarrow> bytes" where
  "put_varint n = (if n < 128 then [word_of_nat n] else word_of_nat (n mod 128 + 128) # put_varint (n div 128))"

declare put_varint.simps [simp del]

lemma put_varint_small: "n < 128 \<Longrightarrow> put_varint n = [word_of_nat n]"
  and put_varint_large: "128 \<le> n \<Longrightarrow> put_varint n = word_of_nat (n mod 128 + 128) # put_varint (n div 128)"
  by (simp_all add: put_varint.simps)

fun get_varint :: "bytes \<Rightarrow> (nat \<times> bytes) option" where
  "get_varint [] = None"
| "get_varint (b # bs) =
     (if unat b < 128 then Some (unat b, bs)
      else
        (case get_varint bs of
           None \<Rightarrow> None
         | Some (v, rest) \<Rightarrow> Some (unat b - 128 + 128 * v, rest)))"

lemma get_put_varint [simp]: "get_varint (put_varint n @ rest) = Some (n, rest)"
proof (induction n rule: put_varint.induct)
  case (1 n)
  have "unat (word_of_nat (n mod 128 + 128) :: u8) = n mod 128 + 128"
    unfolding unat_word_of_nat8 using mod_less_divisor [of 128 n] by simp
  with 1 show ?case
    by (cases "n < 128") (simp_all add: put_varint.simps [of n] unat_word_of_nat8 del: of_nat_add)
qed

lemma length_put_varint: "n < 128 ^ Suc k \<Longrightarrow> length (put_varint n) \<le> Suc k"
proof (induction k arbitrary: n)
  case (Suc k)
  have "n div 128 < 128 ^ Suc k"
    using Suc.prems by (simp add: less_mult_imp_div_less mult.commute)
  from Suc.IH [OF this] show ?case
    by (simp add: put_varint.simps [of n])
qed (simp add: put_varint.simps)

lemma length_put_varint64: "length (put_varint (unat (w :: 64 word))) \<le> 10"
proof -
  have "unat w < 2 ^ 64" using unsigned_less [of w] by simp
  also have "(2 :: nat) ^ 64 < 128 ^ Suc 9" by simp
  finally show ?thesis using length_put_varint [of "unat w" 9] by simp
qed

lemma put_varint_not_Nil [simp]: "put_varint n \<noteq> []"
  by (simp add: put_varint.simps [of n])

definition wire_code :: "WireType \<Rightarrow> nat" where
  "wire_code wt = (case wt of Varint \<Rightarrow> 0 | Fixed64 \<Rightarrow> 1 | LengthDelimited \<Rightarrow> 2 | StartGroup \<Rightarrow> 3
     | EndGroup \<Rightarrow> 4 | Fixed32 \<Rightarrow> 5)"

definition wire_of_code :: "nat \<Rightarrow> WireType option" where
  "wire_of_code n = (if n = 0 then Some Varint else if n = 1 then Some Fixed64
     else if n = 2 then Some LengthDelimited else if n = 3 then Some StartGroup
     else if n = 4 then Some EndGroup else if n = 5 then Some Fixed32 else None)"

definition put_tag :: "nat \<Rightarrow> WireType \<Rightarrow> bytes" where
  "put_tag n wt = put_varint (8 * n + wire_code wt)"

definition get_tag :: "Tag dec" where
  "get_tag b =
     (case get_varint (remaining b) of
        None \<Rightarrow> Err (DecodeError 0)
      | Some (v, rest) \<Rightarrow>
          (case wire_of_code (v mod 8) of
             None \<Rightarrow> Err (DecodeError 1)
           | Some wt \<Rightarrow> if v div 8 = 0 then Err (DecodeError 2)
               else Ok (\<lparr>field_number = v div 8, wire_type = wt\<rparr>, b\<lparr>remaining := rest\<rparr>)))"

lemma wire_of_code_code [simp]: "wire_of_code (wire_code wt) = Some wt" and wire_code_less: "wire_code wt < 8"
  by (cases wt; simp add: wire_code_def wire_of_code_def)+

lemma get_put_tag [simp]:
  "small_field n \<Longrightarrow> get_tag \<lparr>remaining = put_tag n wt @ rest, dctx = c\<rparr> =
    Ok (\<lparr>field_number = n, wire_type = wt\<rparr>, \<lparr>remaining = rest, dctx = c\<rparr>)"
proof -
  assume "small_field n"
  moreover have "(8 * n + wire_code wt) mod 8 = wire_code wt" "(8 * n + wire_code wt) div 8 = n"
    using wire_code_less [of wt] by (simp_all add: mod_less div_less)
  ultimately show ?thesis
    by (simp add: get_tag_def put_tag_def small_field_def)
qed

lemma length_put_tag [simp]: "small_field n \<Longrightarrow> length (put_tag n wt) = 1"
  by (cases wt) (auto simp: put_tag_def small_field_def wire_code_def put_varint.simps)

definition get_uint :: "nat dec" where
  "get_uint b =
     (case get_varint (remaining b) of
        None \<Rightarrow> Err (DecodeError 0)
      | Some (v, rest) \<Rightarrow> Ok (v, b\<lparr>remaining := rest\<rparr>))"

lemma get_uint_put [simp]:
  "get_uint \<lparr>remaining = put_varint n @ rest, dctx = c\<rparr> = Ok (n, \<lparr>remaining = rest, dctx = c\<rparr>)"
  by (simp add: get_uint_def)

definition put_delimited :: "bytes \<Rightarrow> bytes" where
  "put_delimited bs = put_varint (length bs) @ bs"

definition get_delimited :: "bytes dec" where
  "get_delimited = dbind get_uint (\<lambda>n b.
     if length (remaining b) < n then Err (DecodeError 3)
     else Ok (take n (remaining b), b\<lparr>remaining := drop n (remaining b)\<rparr>))"

lemma get_put_delimited [simp]:
  "get_delimited \<lparr>remaining = put_delimited bs @ rest, dctx = c\<rparr> = Ok (bs, \<lparr>remaining = rest, dctx = c\<rparr>)"
  by (simp add: get_delimited_def put_delimited_def dbind_def)

definition get_text :: "string dec" where
  "get_text = dbind get_delimited (\<lambda>bs.
     if utf8_valid (bytes_str bs) then dret (bytes_str bs) else (\<lambda>b. Err (DecodeError 4)))"

lemma get_put_text [simp]:
  "utf8_valid s \<Longrightarrow> get_text \<lparr>remaining = put_delimited (str_bytes s) @ rest, dctx = c\<rparr> =
    Ok (s, \<lparr>remaining = rest, dctx = c\<rparr>)"
  by (simp add: get_text_def dbind_def)

section \<open>Maps, nested messages and the decode loop\<close>

definition put_entry :: "nat \<Rightarrow> string \<Rightarrow> string \<Rightarrow> bytes" where
  "put_entry n k v = put_tag n LengthDelimited @ put_delimited
     (put_tag 1 LengthDelimited @ put_delimited (str_bytes k) @
      put_tag 2 LengthDelimited @ put_delimited (str_bytes v))"

definition put_map :: "(string \<rightharpoonup> string) \<Rightarrow> nat \<Rightarrow> bytes" where
  "put_map e n = concat (map (\<lambda>k. put_entry n k (the (e k))) (sorted_list_of_set (dom e)))"

definition spend :: "nat \<Rightarrow> unit dec" where
  "spend a b = (if a \<le> dctx b then Ok ((), b\<lparr>dctx := dctx b - a\<rparr>) else Err (DecodeError 5))"

definition get_entry :: "(string \<rightharpoonup> string) \<Rightarrow> (string \<rightharpoonup> string) dec" where
  "get_entry m = dbind (spend 1) (\<lambda>_. dbind get_delimited (\<lambda>bs b.
     case dbind get_tag (\<lambda>_. dbind get_text (\<lambda>k. dbind get_tag (\<lambda>_. dmap (\<lambda>v. (k, v)) get_text)))
         \<lparr>remaining = bs, dctx = 0\<rparr> of
       Inl e \<Rightarrow> Err e
     | Inr ((k, v), _) \<Rightarrow> Ok (m(k \<mapsto> v), b)))"

lemma get_put_entry [simp]:
  assumes "utf8_valid k" and "utf8_valid v" and "1 \<le> c"
  shows "get_entry m \<lparr>remaining = put_delimited
     (put_tag 1 LengthDelimited @ put_delimited (str_bytes k) @
      put_tag 2 LengthDelimited @ put_delimited (str_bytes v)) @ rest, dctx = c\<rparr> =
    Ok (m(k \<mapsto> v), \<lparr>remaining = rest, dctx = c - 1\<rparr>)"
proof -
  have *: "get_text \<lparr>remaining = put_delimited (str_bytes v), dctx = 0\<rparr> = Ok (v, \<lparr>remaining = [], dctx = 0\<rparr>)"
    using get_put_text [OF assms(2), of "[]" 0] by simp
  show ?thesis
    using assms by (simp add: get_entry_def dbind_def dmap_def spend_def small_field_def *)
qed

function get_all :: "(message \<Rightarrow> Tag \<Rightarrow> message dec) \<Rightarrow> message \<Rightarrow> message dec" where
  "get_all mf m b =
     (if remaining b = [] then Ok (m, b)
      else
        (case get_tag b of
           Inl e \<Rightarrow> Err e
         | Inr (t, b1) \<Rightarrow>
             (case mf m t b1 of
                Inl e \<Rightarrow> Err e
              | Inr (m', b2) \<Rightarrow>
                  if length (remaining b2) < length (remaining b) then get_all mf m' b2
                  else Err (DecodeError 6))))"
  by pat_completeness auto
termination by (relation "measure (\<lambda>(mf, m, b). length (remaining b))") auto

declare get_all.simps [simp del]

definition get_nested :: "(message \<Rightarrow> Tag \<Rightarrow> message dec) \<Rightarrow> message \<Rightarrow> message dec" where
  "get_nested mf m = dbind (spend 1) (\<lambda>_. dbind get_delimited (\<lambda>bs b.
     case get_all mf m \<lparr>remaining = bs, dctx = dctx b\<rparr> of
       Inl e \<Rightarrow> Err e
     | Inr (m', b') \<Rightarrow> Ok (m', b\<lparr>dctx := dctx b'\<rparr>)))"

definition get_unknown :: "Tag \<Rightarrow> UnknownField dec" where
  "get_unknown t =
     (case wire_type t of
        Varint \<Rightarrow> dmap (\<lambda>v. UnknownField (field_number t) (UVarint (word_of_nat v))) get_uint
      | LengthDelimited \<Rightarrow> dmap (\<lambda>bs. UnknownField (field_number t) (UOther bs)) get_delimited
      | _ \<Rightarrow> (\<lambda>b. Err (DecodeError 7)))"

fun put_unknown :: "UnknownField \<Rightarrow> bytes" where
  "put_unknown (UnknownField n (UVarint v)) = put_tag n Varint @ put_varint (unat v)"
| "put_unknown (UnknownField n (UOther bs)) = put_tag n LengthDelimited @ put_delimited bs"

section \<open>The runtime\<close>

definition wire_limit :: nat where
  "wire_limit = 2 ^ 30"

definition wire :: buffa where
  "wire = \<lparr>
     put_int32_field = \<lambda>n v. put_tag n Varint @ put_varint (unat (scast v :: 64 word)),
     put_int64_field = \<lambda>n v. put_tag n Varint @ put_varint (unat v),
     put_bool_field = \<lambda>n v. put_tag n Varint @ put_varint (if v then 1 else 0),
     put_string_field = \<lambda>n s. put_tag n LengthDelimited @ put_delimited (str_bytes s),
     put_shared_bytes_field = \<lambda>n bs. put_tag n LengthDelimited @ put_delimited bs,
     put_len_delimited_header = \<lambda>n k. put_tag n LengthDelimited @ put_varint k,
     unknown_write_to = \<lambda>us. concat (map put_unknown us),
     map_write_field = put_map,
     int32_encoded_len = \<lambda>v. length (put_varint (unat (scast v :: 64 word))),
     int64_encoded_len = \<lambda>v. length (put_varint (unat v)),
     BOOL_ENCODED_LEN = 1,
     string_encoded_len = \<lambda>s. length (put_delimited (str_bytes s)),
     bytes_encoded_len = \<lambda>bs. length (put_delimited bs),
     varint_len = \<lambda>k. length (put_varint k),
     unknown_encoded_len = \<lambda>us. sum_list (map (\<lambda>u. length (put_unknown u)) us),
     map_field_len = \<lambda>e t. length (put_map e 1),
     saturate_size = \<lambda>k. min k (2 ^ 32 - 1),
     decode_tag = get_tag,
     check_wire_type = \<lambda>t wt. if wire_type t = wt then dret () else (\<lambda>b. Err (DecodeError 8)),
     decode_int32 = dmap word_of_nat get_uint,
     decode_int64 = dmap word_of_nat get_uint,
     decode_bool = dmap (\<lambda>v. v \<noteq> 0) get_uint,
     decode_string = get_text,
     decode_bytes = get_delimited,
     merge_string = \<lambda>old. get_text,
     merge_bytes = \<lambda>old. get_delimited,
     decode_unknown_field = get_unknown,
     map_merge_entry = get_entry,
     register_unknown_field = spend 1,
     register_element_memory = spend,
     element_footprint_bytes = length,
     element_footprint_string = length,
     element_footprint_source_request = \<lambda>m. 1,
     merge_length_delimited = get_nested,
     decode_all = get_all,
     fresh_ctx = wire_limit,
     map_entry_cost = \<lambda>k v. 1,
     roomy = \<lambda>c k. k \<le> c,
     decode_limit = wire_limit\<rparr>"

lemma puts_wireI:
  assumes "small_field n" and "\<And>rest c. op \<lparr>remaining = body @ rest, dctx = c\<rparr> = Ok (v, \<lparr>remaining = rest, dctx = c\<rparr>)"
  shows "puts wire (put_tag n wt @ body) n wt op v"
  using assms unfolding puts_def
  by (intro allI exI [of _ body]) (simp add: wire_def)

lemma dmap_get_uint [simp]:
  "dmap f get_uint \<lparr>remaining = put_varint n @ rest, dctx = c\<rparr> = Ok (f n, \<lparr>remaining = rest, dctx = c\<rparr>)"
  by (simp add: dmap_def dbind_def)

lemma ucast_scast [simp]: "ucast (scast (v :: 32 word) :: 64 word) = v"
  by (rule bit_word_eqI) (simp add: bit_unsigned_iff bit_signed_iff)

lemma wire_fields:
  "decode_tag wire = get_tag" "decode_all wire = get_all" "merge_length_delimited wire = get_nested"
  "map_merge_entry wire = get_entry" "map_write_field wire = put_map" "roomy wire c k \<longleftrightarrow> k \<le> c"
  "map_entry_cost wire s s2 = 1" "register_element_memory wire = spend" "register_unknown_field wire = spend 1"
  "put_len_delimited_header wire n j = put_tag n LengthDelimited @ put_varint j"
  "put_int32_field wire n i = put_tag n Varint @ put_varint (unat (scast i :: 64 word))"
  "put_int64_field wire n l = put_tag n Varint @ put_varint (unat l)"
  "put_bool_field wire n t = put_tag n Varint @ put_varint (if t then 1 else 0)"
  "put_string_field wire n s = put_tag n LengthDelimited @ put_delimited (str_bytes s)"
  "put_shared_bytes_field wire n bs = put_tag n LengthDelimited @ put_delimited bs"
  "decode_int32 wire = dmap word_of_nat get_uint" "decode_int64 wire = dmap word_of_nat get_uint"
  "decode_bool wire = dmap (\<lambda>v. v \<noteq> 0) get_uint" "decode_string wire = get_text"
  "decode_bytes wire = get_delimited" "merge_string wire s = get_text" "merge_bytes wire bs = get_delimited"
  "element_footprint_bytes wire = length" "element_footprint_string wire = length"
  "element_footprint_source_request wire q = 1"
  "fresh_ctx wire = wire_limit" "decode_limit wire = wire_limit"
  by (simp_all add: wire_def)

lemma wire_limits: "fresh_ctx wire = wire_limit" "decode_limit wire = wire_limit"
  by (simp_all add: wire_def)

lemma wire_scalar_laws: "scalar_laws wire"
  unfolding scalar_laws_def
proof (intro conjI allI impI)
  show "check_wire_type wire \<lparr>field_number = n, wire_type = wt\<rparr> wt = dret ()" for n wt
    by (simp add: wire_def)
  show "unknown_write_to wire [] = []"
    by (simp add: wire_def)
qed (auto simp: wire_fields wire_text_def intro!: puts_wireI)

lemma length_put_map: "small_field n \<Longrightarrow> length (put_map e n) = length (put_map e 1)"
  by (simp add: put_map_def length_concat comp_def put_entry_def small_field_def)

lemma wire_size_laws: "size_laws wire"
  unfolding size_laws_def
  by (intro conjI; (intro allI)?) (simp_all add: wire_def length_put_varint64 length_concat comp_def put_varint.simps [of "Suc 0"] put_varint.simps [of 0]
      length_put_map)

lemma wire_context_laws: "context_laws wire"
  unfolding context_laws_def wire_fields by (auto simp: spend_def)

lemma wire_loop_laws: "loop_laws wire"
  unfolding loop_laws_def wire_fields by (auto simp: get_all.simps)

lemma wire_nested_laws: "nested_laws wire"
  unfolding nested_laws_def wire_fields
proof (intro allI impI exI [of _ "put_varint (length _)"] conjI)
  fix n rest c k mf m m' d' and p :: bytes
  assume n: "small_field n"
  show "length (put_varint (length p)) < length (put_tag n LengthDelimited @ put_varint (length p))"
    using n by simp
  show "get_tag \<lparr>remaining = (put_tag n LengthDelimited @ put_varint (length p)) @ p @ rest, dctx = c\<rparr> =
      Ok (\<lparr>field_number = n, wire_type = LengthDelimited\<rparr>, \<lparr>remaining = put_varint (length p) @ p @ rest, dctx = c\<rparr>)"
    using n by simp
  assume c: "Suc k \<le> c"
  then have "get_nested mf m \<lparr>remaining = put_varint (length p) @ p @ rest, dctx = c\<rparr> =
      Ok (m', \<lparr>remaining = rest, dctx = d'\<rparr>)"
    if "get_all mf m \<lparr>remaining = p, dctx = c - 1\<rparr> = Ok (m', \<lparr>remaining = [], dctx = d'\<rparr>)" for mf m m' d'
    using that get_put_delimited [of p rest] by (simp add: get_nested_def dbind_def spend_def put_delimited_def)
  with c show "\<exists>d\<ge>k. \<forall>mf m m' d'. get_all mf m \<lparr>remaining = p, dctx = d\<rparr> = Ok (m', \<lparr>remaining = [], dctx = d'\<rparr>) \<longrightarrow>
      (\<exists>c'. (\<forall>j. j \<le> d' \<longrightarrow> j \<le> c') \<and>
        get_nested mf m \<lparr>remaining = put_varint (length p) @ p @ rest, dctx = c\<rparr> =
          Ok (m', \<lparr>remaining = rest, dctx = c'\<rparr>))"
    by (intro exI [of _ "c - 1"]) auto
qed

lemma wire_map_laws: "map_laws wire"
  unfolding map_laws_def wire_fields
proof (intro exI [of _ put_entry] allI impI conjI)
  fix n :: nat and e :: "string \<rightharpoonup> string"
  assume "finite (dom e)"
  let ?kvs = "map (\<lambda>k. (k, the (e k))) (sorted_list_of_set (dom e))"
  have "map_of ?kvs k = e k" for k
    using \<open>finite (dom e)\<close> by (simp add: map_of_map_keys dom_def)
  then show "\<exists>kvs. distinct (map fst kvs) \<and> map_of kvs = e \<and>
      put_map e n = concat (map (\<lambda>(k, v). put_entry n k v) kvs)"
    using \<open>finite (dom e)\<close> by (intro exI [of _ ?kvs]) (auto simp: put_map_def comp_def)
next
  fix n :: nat and k v rest and acc :: "string \<rightharpoonup> string" and c j :: nat
  assume "small_field n" and "wire_text k" and "wire_text v" and "1 + j \<le> c"
  then show "\<exists>body c'. length body < length (put_entry n k v) \<and> j \<le> c' \<and>
      get_tag \<lparr>remaining = put_entry n k v @ rest, dctx = c\<rparr> =
        Ok (\<lparr>field_number = n, wire_type = LengthDelimited\<rparr>, \<lparr>remaining = body @ rest, dctx = c\<rparr>) \<and>
      get_entry acc \<lparr>remaining = body @ rest, dctx = c\<rparr> =
        Ok (acc(k \<mapsto> v), \<lparr>remaining = rest, dctx = c'\<rparr>)"
    by (intro exI [of _ "put_delimited
     (put_tag 1 LengthDelimited @ put_delimited (str_bytes k) @
      put_tag 2 LengthDelimited @ put_delimited (str_bytes v))"] exI [of _ "c - 1"])
      (use get_put_entry [of k v c acc rest] in \<open>auto simp: put_entry_def wire_text_def\<close>)
qed

lemma buffa_ok_wire: "buffa_ok wire"
  by (simp add: buffa_ok_def wire_scalar_laws wire_size_laws wire_context_laws wire_loop_laws
      wire_nested_laws wire_map_laws)

end
