(* ===== verification/Codec_Spec.thy ===== *)
theory Codec_Spec
  imports Codec Wire
begin

text \<open>
  The properties of the protobuf codec, with their instances on the runtime of \<open>Wire\<close>.
\<close>

text \<open>The 2 GiB limit of protobuf, above which the encode entry points of the runtime reject a message.\<close>

definition MAX_MESSAGE_BYTES :: nat where
  "MAX_MESSAGE_BYTES = 2 ^ 31 - 1"

text \<open>C32. Message round trip: every well-formed value of the seventeen message types that the encode entry
  points admit, so one of at most \<open>MAX_MESSAGE_BYTES\<close> bytes, nested endpoints, repeated fields and the
  environment map included, decodes from the bytes that \<^verbatim>\<open>write_to\<close> makes of it to itself, and the size
  \<^verbatim>\<open>compute_size\<close> gives for it passes the check of the entry points.\<close>

theorem message_roundtrip:
  assumes "buffa_ok rt" and "wf_message rt m" and "length (write_to_message rt m) \<le> MAX_MESSAGE_BYTES"
  shows "decode_same rt m (write_to_message rt m) = Ok m \<and> encoded_len rt m \<le> MAX_MESSAGE_BYTES"
proof -
  have "length (write_to_message rt m) < 2 ^ 32" using assms(3) by (simp add: MAX_MESSAGE_BYTES_def)
  from encoded_len_correct [OF assms(1,2) this] decode_same_encode [OF assms(1,2)] assms(3) show ?thesis by simp
qed

definition sample_payload :: InitialPayload where
  "sample_payload = InitialPayload_default
     \<lparr>InitialPayload_jumphost := Some False,
      InitialPayload_reversetunnels :=
        [PortForwardSourceRequest_default
          \<lparr>PortForwardSourceRequest_source :=
             Some (SocketEndpoint_default\<lparr>SocketEndpoint_port := Some 8080\<rparr>),
           PortForwardSourceRequest_environmentvariable := Some ''SSH_AUTH_SOCK''\<rparr>],
      InitialPayload_environmentvariables := [''TERM'' \<mapsto> ''xterm'']\<rparr>"

lemmas sample_unfolds =
  sample_payload_def InitialPayload_default_def PortForwardSourceRequest_default_def SocketEndpoint_default_def
  wf_InitialPayload_def wf_nested_PortForwardSourceRequest_def wf_PortForwardSourceRequest_def
  wf_nested_SocketEndpoint_def wf_SocketEndpoint_def cost_InitialPayload_def cost_PortForwardSourceRequest_def

lemma wf_sample_payload: "wf_message wire (Msg_InitialPayload sample_payload)"
proof -
  have texts: "wire_text ''SSH_AUTH_SOCK''" "entry_ok (''TERM'', ''xterm'')"
    by (simp_all add: wire_text_def entry_ok_def utf8_valid_def)
  have unknown: "unknown_write_to wire [] = []"
    by (rule unknown_write_to_Nil [OF buffa_ok_wire])
  have "unat (scast (8080 :: 32 word) :: 64 word) = 8080"
    by simp
  then have endpoint: "write_to_SocketEndpoint wire
      \<lparr>SocketEndpoint_name = None, SocketEndpoint_port = Some 8080, SocketEndpoint_unknown_fields = []\<rparr> =
      put_tag 2 Varint @ [144, 63]"
    by (simp add: write_to_SocketEndpoint_def wire_fields unknown put_varint_small put_varint_large)
  have "compute_size_SocketEndpoint wire
      \<lparr>SocketEndpoint_name = None, SocketEndpoint_port = Some 8080, SocketEndpoint_unknown_fields = []\<rparr> = 3"
    by (subst compute_size_SocketEndpoint [OF buffa_ok_wire]) (simp_all add: endpoint small_field_def)
  with endpoint unknown texts show ?thesis
    by (simp add: sample_unfolds write_to_PortForwardSourceRequest_def wire_fields small_field_def put_varint_small
        put_delimited_def wire_limit_def)
qed

lemma sample_payload_size: "length (write_to_message wire (Msg_InitialPayload sample_payload)) \<le> MAX_MESSAGE_BYTES"
proof -
  have sat: "saturate_size wire k \<le> 4294967295" for k by (simp add: wire_def)
  have v: "length (put_varint n) \<le> 5" if "n \<le> 4294967295" for n
    using length_put_varint [of n 4] that by simp
  have sizes: "length (put_varint (compute_size_PortForwardSourceRequest wire r)) \<le> 5" "length (put_varint (compute_size_SocketEndpoint wire e)) \<le> 5"
    "length (put_varint 8080) \<le> 5" for r e
    by (rule v; simp only: compute_size_PortForwardSourceRequest_def compute_size_SocketEndpoint_def sat; simp)+
  have map: "length (put_map [''TERM'' \<mapsto> ''xterm''] 3) \<le> 100"
    by (simp add: put_map_def put_entry_def small_field_def put_varint_small put_delimited_def)
  have "length (put_varint (compute_size_PortForwardSourceRequest wire r)) + (length (put_varint (compute_size_SocketEndpoint wire e)) +
      (length (put_varint 8080) + length (put_map [''TERM'' \<mapsto> ''xterm''] 3))) \<le> 2147483627" for r e
    using sizes(1) [of r] sizes(2) [of e] sizes(3) map by simp
  then show ?thesis
    by (simp add: sample_unfolds write_to_InitialPayload_def write_to_PortForwardSourceRequest_def write_to_SocketEndpoint_def
        wire_fields small_field_def put_varint_small put_delimited_def unknown_write_to_Nil [OF buffa_ok_wire] MAX_MESSAGE_BYTES_def)
qed

theorem message_roundtrip_witness:
  "decode_same wire (Msg_InitialPayload sample_payload) (write_to_message wire (Msg_InitialPayload sample_payload)) =
    Ok (Msg_InitialPayload sample_payload)"
  using message_roundtrip [OF buffa_ok_wire wf_sample_payload sample_payload_size] by blast



text \<open>Closed enumerations: a connect response whose status number the schema does not know is
  accepted, without a status, and the number is kept in the unknown fields; it is never mistaken
  for one of the four known states.\<close>

theorem unknown_status_preserved:
  assumes "buffa_ok rt" and "1 \<le> decode_limit rt" and "ConnectStatus_from_i32 raw = None"
    and "pred_option wire_text e"
  shows "decode_ConnectResponse rt
      (put_int32_field rt 1 raw @ (case e of None \<Rightarrow> [] | Some v \<Rightarrow> put_string_field rt 2 v)) =
    Ok \<lparr>ConnectResponse_status = None, ConnectResponse_error = e,
        ConnectResponse_unknown_fields = [UnknownField 1 (UVarint (scast raw))]\<rparr>"
  using assms by (rule decode_ConnectResponse_unknown_status)

theorem unknown_status_preserved_witness:
  "decode_ConnectResponse wire (put_int32_field wire 1 9) =
    Ok \<lparr>ConnectResponse_status = None, ConnectResponse_error = None,
        ConnectResponse_unknown_fields = [UnknownField 1 (UVarint 9)]\<rparr>"
  using unknown_status_preserved [OF buffa_ok_wire, of 9 None]
  by (simp add: wire_limits wire_limit_def ConnectStatus_from_i32_def)

end
