(* ===== verification/Builders.thy ===== *)
theory Builders
  imports Codec_Spec
begin

text \<open>
  The rest of the public face of the messages of \<^verbatim>\<open>crates/et-proto/src/gen/et.rs\<close>: the consuming
  \<^verbatim>\<open>with_*\<close> setters, the unknown fields behind \<^verbatim>\<open>ExtensionSet\<close>, the names of \<^verbatim>\<open>MessageName\<close>, and the
  defaults of the enumerations. The setters keep well-formedness, so what they build decodes to
  itself; the unknown fields are the tail of an encoding; the type URLs tell the messages apart.
\<close>

section \<open>Setters\<close>

definition ConnectRequest_with_clientId :: "string \<Rightarrow> ConnectRequest \<Rightarrow> ConnectRequest" where
  "ConnectRequest_with_clientId v m = m\<lparr>ConnectRequest_clientId := Some v\<rparr>"

definition ConnectRequest_with_version :: "i32 \<Rightarrow> ConnectRequest \<Rightarrow> ConnectRequest" where
  "ConnectRequest_with_version v m = m\<lparr>ConnectRequest_version := Some v\<rparr>"

definition ConnectResponse_with_status :: "ConnectStatus \<Rightarrow> ConnectResponse \<Rightarrow> ConnectResponse" where
  "ConnectResponse_with_status v m = m\<lparr>ConnectResponse_status := Some v\<rparr>"

definition ConnectResponse_with_error :: "string \<Rightarrow> ConnectResponse \<Rightarrow> ConnectResponse" where
  "ConnectResponse_with_error v m = m\<lparr>ConnectResponse_error := Some v\<rparr>"

definition SequenceHeader_with_sequenceNumber :: "i32 \<Rightarrow> SequenceHeader \<Rightarrow> SequenceHeader" where
  "SequenceHeader_with_sequenceNumber v m = m\<lparr>SequenceHeader_sequenceNumber := Some v\<rparr>"

definition SocketEndpoint_with_name :: "string \<Rightarrow> SocketEndpoint \<Rightarrow> SocketEndpoint" where
  "SocketEndpoint_with_name v m = m\<lparr>SocketEndpoint_name := Some v\<rparr>"

definition SocketEndpoint_with_port :: "i32 \<Rightarrow> SocketEndpoint \<Rightarrow> SocketEndpoint" where
  "SocketEndpoint_with_port v m = m\<lparr>SocketEndpoint_port := Some v\<rparr>"

definition TerminalBuffer_with_buffer :: "bytes \<Rightarrow> TerminalBuffer \<Rightarrow> TerminalBuffer" where
  "TerminalBuffer_with_buffer v m = m\<lparr>TerminalBuffer_buffer := Some v\<rparr>"

definition TerminalInfo_with_id :: "string \<Rightarrow> TerminalInfo \<Rightarrow> TerminalInfo" where
  "TerminalInfo_with_id v m = m\<lparr>TerminalInfo_id := Some v\<rparr>"

definition TerminalInfo_with_row :: "i32 \<Rightarrow> TerminalInfo \<Rightarrow> TerminalInfo" where
  "TerminalInfo_with_row v m = m\<lparr>TerminalInfo_row := Some v\<rparr>"

definition TerminalInfo_with_column :: "i32 \<Rightarrow> TerminalInfo \<Rightarrow> TerminalInfo" where
  "TerminalInfo_with_column v m = m\<lparr>TerminalInfo_column := Some v\<rparr>"

definition TerminalInfo_with_width :: "i32 \<Rightarrow> TerminalInfo \<Rightarrow> TerminalInfo" where
  "TerminalInfo_with_width v m = m\<lparr>TerminalInfo_width := Some v\<rparr>"

definition TerminalInfo_with_height :: "i32 \<Rightarrow> TerminalInfo \<Rightarrow> TerminalInfo" where
  "TerminalInfo_with_height v m = m\<lparr>TerminalInfo_height := Some v\<rparr>"

definition PortForwardSourceRequest_with_environmentvariable :: "string \<Rightarrow> PortForwardSourceRequest \<Rightarrow> PortForwardSourceRequest" where
  "PortForwardSourceRequest_with_environmentvariable v m = m\<lparr>PortForwardSourceRequest_environmentvariable := Some v\<rparr>"

definition PortForwardSourceResponse_with_error :: "string \<Rightarrow> PortForwardSourceResponse \<Rightarrow> PortForwardSourceResponse" where
  "PortForwardSourceResponse_with_error v m = m\<lparr>PortForwardSourceResponse_error := Some v\<rparr>"

definition PortForwardDestinationRequest_with_fd :: "i32 \<Rightarrow> PortForwardDestinationRequest \<Rightarrow> PortForwardDestinationRequest" where
  "PortForwardDestinationRequest_with_fd v m = m\<lparr>PortForwardDestinationRequest_fd := Some v\<rparr>"

definition PortForwardDestinationResponse_with_clientfd :: "i32 \<Rightarrow> PortForwardDestinationResponse \<Rightarrow> PortForwardDestinationResponse" where
  "PortForwardDestinationResponse_with_clientfd v m = m\<lparr>PortForwardDestinationResponse_clientfd := Some v\<rparr>"

definition PortForwardDestinationResponse_with_socketid :: "i32 \<Rightarrow> PortForwardDestinationResponse \<Rightarrow> PortForwardDestinationResponse" where
  "PortForwardDestinationResponse_with_socketid v m = m\<lparr>PortForwardDestinationResponse_socketid := Some v\<rparr>"

definition PortForwardDestinationResponse_with_error :: "string \<Rightarrow> PortForwardDestinationResponse \<Rightarrow> PortForwardDestinationResponse" where
  "PortForwardDestinationResponse_with_error v m = m\<lparr>PortForwardDestinationResponse_error := Some v\<rparr>"

definition PortForwardData_with_sourcetodestination :: "bool \<Rightarrow> PortForwardData \<Rightarrow> PortForwardData" where
  "PortForwardData_with_sourcetodestination v m = m\<lparr>PortForwardData_sourcetodestination := Some v\<rparr>"

definition PortForwardData_with_socketid :: "i32 \<Rightarrow> PortForwardData \<Rightarrow> PortForwardData" where
  "PortForwardData_with_socketid v m = m\<lparr>PortForwardData_socketid := Some v\<rparr>"

definition PortForwardData_with_buffer :: "bytes \<Rightarrow> PortForwardData \<Rightarrow> PortForwardData" where
  "PortForwardData_with_buffer v m = m\<lparr>PortForwardData_buffer := Some v\<rparr>"

definition PortForwardData_with_error :: "string \<Rightarrow> PortForwardData \<Rightarrow> PortForwardData" where
  "PortForwardData_with_error v m = m\<lparr>PortForwardData_error := Some v\<rparr>"

definition PortForwardData_with_closed :: "bool \<Rightarrow> PortForwardData \<Rightarrow> PortForwardData" where
  "PortForwardData_with_closed v m = m\<lparr>PortForwardData_closed := Some v\<rparr>"

definition InitialPayload_with_jumphost :: "bool \<Rightarrow> InitialPayload \<Rightarrow> InitialPayload" where
  "InitialPayload_with_jumphost v m = m\<lparr>InitialPayload_jumphost := Some v\<rparr>"

definition InitialResponse_with_error :: "string \<Rightarrow> InitialResponse \<Rightarrow> InitialResponse" where
  "InitialResponse_with_error v m = m\<lparr>InitialResponse_error := Some v\<rparr>"

definition ConfigParams_with_vlevel :: "i32 \<Rightarrow> ConfigParams \<Rightarrow> ConfigParams" where
  "ConfigParams_with_vlevel v m = m\<lparr>ConfigParams_vlevel := Some v\<rparr>"

definition ConfigParams_with_minloglevel :: "i32 \<Rightarrow> ConfigParams \<Rightarrow> ConfigParams" where
  "ConfigParams_with_minloglevel v m = m\<lparr>ConfigParams_minloglevel := Some v\<rparr>"

definition TerminalUserInfo_with_id :: "string \<Rightarrow> TerminalUserInfo \<Rightarrow> TerminalUserInfo" where
  "TerminalUserInfo_with_id v m = m\<lparr>TerminalUserInfo_id := Some v\<rparr>"

definition TerminalUserInfo_with_passkey :: "string \<Rightarrow> TerminalUserInfo \<Rightarrow> TerminalUserInfo" where
  "TerminalUserInfo_with_passkey v m = m\<lparr>TerminalUserInfo_passkey := Some v\<rparr>"

definition TerminalUserInfo_with_uid :: "i64 \<Rightarrow> TerminalUserInfo \<Rightarrow> TerminalUserInfo" where
  "TerminalUserInfo_with_uid v m = m\<lparr>TerminalUserInfo_uid := Some v\<rparr>"

definition TerminalUserInfo_with_gid :: "i64 \<Rightarrow> TerminalUserInfo \<Rightarrow> TerminalUserInfo" where
  "TerminalUserInfo_with_gid v m = m\<lparr>TerminalUserInfo_gid := Some v\<rparr>"

definition TerminalUserInfo_with_fd :: "i64 \<Rightarrow> TerminalUserInfo \<Rightarrow> TerminalUserInfo" where
  "TerminalUserInfo_with_fd v m = m\<lparr>TerminalUserInfo_fd := Some v\<rparr>"

section \<open>Unknown fields\<close>

definition ConnectRequest_unknown_fields_mut :: "(UnknownField list \<Rightarrow> UnknownField list) \<Rightarrow> ConnectRequest \<Rightarrow> ConnectRequest" where
  "ConnectRequest_unknown_fields_mut f m = m\<lparr>ConnectRequest_unknown_fields := f (ConnectRequest_unknown_fields m)\<rparr>"

definition ConnectResponse_unknown_fields_mut :: "(UnknownField list \<Rightarrow> UnknownField list) \<Rightarrow> ConnectResponse \<Rightarrow> ConnectResponse" where
  "ConnectResponse_unknown_fields_mut f m = m\<lparr>ConnectResponse_unknown_fields := f (ConnectResponse_unknown_fields m)\<rparr>"

definition SequenceHeader_unknown_fields_mut :: "(UnknownField list \<Rightarrow> UnknownField list) \<Rightarrow> SequenceHeader \<Rightarrow> SequenceHeader" where
  "SequenceHeader_unknown_fields_mut f m = m\<lparr>SequenceHeader_unknown_fields := f (SequenceHeader_unknown_fields m)\<rparr>"

definition CatchupBuffer_unknown_fields_mut :: "(UnknownField list \<Rightarrow> UnknownField list) \<Rightarrow> CatchupBuffer \<Rightarrow> CatchupBuffer" where
  "CatchupBuffer_unknown_fields_mut f m = m\<lparr>CatchupBuffer_unknown_fields := f (CatchupBuffer_unknown_fields m)\<rparr>"

definition SocketEndpoint_unknown_fields_mut :: "(UnknownField list \<Rightarrow> UnknownField list) \<Rightarrow> SocketEndpoint \<Rightarrow> SocketEndpoint" where
  "SocketEndpoint_unknown_fields_mut f m = m\<lparr>SocketEndpoint_unknown_fields := f (SocketEndpoint_unknown_fields m)\<rparr>"

definition TerminalBuffer_unknown_fields_mut :: "(UnknownField list \<Rightarrow> UnknownField list) \<Rightarrow> TerminalBuffer \<Rightarrow> TerminalBuffer" where
  "TerminalBuffer_unknown_fields_mut f m = m\<lparr>TerminalBuffer_unknown_fields := f (TerminalBuffer_unknown_fields m)\<rparr>"

definition TerminalInfo_unknown_fields_mut :: "(UnknownField list \<Rightarrow> UnknownField list) \<Rightarrow> TerminalInfo \<Rightarrow> TerminalInfo" where
  "TerminalInfo_unknown_fields_mut f m = m\<lparr>TerminalInfo_unknown_fields := f (TerminalInfo_unknown_fields m)\<rparr>"

definition PortForwardSourceRequest_unknown_fields_mut :: "(UnknownField list \<Rightarrow> UnknownField list) \<Rightarrow> PortForwardSourceRequest \<Rightarrow> PortForwardSourceRequest" where
  "PortForwardSourceRequest_unknown_fields_mut f m = m\<lparr>PortForwardSourceRequest_unknown_fields := f (PortForwardSourceRequest_unknown_fields m)\<rparr>"

definition PortForwardSourceResponse_unknown_fields_mut :: "(UnknownField list \<Rightarrow> UnknownField list) \<Rightarrow> PortForwardSourceResponse \<Rightarrow> PortForwardSourceResponse" where
  "PortForwardSourceResponse_unknown_fields_mut f m = m\<lparr>PortForwardSourceResponse_unknown_fields := f (PortForwardSourceResponse_unknown_fields m)\<rparr>"

definition PortForwardDestinationRequest_unknown_fields_mut :: "(UnknownField list \<Rightarrow> UnknownField list) \<Rightarrow> PortForwardDestinationRequest \<Rightarrow> PortForwardDestinationRequest" where
  "PortForwardDestinationRequest_unknown_fields_mut f m = m\<lparr>PortForwardDestinationRequest_unknown_fields := f (PortForwardDestinationRequest_unknown_fields m)\<rparr>"

definition PortForwardDestinationResponse_unknown_fields_mut :: "(UnknownField list \<Rightarrow> UnknownField list) \<Rightarrow> PortForwardDestinationResponse \<Rightarrow> PortForwardDestinationResponse" where
  "PortForwardDestinationResponse_unknown_fields_mut f m = m\<lparr>PortForwardDestinationResponse_unknown_fields := f (PortForwardDestinationResponse_unknown_fields m)\<rparr>"

definition PortForwardData_unknown_fields_mut :: "(UnknownField list \<Rightarrow> UnknownField list) \<Rightarrow> PortForwardData \<Rightarrow> PortForwardData" where
  "PortForwardData_unknown_fields_mut f m = m\<lparr>PortForwardData_unknown_fields := f (PortForwardData_unknown_fields m)\<rparr>"

definition InitialPayload_unknown_fields_mut :: "(UnknownField list \<Rightarrow> UnknownField list) \<Rightarrow> InitialPayload \<Rightarrow> InitialPayload" where
  "InitialPayload_unknown_fields_mut f m = m\<lparr>InitialPayload_unknown_fields := f (InitialPayload_unknown_fields m)\<rparr>"

definition InitialResponse_unknown_fields_mut :: "(UnknownField list \<Rightarrow> UnknownField list) \<Rightarrow> InitialResponse \<Rightarrow> InitialResponse" where
  "InitialResponse_unknown_fields_mut f m = m\<lparr>InitialResponse_unknown_fields := f (InitialResponse_unknown_fields m)\<rparr>"

definition ConfigParams_unknown_fields_mut :: "(UnknownField list \<Rightarrow> UnknownField list) \<Rightarrow> ConfigParams \<Rightarrow> ConfigParams" where
  "ConfigParams_unknown_fields_mut f m = m\<lparr>ConfigParams_unknown_fields := f (ConfigParams_unknown_fields m)\<rparr>"

definition TermInit_unknown_fields_mut :: "(UnknownField list \<Rightarrow> UnknownField list) \<Rightarrow> TermInit \<Rightarrow> TermInit" where
  "TermInit_unknown_fields_mut f m = m\<lparr>TermInit_unknown_fields := f (TermInit_unknown_fields m)\<rparr>"

definition TerminalUserInfo_unknown_fields_mut :: "(UnknownField list \<Rightarrow> UnknownField list) \<Rightarrow> TerminalUserInfo \<Rightarrow> TerminalUserInfo" where
  "TerminalUserInfo_unknown_fields_mut f m = m\<lparr>TerminalUserInfo_unknown_fields := f (TerminalUserInfo_unknown_fields m)\<rparr>"

section \<open>Names\<close>

record MessageName =
  PACKAGE :: string
  NAME :: string
  FULL_NAME :: string
  TYPE_URL :: string

definition ConnectRequest_name :: MessageName where
  "ConnectRequest_name =
     \<lparr>PACKAGE = ''et'', NAME = ''ConnectRequest'', FULL_NAME = ''et.ConnectRequest'',
      TYPE_URL = ''type.googleapis.com/et.ConnectRequest''\<rparr>"

definition ConnectResponse_name :: MessageName where
  "ConnectResponse_name =
     \<lparr>PACKAGE = ''et'', NAME = ''ConnectResponse'', FULL_NAME = ''et.ConnectResponse'',
      TYPE_URL = ''type.googleapis.com/et.ConnectResponse''\<rparr>"

definition SequenceHeader_name :: MessageName where
  "SequenceHeader_name =
     \<lparr>PACKAGE = ''et'', NAME = ''SequenceHeader'', FULL_NAME = ''et.SequenceHeader'',
      TYPE_URL = ''type.googleapis.com/et.SequenceHeader''\<rparr>"

definition CatchupBuffer_name :: MessageName where
  "CatchupBuffer_name =
     \<lparr>PACKAGE = ''et'', NAME = ''CatchupBuffer'', FULL_NAME = ''et.CatchupBuffer'',
      TYPE_URL = ''type.googleapis.com/et.CatchupBuffer''\<rparr>"

definition SocketEndpoint_name :: MessageName where
  "SocketEndpoint_name =
     \<lparr>PACKAGE = ''et'', NAME = ''SocketEndpoint'', FULL_NAME = ''et.SocketEndpoint'',
      TYPE_URL = ''type.googleapis.com/et.SocketEndpoint''\<rparr>"

definition TerminalBuffer_name :: MessageName where
  "TerminalBuffer_name =
     \<lparr>PACKAGE = ''et'', NAME = ''TerminalBuffer'', FULL_NAME = ''et.TerminalBuffer'',
      TYPE_URL = ''type.googleapis.com/et.TerminalBuffer''\<rparr>"

definition TerminalInfo_name :: MessageName where
  "TerminalInfo_name =
     \<lparr>PACKAGE = ''et'', NAME = ''TerminalInfo'', FULL_NAME = ''et.TerminalInfo'',
      TYPE_URL = ''type.googleapis.com/et.TerminalInfo''\<rparr>"

definition PortForwardSourceRequest_name :: MessageName where
  "PortForwardSourceRequest_name =
     \<lparr>PACKAGE = ''et'', NAME = ''PortForwardSourceRequest'', FULL_NAME = ''et.PortForwardSourceRequest'',
      TYPE_URL = ''type.googleapis.com/et.PortForwardSourceRequest''\<rparr>"

definition PortForwardSourceResponse_name :: MessageName where
  "PortForwardSourceResponse_name =
     \<lparr>PACKAGE = ''et'', NAME = ''PortForwardSourceResponse'', FULL_NAME = ''et.PortForwardSourceResponse'',
      TYPE_URL = ''type.googleapis.com/et.PortForwardSourceResponse''\<rparr>"

definition PortForwardDestinationRequest_name :: MessageName where
  "PortForwardDestinationRequest_name =
     \<lparr>PACKAGE = ''et'', NAME = ''PortForwardDestinationRequest'', FULL_NAME = ''et.PortForwardDestinationRequest'',
      TYPE_URL = ''type.googleapis.com/et.PortForwardDestinationRequest''\<rparr>"

definition PortForwardDestinationResponse_name :: MessageName where
  "PortForwardDestinationResponse_name =
     \<lparr>PACKAGE = ''et'', NAME = ''PortForwardDestinationResponse'', FULL_NAME = ''et.PortForwardDestinationResponse'',
      TYPE_URL = ''type.googleapis.com/et.PortForwardDestinationResponse''\<rparr>"

definition PortForwardData_name :: MessageName where
  "PortForwardData_name =
     \<lparr>PACKAGE = ''et'', NAME = ''PortForwardData'', FULL_NAME = ''et.PortForwardData'',
      TYPE_URL = ''type.googleapis.com/et.PortForwardData''\<rparr>"

definition InitialPayload_name :: MessageName where
  "InitialPayload_name =
     \<lparr>PACKAGE = ''et'', NAME = ''InitialPayload'', FULL_NAME = ''et.InitialPayload'',
      TYPE_URL = ''type.googleapis.com/et.InitialPayload''\<rparr>"

definition InitialResponse_name :: MessageName where
  "InitialResponse_name =
     \<lparr>PACKAGE = ''et'', NAME = ''InitialResponse'', FULL_NAME = ''et.InitialResponse'',
      TYPE_URL = ''type.googleapis.com/et.InitialResponse''\<rparr>"

definition ConfigParams_name :: MessageName where
  "ConfigParams_name =
     \<lparr>PACKAGE = ''et'', NAME = ''ConfigParams'', FULL_NAME = ''et.ConfigParams'',
      TYPE_URL = ''type.googleapis.com/et.ConfigParams''\<rparr>"

definition TermInit_name :: MessageName where
  "TermInit_name =
     \<lparr>PACKAGE = ''et'', NAME = ''TermInit'', FULL_NAME = ''et.TermInit'',
      TYPE_URL = ''type.googleapis.com/et.TermInit''\<rparr>"

definition TerminalUserInfo_name :: MessageName where
  "TerminalUserInfo_name =
     \<lparr>PACKAGE = ''et'', NAME = ''TerminalUserInfo'', FULL_NAME = ''et.TerminalUserInfo'',
      TYPE_URL = ''type.googleapis.com/et.TerminalUserInfo''\<rparr>"

section \<open>Defaults of the enumerations\<close>

definition EtPacketType_default :: EtPacketType where
  "EtPacketType_default = EtPacketType_HEARTBEAT"

definition ConnectStatus_default :: ConnectStatus where
  "ConnectStatus_default = NEW_CLIENT"

definition TerminalPacketType_default :: TerminalPacketType where
  "TerminalPacketType_default = TerminalPacketType_KEEP_ALIVE"

section \<open>What they give\<close>

text \<open>The name, and the unknown fields, of any message.\<close>

fun message_name :: "message \<Rightarrow> MessageName" where
  "message_name (Msg_ConnectRequest _) = ConnectRequest_name"
| "message_name (Msg_ConnectResponse _) = ConnectResponse_name"
| "message_name (Msg_SequenceHeader _) = SequenceHeader_name"
| "message_name (Msg_CatchupBuffer _) = CatchupBuffer_name"
| "message_name (Msg_SocketEndpoint _) = SocketEndpoint_name"
| "message_name (Msg_TerminalBuffer _) = TerminalBuffer_name"
| "message_name (Msg_TerminalInfo _) = TerminalInfo_name"
| "message_name (Msg_PortForwardSourceRequest _) = PortForwardSourceRequest_name"
| "message_name (Msg_PortForwardSourceResponse _) = PortForwardSourceResponse_name"
| "message_name (Msg_PortForwardDestinationRequest _) = PortForwardDestinationRequest_name"
| "message_name (Msg_PortForwardDestinationResponse _) = PortForwardDestinationResponse_name"
| "message_name (Msg_PortForwardData _) = PortForwardData_name"
| "message_name (Msg_InitialPayload _) = InitialPayload_name"
| "message_name (Msg_InitialResponse _) = InitialResponse_name"
| "message_name (Msg_ConfigParams _) = ConfigParams_name"
| "message_name (Msg_TermInit _) = TermInit_name"
| "message_name (Msg_TerminalUserInfo _) = TerminalUserInfo_name"

fun message_unknown_fields :: "message \<Rightarrow> UnknownField list" where
  "message_unknown_fields (Msg_ConnectRequest m) = ConnectRequest_unknown_fields m"
| "message_unknown_fields (Msg_ConnectResponse m) = ConnectResponse_unknown_fields m"
| "message_unknown_fields (Msg_SequenceHeader m) = SequenceHeader_unknown_fields m"
| "message_unknown_fields (Msg_CatchupBuffer m) = CatchupBuffer_unknown_fields m"
| "message_unknown_fields (Msg_SocketEndpoint m) = SocketEndpoint_unknown_fields m"
| "message_unknown_fields (Msg_TerminalBuffer m) = TerminalBuffer_unknown_fields m"
| "message_unknown_fields (Msg_TerminalInfo m) = TerminalInfo_unknown_fields m"
| "message_unknown_fields (Msg_PortForwardSourceRequest m) = PortForwardSourceRequest_unknown_fields m"
| "message_unknown_fields (Msg_PortForwardSourceResponse m) = PortForwardSourceResponse_unknown_fields m"
| "message_unknown_fields (Msg_PortForwardDestinationRequest m) = PortForwardDestinationRequest_unknown_fields m"
| "message_unknown_fields (Msg_PortForwardDestinationResponse m) = PortForwardDestinationResponse_unknown_fields m"
| "message_unknown_fields (Msg_PortForwardData m) = PortForwardData_unknown_fields m"
| "message_unknown_fields (Msg_InitialPayload m) = InitialPayload_unknown_fields m"
| "message_unknown_fields (Msg_InitialResponse m) = InitialResponse_unknown_fields m"
| "message_unknown_fields (Msg_ConfigParams m) = ConfigParams_unknown_fields m"
| "message_unknown_fields (Msg_TermInit m) = TermInit_unknown_fields m"
| "message_unknown_fields (Msg_TerminalUserInfo m) = TerminalUserInfo_unknown_fields m"

fun message_unknown_fields_mut :: "(UnknownField list \<Rightarrow> UnknownField list) \<Rightarrow> message \<Rightarrow> message" where
  "message_unknown_fields_mut f (Msg_ConnectRequest m) = Msg_ConnectRequest (ConnectRequest_unknown_fields_mut f m)"
| "message_unknown_fields_mut f (Msg_ConnectResponse m) = Msg_ConnectResponse (ConnectResponse_unknown_fields_mut f m)"
| "message_unknown_fields_mut f (Msg_SequenceHeader m) = Msg_SequenceHeader (SequenceHeader_unknown_fields_mut f m)"
| "message_unknown_fields_mut f (Msg_CatchupBuffer m) = Msg_CatchupBuffer (CatchupBuffer_unknown_fields_mut f m)"
| "message_unknown_fields_mut f (Msg_SocketEndpoint m) = Msg_SocketEndpoint (SocketEndpoint_unknown_fields_mut f m)"
| "message_unknown_fields_mut f (Msg_TerminalBuffer m) = Msg_TerminalBuffer (TerminalBuffer_unknown_fields_mut f m)"
| "message_unknown_fields_mut f (Msg_TerminalInfo m) = Msg_TerminalInfo (TerminalInfo_unknown_fields_mut f m)"
| "message_unknown_fields_mut f (Msg_PortForwardSourceRequest m) = Msg_PortForwardSourceRequest (PortForwardSourceRequest_unknown_fields_mut f m)"
| "message_unknown_fields_mut f (Msg_PortForwardSourceResponse m) = Msg_PortForwardSourceResponse (PortForwardSourceResponse_unknown_fields_mut f m)"
| "message_unknown_fields_mut f (Msg_PortForwardDestinationRequest m) = Msg_PortForwardDestinationRequest (PortForwardDestinationRequest_unknown_fields_mut f m)"
| "message_unknown_fields_mut f (Msg_PortForwardDestinationResponse m) = Msg_PortForwardDestinationResponse (PortForwardDestinationResponse_unknown_fields_mut f m)"
| "message_unknown_fields_mut f (Msg_PortForwardData m) = Msg_PortForwardData (PortForwardData_unknown_fields_mut f m)"
| "message_unknown_fields_mut f (Msg_InitialPayload m) = Msg_InitialPayload (InitialPayload_unknown_fields_mut f m)"
| "message_unknown_fields_mut f (Msg_InitialResponse m) = Msg_InitialResponse (InitialResponse_unknown_fields_mut f m)"
| "message_unknown_fields_mut f (Msg_ConfigParams m) = Msg_ConfigParams (ConfigParams_unknown_fields_mut f m)"
| "message_unknown_fields_mut f (Msg_TermInit m) = Msg_TermInit (TermInit_unknown_fields_mut f m)"
| "message_unknown_fields_mut f (Msg_TerminalUserInfo m) = Msg_TerminalUserInfo (TerminalUserInfo_unknown_fields_mut f m)"

lemmas name_defs =
  ConnectRequest_name_def
  ConnectResponse_name_def
  SequenceHeader_name_def
  CatchupBuffer_name_def
  SocketEndpoint_name_def
  TerminalBuffer_name_def
  TerminalInfo_name_def
  PortForwardSourceRequest_name_def
  PortForwardSourceResponse_name_def
  PortForwardDestinationRequest_name_def
  PortForwardDestinationResponse_name_def
  PortForwardData_name_def
  InitialPayload_name_def
  InitialResponse_name_def
  ConfigParams_name_def
  TermInit_name_def
  TerminalUserInfo_name_def

lemmas unknown_fields_mut_defs =
  ConnectRequest_unknown_fields_mut_def
  ConnectResponse_unknown_fields_mut_def
  SequenceHeader_unknown_fields_mut_def
  CatchupBuffer_unknown_fields_mut_def
  SocketEndpoint_unknown_fields_mut_def
  TerminalBuffer_unknown_fields_mut_def
  TerminalInfo_unknown_fields_mut_def
  PortForwardSourceRequest_unknown_fields_mut_def
  PortForwardSourceResponse_unknown_fields_mut_def
  PortForwardDestinationRequest_unknown_fields_mut_def
  PortForwardDestinationResponse_unknown_fields_mut_def
  PortForwardData_unknown_fields_mut_def
  InitialPayload_unknown_fields_mut_def
  InitialResponse_unknown_fields_mut_def
  ConfigParams_unknown_fields_mut_def
  TermInit_unknown_fields_mut_def
  TerminalUserInfo_unknown_fields_mut_def

lemmas write_to_defs =
  write_to_ConnectRequest_def
  write_to_ConnectResponse_def
  write_to_SequenceHeader_def
  write_to_CatchupBuffer_def
  write_to_SocketEndpoint_def
  write_to_TerminalBuffer_def
  write_to_TerminalInfo_def
  write_to_PortForwardSourceRequest_def
  write_to_PortForwardSourceResponse_def
  write_to_PortForwardDestinationRequest_def
  write_to_PortForwardDestinationResponse_def
  write_to_PortForwardData_def
  write_to_InitialPayload_def
  write_to_InitialResponse_def
  write_to_ConfigParams_def
  write_to_TermInit_def
  write_to_TerminalUserInfo_def

text \<open>The names of a message fit each other, and no two types share one.\<close>

lemma names_consistent:
  "FULL_NAME (message_name m) = PACKAGE (message_name m) @ ''.'' @ NAME (message_name m)"
  "TYPE_URL (message_name m) = ''type.googleapis.com/'' @ FULL_NAME (message_name m)"
  by (cases m; simp add: name_defs)+

lemma type_urls_distinct:
  "distinct (map TYPE_URL
    [ConnectRequest_name,
     ConnectResponse_name,
     SequenceHeader_name,
     CatchupBuffer_name,
     SocketEndpoint_name,
     TerminalBuffer_name,
     TerminalInfo_name,
     PortForwardSourceRequest_name,
     PortForwardSourceResponse_name,
     PortForwardDestinationRequest_name,
     PortForwardDestinationResponse_name,
     PortForwardData_name,
     InitialPayload_name,
     InitialResponse_name,
     ConfigParams_name,
     TermInit_name,
     TerminalUserInfo_name])"
  by (simp add: name_defs)

text \<open>An encoding ends with the unknown fields, whatever the known fields are.\<close>

lemma encode_unknown_last:
  assumes "buffa_ok rt"
  shows "write_to_message rt m =
    write_to_message rt (message_unknown_fields_mut (\<lambda>_. []) m) @ unknown_write_to rt (message_unknown_fields m)"
  by (cases m) (simp_all add: unknown_fields_mut_defs write_to_defs unknown_write_to_Nil [OF assms])

text \<open>The setters keep well-formedness.\<close>

lemma ConnectRequest_with_wf [intro]:
  "wf_ConnectRequest rt m \<Longrightarrow> wire_text t \<Longrightarrow> wf_ConnectRequest rt (ConnectRequest_with_clientId t m)"
  "wf_ConnectRequest rt m \<Longrightarrow> wf_ConnectRequest rt (ConnectRequest_with_version i m)"
  by (simp_all add: wf_ConnectRequest_def ConnectRequest_with_clientId_def ConnectRequest_with_version_def)

lemma ConnectResponse_with_wf [intro]:
  "wf_ConnectResponse rt m \<Longrightarrow> wf_ConnectResponse rt (ConnectResponse_with_status st m)"
  "wf_ConnectResponse rt m \<Longrightarrow> wire_text t \<Longrightarrow> wf_ConnectResponse rt (ConnectResponse_with_error t m)"
  by (simp_all add: wf_ConnectResponse_def ConnectResponse_with_status_def ConnectResponse_with_error_def)

lemma SequenceHeader_with_wf [intro]:
  "wf_SequenceHeader rt m \<Longrightarrow> wf_SequenceHeader rt (SequenceHeader_with_sequenceNumber i m)"
  by (simp_all add: wf_SequenceHeader_def SequenceHeader_with_sequenceNumber_def)

lemma SocketEndpoint_with_wf [intro]:
  "wf_SocketEndpoint rt m \<Longrightarrow> wire_text t \<Longrightarrow> wf_SocketEndpoint rt (SocketEndpoint_with_name t m)"
  "wf_SocketEndpoint rt m \<Longrightarrow> wf_SocketEndpoint rt (SocketEndpoint_with_port i m)"
  by (simp_all add: wf_SocketEndpoint_def SocketEndpoint_with_name_def SocketEndpoint_with_port_def)

lemma TerminalBuffer_with_wf [intro]:
  "wf_TerminalBuffer rt m \<Longrightarrow> wire_bytes bs \<Longrightarrow> wf_TerminalBuffer rt (TerminalBuffer_with_buffer bs m)"
  by (simp_all add: wf_TerminalBuffer_def TerminalBuffer_with_buffer_def)

lemma TerminalInfo_with_wf [intro]:
  "wf_TerminalInfo rt m \<Longrightarrow> wire_text t \<Longrightarrow> wf_TerminalInfo rt (TerminalInfo_with_id t m)"
  "wf_TerminalInfo rt m \<Longrightarrow> wf_TerminalInfo rt (TerminalInfo_with_row i m)"
  "wf_TerminalInfo rt m \<Longrightarrow> wf_TerminalInfo rt (TerminalInfo_with_column i m)"
  "wf_TerminalInfo rt m \<Longrightarrow> wf_TerminalInfo rt (TerminalInfo_with_width i m)"
  "wf_TerminalInfo rt m \<Longrightarrow> wf_TerminalInfo rt (TerminalInfo_with_height i m)"
  by (simp_all add: wf_TerminalInfo_def TerminalInfo_with_id_def TerminalInfo_with_row_def TerminalInfo_with_column_def TerminalInfo_with_width_def TerminalInfo_with_height_def)

lemma PortForwardSourceRequest_with_wf [intro]:
  "wf_PortForwardSourceRequest rt m \<Longrightarrow> wire_text t \<Longrightarrow> wf_PortForwardSourceRequest rt (PortForwardSourceRequest_with_environmentvariable t m)"
  by (simp_all add: wf_PortForwardSourceRequest_def PortForwardSourceRequest_with_environmentvariable_def)

lemma PortForwardSourceResponse_with_wf [intro]:
  "wf_PortForwardSourceResponse rt m \<Longrightarrow> wire_text t \<Longrightarrow> wf_PortForwardSourceResponse rt (PortForwardSourceResponse_with_error t m)"
  by (simp_all add: wf_PortForwardSourceResponse_def PortForwardSourceResponse_with_error_def)

lemma PortForwardDestinationRequest_with_wf [intro]:
  "wf_PortForwardDestinationRequest rt m \<Longrightarrow> wf_PortForwardDestinationRequest rt (PortForwardDestinationRequest_with_fd i m)"
  by (simp_all add: wf_PortForwardDestinationRequest_def PortForwardDestinationRequest_with_fd_def)

lemma PortForwardDestinationResponse_with_wf [intro]:
  "wf_PortForwardDestinationResponse rt m \<Longrightarrow> wf_PortForwardDestinationResponse rt (PortForwardDestinationResponse_with_clientfd i m)"
  "wf_PortForwardDestinationResponse rt m \<Longrightarrow> wf_PortForwardDestinationResponse rt (PortForwardDestinationResponse_with_socketid i m)"
  "wf_PortForwardDestinationResponse rt m \<Longrightarrow> wire_text t \<Longrightarrow> wf_PortForwardDestinationResponse rt (PortForwardDestinationResponse_with_error t m)"
  by (simp_all add: wf_PortForwardDestinationResponse_def PortForwardDestinationResponse_with_clientfd_def PortForwardDestinationResponse_with_socketid_def PortForwardDestinationResponse_with_error_def)

lemma PortForwardData_with_wf [intro]:
  "wf_PortForwardData rt m \<Longrightarrow> wf_PortForwardData rt (PortForwardData_with_sourcetodestination b m)"
  "wf_PortForwardData rt m \<Longrightarrow> wf_PortForwardData rt (PortForwardData_with_socketid i m)"
  "wf_PortForwardData rt m \<Longrightarrow> wire_bytes bs \<Longrightarrow> wf_PortForwardData rt (PortForwardData_with_buffer bs m)"
  "wf_PortForwardData rt m \<Longrightarrow> wire_text t \<Longrightarrow> wf_PortForwardData rt (PortForwardData_with_error t m)"
  "wf_PortForwardData rt m \<Longrightarrow> wf_PortForwardData rt (PortForwardData_with_closed b m)"
  by (simp_all add: wf_PortForwardData_def PortForwardData_with_sourcetodestination_def PortForwardData_with_socketid_def PortForwardData_with_buffer_def PortForwardData_with_error_def PortForwardData_with_closed_def)

lemma InitialPayload_with_wf [intro]:
  "wf_InitialPayload rt m \<Longrightarrow> wf_InitialPayload rt (InitialPayload_with_jumphost b m)"
  by (simp_all add: wf_InitialPayload_def InitialPayload_with_jumphost_def)

lemma InitialResponse_with_wf [intro]:
  "wf_InitialResponse rt m \<Longrightarrow> wire_text t \<Longrightarrow> wf_InitialResponse rt (InitialResponse_with_error t m)"
  by (simp_all add: wf_InitialResponse_def InitialResponse_with_error_def)

lemma ConfigParams_with_wf [intro]:
  "wf_ConfigParams rt m \<Longrightarrow> wf_ConfigParams rt (ConfigParams_with_vlevel i m)"
  "wf_ConfigParams rt m \<Longrightarrow> wf_ConfigParams rt (ConfigParams_with_minloglevel i m)"
  by (simp_all add: wf_ConfigParams_def ConfigParams_with_vlevel_def ConfigParams_with_minloglevel_def)

lemma TerminalUserInfo_with_wf [intro]:
  "wf_TerminalUserInfo rt m \<Longrightarrow> wire_text t \<Longrightarrow> wf_TerminalUserInfo rt (TerminalUserInfo_with_id t m)"
  "wf_TerminalUserInfo rt m \<Longrightarrow> wire_text t \<Longrightarrow> wf_TerminalUserInfo rt (TerminalUserInfo_with_passkey t m)"
  "wf_TerminalUserInfo rt m \<Longrightarrow> wf_TerminalUserInfo rt (TerminalUserInfo_with_uid j m)"
  "wf_TerminalUserInfo rt m \<Longrightarrow> wf_TerminalUserInfo rt (TerminalUserInfo_with_gid j m)"
  "wf_TerminalUserInfo rt m \<Longrightarrow> wf_TerminalUserInfo rt (TerminalUserInfo_with_fd j m)"
  by (simp_all add: wf_TerminalUserInfo_def TerminalUserInfo_with_id_def TerminalUserInfo_with_passkey_def TerminalUserInfo_with_uid_def TerminalUserInfo_with_gid_def TerminalUserInfo_with_fd_def)

text \<open>A port-forwarding message built with its setters, in any state, is read back field by field.\<close>

lemma built_PortForwardData:
  assumes "buffa_ok rt" and "wire_bytes b" and "wire_text e"
  shows "decode_PortForwardData rt (write_to_PortForwardData rt
      (PortForwardData_with_closed c (PortForwardData_with_error e (PortForwardData_with_buffer b
        (PortForwardData_with_socketid i (PortForwardData_with_sourcetodestination d PortForwardData_default)))))) =
    Ok \<lparr>PortForwardData_sourcetodestination = Some d, PortForwardData_socketid = Some i,
        PortForwardData_buffer = Some b, PortForwardData_error = Some e, PortForwardData_closed = Some c,
        PortForwardData_unknown_fields = []\<rparr>"
proof -
  have "wf_PortForwardData rt PortForwardData_default"
    by (simp add: wf_PortForwardData_def PortForwardData_default_def)
  then have "wf_PortForwardData rt
      (PortForwardData_with_closed c (PortForwardData_with_error e (PortForwardData_with_buffer b
        (PortForwardData_with_socketid i (PortForwardData_with_sourcetodestination d PortForwardData_default)))))"
    using assms by (intro PortForwardData_with_wf)
  from decode_write_PortForwardData [OF assms(1) this] show ?thesis
    by (simp add: PortForwardData_with_closed_def PortForwardData_with_error_def PortForwardData_with_buffer_def
        PortForwardData_with_socketid_def PortForwardData_with_sourcetodestination_def PortForwardData_default_def)
qed

text \<open>The default of an enumeration is the first value the schema declares.\<close>

lemma enumeration_defaults:
  "EtPacketType_default = hd EtPacketType_values"
  "ConnectStatus_default = hd ConnectStatus_values"
  "TerminalPacketType_default = hd TerminalPacketType_values"
  by (simp_all add: EtPacketType_default_def ConnectStatus_default_def TerminalPacketType_default_def
      EtPacketType_values_def ConnectStatus_values_def TerminalPacketType_values_def)

end
