(* ===== verification/Timed_IO.thy ===== *)
theory Timed_IO
  imports Framing
begin

text \<open>
  The progress-bounded IO of the recover exchange (\<^verbatim>\<open>backed.rs\<close>: \<^verbatim>\<open>write_frame_idle\<close>,
  \<^verbatim>\<open>write_all_idle\<close>, \<^verbatim>\<open>read_frame_idle\<close>, \<^verbatim>\<open>read_exact_idle\<close>). A stream carries its clock and the time
  each of its next IO steps takes; when the list of delays ends, the peer has stalled for good.
  Durations are natural numbers of milliseconds. The lemmas show that no exchange outlives its
  deadline and that a peer that keeps making progress is never abandoned.
\<close>

section \<open>Timed streams\<close>

record tstream =
  t_in :: reader
  t_out :: writer
  t_delays :: "nat list"
  t_now :: nat

datatype RecoverError =
    Io_failed io_kind
  | Stalled
  | Frame_too_long int
  | Bad_SequenceHeader
  | Peer_ahead
  | Peer_too_far_behind int nat
  | Bad_CatchupBuffer

type_synonym 'a timed = "tstream \<Rightarrow> (RecoverError + 'a) \<times> tstream"

definition tret :: "'a \<Rightarrow> 'a timed" where
  "tret x = (\<lambda>s. (Ok x, s))"

definition traise :: "RecoverError \<Rightarrow> 'a timed" where
  "traise e = (\<lambda>s. (Err e, s))"

definition tbind :: "'a timed \<Rightarrow> ('a \<Rightarrow> 'b timed) \<Rightarrow> 'b timed" where
  "tbind m f = (\<lambda>s. case m s of (Inl e, s') \<Rightarrow> (Err e, s') | (Inr x, s') \<Rightarrow> f x s')"

text \<open>\<^verbatim>\<open>tokio::time::timeout_at\<close>: the step completes when its delay ends by the bound.\<close>

definition timeout_at :: "nat \<Rightarrow> (tstream \<Rightarrow> io_kind + 'a \<times> tstream) \<Rightarrow> 'a timed" where
  "timeout_at bound io s =
     (case t_delays s of
        [] \<Rightarrow> (Err Stalled, s\<lparr>t_now := max (t_now s) bound\<rparr>)
      | d # ds \<Rightarrow>
          if bound < t_now s + d then
            (Err Stalled, s\<lparr>t_delays := ds, t_now := max (t_now s) bound\<rparr>)
          else
            (let s1 = s\<lparr>t_delays := ds, t_now := t_now s + d\<rparr> in
             case io s1 of
               Inl e \<Rightarrow> (Err (Io_failed e), s1)
             | Inr (x, s2) \<Rightarrow> (Ok x, s2)))"

definition stream_write :: "bytes \<Rightarrow> tstream \<Rightarrow> io_kind + unit \<times> tstream" where
  "stream_write bs s =
     (case write_all bs (t_out s) of
        Inl e \<Rightarrow> Err e
      | Inr w \<Rightarrow> Ok ((), s\<lparr>t_out := w\<rparr>))"

definition stream_read :: "nat \<Rightarrow> tstream \<Rightarrow> io_kind + bytes \<times> tstream" where
  "stream_read n s =
     (case read_exact n (t_in s) of
        Inl e \<Rightarrow> Err e
      | Inr (bs, r) \<Rightarrow> Ok (bs, s\<lparr>t_in := r\<rparr>))"

section \<open>Framed IO in chunks\<close>

definition RECOVER_STEP_IDLE :: nat where
  "RECOVER_STEP_IDLE = 10 * 1000"

definition RECOVER_ABSOLUTE :: nat where
  "RECOVER_ABSOLUTE = 60 * 1000"

definition RECOVER_IO_CHUNK :: nat where
  "RECOVER_IO_CHUNK = 64 * 1024"

lemma RECOVER_IO_CHUNK_pos: "0 < RECOVER_IO_CHUNK"
  by (simp add: RECOVER_IO_CHUNK_def)

function write_all_idle :: "bytes \<Rightarrow> nat \<Rightarrow> nat \<Rightarrow> unit timed" where
  "write_all_idle buf idle deadline s =
     (if buf = [] then (Ok (), s)
      else
        (case timeout_at (min (t_now s + idle) deadline) (stream_write (take RECOVER_IO_CHUNK buf)) s of
           (Inl e, s') \<Rightarrow> (Err e, s')
         | (Inr _, s') \<Rightarrow> write_all_idle (drop RECOVER_IO_CHUNK buf) idle deadline s'))"
  by pat_completeness auto
termination
  by (relation "measure (\<lambda>(buf, _). length buf)") (auto simp: RECOVER_IO_CHUNK_pos)

function read_exact_idle :: "nat \<Rightarrow> nat \<Rightarrow> nat \<Rightarrow> bytes timed" where
  "read_exact_idle n idle deadline s =
     (if n = 0 then (Ok [], s)
      else
        (case timeout_at (min (t_now s + idle) deadline) (stream_read (min RECOVER_IO_CHUNK n)) s of
           (Inl e, s') \<Rightarrow> (Err e, s')
         | (Inr bs, s') \<Rightarrow>
             (case read_exact_idle (n - RECOVER_IO_CHUNK) idle deadline s' of
                (Inl e, s'') \<Rightarrow> (Err e, s'')
              | (Inr rest, s'') \<Rightarrow> (Ok (bs @ rest), s''))))"
  by pat_completeness auto
termination
  by (relation "measure (\<lambda>(n, _). n)") (auto simp: RECOVER_IO_CHUNK_pos)

declare write_all_idle.simps [simp del] read_exact_idle.simps [simp del]

definition write_frame_idle :: "bytes \<Rightarrow> nat \<Rightarrow> nat \<Rightarrow> unit timed" where
  "write_frame_idle body idle deadline =
     tbind (write_all_idle (i64_to_le_bytes (int (length body))) idle deadline)
       (\<lambda>_. write_all_idle body idle deadline)"

definition read_frame_idle :: "int \<Rightarrow> nat \<Rightarrow> nat \<Rightarrow> bytes timed" where
  "read_frame_idle max_len idle deadline =
     tbind (read_exact_idle 8 idle deadline) (\<lambda>len_buf.
       let len = i64_from_le_bytes len_buf in
       if \<not> (0 \<le> len \<and> len \<le> max_len) then traise (Frame_too_long len)
       else read_exact_idle (nat len) idle deadline)"

section \<open>The clock stays below the deadline\<close>

text \<open>A timed action keeps the deadline when it ends by it, and time never runs backwards.\<close>

definition keeps_deadline :: "nat \<Rightarrow> 'a timed \<Rightarrow> bool" where
  "keeps_deadline deadline m \<longleftrightarrow>
     (\<forall>s. t_now s \<le> deadline \<longrightarrow> t_now s \<le> t_now (snd (m s)) \<and> t_now (snd (m s)) \<le> deadline)"

lemma keeps_deadline_tret [intro]: "keeps_deadline dl (tret x)" and keeps_deadline_traise [intro]: "keeps_deadline dl (traise e)"
  by (simp_all add: keeps_deadline_def tret_def traise_def)

lemma keeps_deadline_tbind [intro]:
  assumes "keeps_deadline dl m" and "\<And>x. keeps_deadline dl (f x)"
  shows "keeps_deadline dl (tbind m f)"
  unfolding keeps_deadline_def
proof (intro allI impI)
  fix s :: tstream
  assume s: "t_now s \<le> dl"
  obtain r s1 where m: "m s = (r, s1)" by (cases "m s")
  with assms(1) s have s1: "t_now s \<le> t_now s1" "t_now s1 \<le> dl"
    unfolding keeps_deadline_def by (metis snd_conv)+
  show "t_now s \<le> t_now (snd (tbind m f s)) \<and> t_now (snd (tbind m f s)) \<le> dl"
  proof (cases r)
    case (Inr x)
    with m have *: "tbind m f s = f x s1" by (simp add: tbind_def)
    have "t_now s1 \<le> t_now (snd (f x s1)) \<and> t_now (snd (f x s1)) \<le> dl"
      using assms(2) [of x] s1 unfolding keeps_deadline_def by blast
    with s1 * show ?thesis by simp
  qed (use m s1 in \<open>simp add: tbind_def\<close>)
qed

lemma keeps_deadline_if [intro]:
  "keeps_deadline dl m \<Longrightarrow> keeps_deadline dl m' \<Longrightarrow> keeps_deadline dl (if b then m else m')"
  by simp

lemma t_now_stream [simp]:
  "stream_write bs s = Ok (u, s') \<Longrightarrow> t_now s' = t_now s"
  "stream_read n s = Ok (xs, s') \<Longrightarrow> t_now s' = t_now s"
  by (auto simp: stream_write_def stream_read_def split: sum.splits)

lemma timeout_at_now:
  assumes "\<And>s x s'. io s = Ok (x, s') \<Longrightarrow> t_now s' = t_now s" and "t_now s \<le> dl" and "bound \<le> dl"
  shows "t_now s \<le> t_now (snd (timeout_at bound io s)) \<and> t_now (snd (timeout_at bound io s)) \<le> dl"
  using assms by (auto simp: timeout_at_def Let_def split: list.splits sum.splits)

lemma keeps_deadline_write_all_idle [intro]: "keeps_deadline dl (write_all_idle buf idle dl)"
proof -
  have "t_now s \<le> t_now (snd (write_all_idle buf idle dl s)) \<and> t_now (snd (write_all_idle buf idle dl s)) \<le> dl"
    if "t_now s \<le> dl" for s
    using that
  proof (induction buf idle dl s rule: write_all_idle.induct)
    case (1 buf idle dl s)
    let ?m = "timeout_at (min (t_now s + idle) dl) (stream_write (take RECOVER_IO_CHUNK buf)) s"
    have step: "t_now s \<le> t_now (snd ?m) \<and> t_now (snd ?m) \<le> dl"
      using 1(2) by (intro timeout_at_now) simp_all
    show ?case
    proof (cases "buf = []")
      case False
      obtain r s' where m: "?m = (r, s')" by (cases ?m)
      with 1(1) [OF False m [symmetric]] step False show ?thesis
        by (cases r) (auto simp: write_all_idle.simps [of buf])
    qed (use 1(2) in \<open>simp add: write_all_idle.simps\<close>)
  qed
  then show ?thesis by (simp add: keeps_deadline_def)
qed

lemma keeps_deadline_read_exact_idle [intro]: "keeps_deadline dl (read_exact_idle n idle dl)"
proof -
  have "t_now s \<le> t_now (snd (read_exact_idle n idle dl s)) \<and> t_now (snd (read_exact_idle n idle dl s)) \<le> dl"
    if "t_now s \<le> dl" for s
    using that
  proof (induction n idle dl s rule: read_exact_idle.induct)
    case (1 n idle dl s)
    let ?m = "timeout_at (min (t_now s + idle) dl) (stream_read (min RECOVER_IO_CHUNK n)) s"
    have step: "t_now s \<le> t_now (snd ?m) \<and> t_now (snd ?m) \<le> dl"
      using 1(2) by (intro timeout_at_now) simp_all
    show ?case
    proof (cases "n = 0")
      case False
      obtain r s' where m: "?m = (r, s')" by (cases ?m)
      with 1(1) [OF False m [symmetric]] step False show ?thesis
        by (cases r) (auto simp: read_exact_idle.simps [of n] split: prod.splits sum.splits)
    qed (use 1(2) in \<open>simp add: read_exact_idle.simps\<close>)
  qed
  then show ?thesis by (simp add: keeps_deadline_def)
qed

lemma keeps_deadline_frames [intro]:
  "keeps_deadline dl (write_frame_idle body idle dl)"
  "keeps_deadline dl (read_frame_idle max_len idle dl)"
  unfolding write_frame_idle_def read_frame_idle_def Let_def
  by (intro keeps_deadline_tbind keeps_deadline_if keeps_deadline_write_all_idle
      keeps_deadline_read_exact_idle keeps_deadline_traise)+

section \<open>A progressing peer is never abandoned\<close>

definition steps_of :: "nat \<Rightarrow> nat" where
  "steps_of n = (n + (RECOVER_IO_CHUNK - 1)) div RECOVER_IO_CHUNK"

lemma steps_of_0 [simp]: "steps_of 0 = 0"
  by (simp add: steps_of_def RECOVER_IO_CHUNK_def)

lemma steps_of_Suc: "0 < n \<Longrightarrow> steps_of n = Suc (steps_of (n - RECOVER_IO_CHUNK))"
proof -
  assume "0 < n"
  show ?thesis
  proof (cases "n \<le> RECOVER_IO_CHUNK")
    case True
    with \<open>0 < n\<close> have "(n + (RECOVER_IO_CHUNK - 1)) div RECOVER_IO_CHUNK = 1"
      by (intro div_nat_eqI) (auto simp: RECOVER_IO_CHUNK_def)
    with True show ?thesis by (simp add: steps_of_def RECOVER_IO_CHUNK_def)
  next
    case False
    then have "n + (RECOVER_IO_CHUNK - 1) = (n - RECOVER_IO_CHUNK + (RECOVER_IO_CHUNK - 1)) + RECOVER_IO_CHUNK"
      by simp
    then show ?thesis
      unfolding steps_of_def by (simp only:) (simp add: RECOVER_IO_CHUNK_def)
  qed
qed

text \<open>The next \<open>k\<close> steps each end within the idle window, and all of them by the deadline.\<close>

definition prompt :: "nat \<Rightarrow> nat \<Rightarrow> nat \<Rightarrow> tstream \<Rightarrow> bool" where
  "prompt idle deadline k s \<longleftrightarrow>
     k \<le> length (t_delays s) \<and> list_all (\<lambda>d. d \<le> idle) (take k (t_delays s)) \<and>
     t_now s + sum_list (take k (t_delays s)) \<le> deadline"

definition elapsed :: "nat \<Rightarrow> tstream \<Rightarrow> tstream" where
  "elapsed k s = s\<lparr>t_delays := drop k (t_delays s), t_now := t_now s + sum_list (take k (t_delays s))\<rparr>"

lemma elapsed_simps [simp]:
  "elapsed 0 s = s"
  "t_in (elapsed k s) = t_in s"
  "t_out (elapsed k s) = t_out s"
  by (simp_all add: elapsed_def)

lemma elapsed_upd [simp]:
  "elapsed k (s\<lparr>t_in := r\<rparr>) = (elapsed k s)\<lparr>t_in := r\<rparr>"
  "elapsed k (s\<lparr>t_out := w\<rparr>) = (elapsed k s)\<lparr>t_out := w\<rparr>"
  by (simp_all add: elapsed_def)

lemma prompt_upd [simp]:
  "prompt idle dl k (s\<lparr>t_in := r\<rparr>) = prompt idle dl k s"
  "prompt idle dl k (s\<lparr>t_out := w\<rparr>) = prompt idle dl k s"
  by (simp_all add: prompt_def)

lemma take_add_append: "take (j + k) xs = take j xs @ take k (drop j xs)"
  by (simp add: take_add)

lemma elapsed_elapsed [simp]: "elapsed k (elapsed j s) = elapsed (j + k) s"
  by (simp add: elapsed_def take_add_append add.commute add.assoc)

lemma prompt_add: "prompt idle dl (j + k) s \<longleftrightarrow> prompt idle dl j s \<and> prompt idle dl k (elapsed j s)"
  by (auto simp: prompt_def elapsed_def take_add_append)

lemma prompt_le: "prompt idle dl k s \<Longrightarrow> j \<le> k \<Longrightarrow> prompt idle dl j s"
  by (metis le_add_diff_inverse prompt_add)

lemma timeout_at_prompt:
  assumes "prompt idle dl 1 s" and io: "io (elapsed 1 s) = Ok (x, s')"
  shows "timeout_at (min (t_now s + idle) dl) io s = (Ok x, s')"
proof (cases "t_delays s")
  case (Cons d ds)
  from assms(1) Cons have "d \<le> idle" and "t_now s + d \<le> dl"
    unfolding prompt_def by simp_all
  then have "\<not> min (t_now s + idle) dl < t_now s + d"
    by (simp add: min_less_iff_disj)
  moreover have "io (s\<lparr>t_delays := ds, t_now := t_now s + d\<rparr>) = Ok (x, s')"
    using io Cons unfolding elapsed_def by simp
  ultimately show ?thesis
    unfolding timeout_at_def Cons by (simp only: list.case if_False Let_def sum.case prod.case)
qed (use assms(1) in \<open>simp add: prompt_def\<close>)

lemma write_all_idle_prompt:
  assumes "prompt idle dl (steps_of (length buf)) s" and "wr_room (t_out s) = None"
  shows "write_all_idle buf idle dl s =
    (Ok (), (elapsed (steps_of (length buf)) s)\<lparr>t_out := (t_out s)\<lparr>wr_out := wr_out (t_out s) @ buf\<rparr>\<rparr>)"
  using assms
proof (induction buf idle dl s rule: write_all_idle.induct)
  case (1 buf idle dl s)
  show ?case
  proof (cases "buf = []")
    case False
    let ?c = "take RECOVER_IO_CHUNK buf" and ?rest = "drop RECOVER_IO_CHUNK buf"
    let ?s1 = "(elapsed 1 s)\<lparr>t_out := (t_out s)\<lparr>wr_out := wr_out (t_out s) @ ?c\<rparr>\<rparr>"
    have steps: "steps_of (length buf) = 1 + steps_of (length ?rest)"
      using False by (simp add: steps_of_Suc)
    with 1(2) have p: "prompt idle dl 1 s" "prompt idle dl (steps_of (length ?rest)) (elapsed 1 s)"
      by (simp_all only: prompt_add)
    have m: "timeout_at (min (t_now s + idle) dl) (stream_write ?c) s = (Ok (), ?s1)"
      using p(1) 1(3) by (intro timeout_at_prompt) (simp_all add: stream_write_def write_all_def)
    have "write_all_idle ?rest idle dl ?s1 =
      (Ok (), (elapsed (steps_of (length ?rest)) ?s1)\<lparr>t_out := (t_out s)\<lparr>wr_out := wr_out (t_out s) @ buf\<rparr>\<rparr>)"
      using 1(1) [OF False m [symmetric]] p(2) 1(3) by simp
    with m False show ?thesis
      by (simp add: write_all_idle.simps [of buf] steps)
  qed (simp add: write_all_idle.simps)
qed

lemma read_exact_idle_prompt:
  assumes "prompt idle dl (steps_of (length buf)) s" and "t_in s = feed buf r"
  shows "read_exact_idle (length buf) idle dl s = (Ok buf, (elapsed (steps_of (length buf)) s)\<lparr>t_in := r\<rparr>)"
  using assms
proof (induction "length buf" idle dl s arbitrary: buf rule: read_exact_idle.induct)
  case (1 idle dl s)
  show ?case
  proof (cases "buf = []")
    case False
    let ?c = "take RECOVER_IO_CHUNK buf" and ?rest = "drop RECOVER_IO_CHUNK buf"
    let ?s1 = "(elapsed 1 s)\<lparr>t_in := feed ?rest r\<rparr>"
    have steps: "steps_of (length buf) = 1 + steps_of (length ?rest)"
      using False by (simp add: steps_of_Suc)
    with 1(2) have p: "prompt idle dl 1 s" "prompt idle dl (steps_of (length ?rest)) (elapsed 1 s)"
      by (simp_all only: prompt_add)
    have "feed buf r = feed (?c @ ?rest) r" by simp
    then have "read_exact (min RECOVER_IO_CHUNK (length buf)) (feed buf r) = Ok (?c, feed ?rest r)"
      by (simp only:) (rule read_exact_feed_append, simp)
    then have m: "timeout_at (min (t_now s + idle) dl) (stream_read (min RECOVER_IO_CHUNK (length buf))) s = (Ok ?c, ?s1)"
      using p(1) 1(3) by (intro timeout_at_prompt) (simp_all add: stream_read_def)
    have "read_exact_idle (length ?rest) idle dl ?s1 = (Ok ?rest, (elapsed (steps_of (length ?rest)) ?s1)\<lparr>t_in := r\<rparr>)"
      using False p(2) by (intro 1(1) [OF _ m [symmetric]]) simp_all
    with m False show ?thesis
      by (simp add: read_exact_idle.simps [of "length buf"] steps)
  qed (use 1(3) in \<open>simp add: read_exact_idle.simps\<close>)
qed

definition frame_steps :: "bytes \<Rightarrow> nat" where
  "frame_steps body = 1 + steps_of (length body)"

lemma steps_of_8 [simp]: "steps_of 8 = 1"
  by (simp add: steps_of_def RECOVER_IO_CHUNK_def)

lemma write_frame_idle_prompt:
  assumes "prompt idle dl (frame_steps body) s" and "wr_room (t_out s) = None"
  shows "write_frame_idle body idle dl s =
    (Ok (), (elapsed (frame_steps body) s)\<lparr>t_out := (t_out s)\<lparr>wr_out := wr_out (t_out s) @ proto_frame body\<rparr>\<rparr>)"
proof -
  let ?h = "i64_to_le_bytes (int (length body))"
  let ?s1 = "(elapsed 1 s)\<lparr>t_out := (t_out s)\<lparr>wr_out := wr_out (t_out s) @ ?h\<rparr>\<rparr>"
  from assms(1) have p: "prompt idle dl 1 s" "prompt idle dl (steps_of (length body)) (elapsed 1 s)"
    unfolding frame_steps_def by (simp_all only: prompt_add)
  from p(1) assms(2) have "write_all_idle ?h idle dl s = (Ok (), ?s1)"
    by (subst write_all_idle_prompt) (simp_all del: One_nat_def)
  moreover have "write_all_idle body idle dl ?s1 = (Ok (), (elapsed (steps_of (length body)) ?s1)
      \<lparr>t_out := (t_out s)\<lparr>wr_out := wr_out (t_out s) @ proto_frame body\<rparr>\<rparr>)"
    using p(2) assms(2) by (subst write_all_idle_prompt) (simp_all add: proto_frame_def del: One_nat_def)
  ultimately show ?thesis
    by (simp add: write_frame_idle_def tbind_def frame_steps_def del: One_nat_def)
qed

lemma read_frame_idle_prompt:
  assumes "prompt idle dl (frame_steps body) s" and "t_in s = feed (proto_frame body) r"
    and "proto_frame_ok max_len body"
  shows "read_frame_idle max_len idle dl s = (Ok body, (elapsed (frame_steps body) s)\<lparr>t_in := r\<rparr>)"
proof -
  let ?h = "i64_to_le_bytes (int (length body))"
  let ?s1 = "(elapsed 1 s)\<lparr>t_in := feed body r\<rparr>"
  from assms(1) have p: "prompt idle dl 1 s" "prompt idle dl (steps_of (length body)) (elapsed 1 s)"
    unfolding frame_steps_def by (simp_all only: prompt_add)
  have "read_exact_idle (length ?h) idle dl s = (Ok ?h, (elapsed (steps_of (length ?h)) s)\<lparr>t_in := feed body r\<rparr>)"
    using p(1) assms(2) by (intro read_exact_idle_prompt) (simp_all add: proto_frame_def del: One_nat_def)
  then have "read_exact_idle 8 idle dl s = (Ok ?h, ?s1)"
    by (simp del: One_nat_def)
  moreover have "read_exact_idle (length body) idle dl ?s1 = (Ok body, (elapsed (steps_of (length body)) ?s1)\<lparr>t_in := r\<rparr>)"
    using p(2) by (intro read_exact_idle_prompt) (simp_all del: One_nat_def)
  ultimately show ?thesis
    using assms(3) by (simp add: read_frame_idle_def tbind_def frame_steps_def proto_frame_ok_def wire_simps del: One_nat_def)
qed

end
