(* ===== verification/Backed.thy ===== *)
theory Backed
  imports Codec Timed_IO
begin

text \<open>
  \<^verbatim>\<open>crates/et-proto/src/backed.rs\<close>: the resumable packet connection. The actor is the record
  \<open>BackedActor\<close>, with the fields of the Rust struct, followed by its surroundings: the clock, the
  events its consumer has received, the replies to commands, the place where the task is parked
  (\<open>pc\<close>), and four fields that only record the past (\<open>written\<close>, \<open>accepted\<close>, \<open>opened\<close>, \<open>recoveries\<close>).
  Every \<^verbatim>\<open>await\<close> point of \<^verbatim>\<open>run\<close> is a value of \<open>pc\<close>, and \<open>backed_step\<close> runs the task from one await to the
  next under a stimulus: a command, a frame of the socket, a timer tick, the consumer taking an
  event. The recover exchange blocks the task, so it is one step with the whole stream as input.
  Sequence numbers and byte counts are \<^verbatim>\<open>i64\<close> in the source and integers here (reaching \<open>2 ^ 63\<close>
  would take more packets than can be sent); the cast of the sequence number to \<^verbatim>\<open>i32\<close> on the wire is
  kept.
\<close>

section \<open>Data\<close>

definition MAX_BACKUP_BYTES :: int where
  "MAX_BACKUP_BYTES = 64 * 1024 * 1024"

definition DISCONNECT_BUFFER_BYTES :: int where
  "DISCONNECT_BUFFER_BYTES = 64 * 1024 * 1024"

definition WRITE_QUEUE_DEPTH :: nat where
  "WRITE_QUEUE_DEPTH = 1024"

datatype WriteError = WE_Skipped | WE_Shutdown

datatype DeadReason = DR_Shutdown | DR_CryptoMismatch

datatype BackedEvent = Ev_Packet Packet | Ev_SocketDown | Ev_Dead DeadReason

datatype Cmd =
    Cmd_Write u8 bytes
  | Cmd_KillSocket
  | Cmd_Recover tstream nat nat
  | Cmd_Shutdown

record BackedConfig =
  key :: bytes
  reader_msb :: u8
  writer_msb :: u8
  keepalive :: "nat option"

text \<open>
  A live socket: the frames queued for its writer task, whether that task has ended, and the
  bytes its reader task has still to read.
\<close>

record LiveSocket =
  write_q :: "bytes list"
  write_closed :: bool
  read_half :: reader

datatype reply = Write_reply "WriteError + unit" | Recover_reply bool

datatype pc = AtSelect | Sending BackedEvent | Dying DeadReason | Finished

record BackedActor =
  cfg :: BackedConfig
  writer_crypto :: CryptoHandler
  reader_crypto :: CryptoHandler
  backup :: "bytes list"
  backup_size :: int
  writer_seq :: int
  reader_seq :: int
  inbox :: "bytes list"
  live :: "LiveSocket option"
  disconnected_bytes :: "int option"
  socket_down_pending :: bool
  waiting_on_keepalive :: bool
  last_activity :: nat
  shutting_down :: bool
  dead_sent :: bool
  clock :: nat
  events :: "BackedEvent list"
  consumer_gone :: bool
  replies :: "reply list"
  pc :: pc
  panicked :: bool
  written :: "(u8 \<times> bytes) list"
  accepted :: "Packet list"
  opened :: "bytes list"
  recoveries :: nat

definition BackedActor_new :: "BackedConfig \<Rightarrow> nat \<Rightarrow> BackedActor" where
  "BackedActor_new c now =
     \<lparr>cfg = c,
      writer_crypto = CryptoHandler_new (key c) (writer_msb c),
      reader_crypto = CryptoHandler_new (key c) (reader_msb c),
      backup = [], backup_size = 0, writer_seq = 0, reader_seq = 0, inbox = [], live = None,
      disconnected_bytes = None, socket_down_pending = False, waiting_on_keepalive = False,
      last_activity = now, shutting_down = False, dead_sent = False,
      clock = now, events = [], consumer_gone = False, replies = [], pc = AtSelect,
      panicked = False, written = [], accepted = [], opened = [], recoveries = 0\<rparr>"

section \<open>The socket tasks\<close>

text \<open>All a reader task sends on its channel, given everything its socket will deliver.\<close>

function reader_task :: "reader \<Rightarrow> (unit + bytes) list" where
  "reader_task r =
     (case read_exact 4 r of
        Inl e \<Rightarrow> [Inl ()]
      | Inr (len_buf, r1) \<Rightarrow>
          (let len = be_val len_buf in
           if MAX_PACKET_LENGTH < len then [Inl ()]
           else
             (case read_exact len r1 of
                Inl e \<Rightarrow> [Inl ()]
              | Inr (buf, r2) \<Rightarrow> Inr buf # reader_task r2)))"
  by pat_completeness auto
termination
  by (relation "measure (\<lambda>r. length (rd_data r))") (auto dest!: read_exact_Ok)

declare reader_task.simps [simp del]

fun writer_task :: "bytes list \<Rightarrow> writer \<Rightarrow> writer" where
  "writer_task [] w = w"
| "writer_task (frame # frames) w =
     (case write_all frame w of
        Inl e \<Rightarrow> w
      | Inr w' \<Rightarrow> writer_task frames w')"

definition spawn_socket_tasks :: "tstream \<Rightarrow> LiveSocket" where
  "spawn_socket_tasks stream = \<lparr>write_q = [], write_closed = False, read_half = t_in stream\<rparr>"

definition try_send :: "LiveSocket \<Rightarrow> bytes \<Rightarrow> LiveSocket option" where
  "try_send l frame =
     (if write_closed l \<or> WRITE_QUEUE_DEPTH \<le> length (write_q l) then None
      else Some (l\<lparr>write_q := write_q l @ [frame]\<rparr>))"

text \<open>\<^verbatim>\<open>BackedHandle::spawn\<close>, up to the task's first await.\<close>

definition backed_spawn :: "BackedConfig \<Rightarrow> nat \<Rightarrow> tstream \<Rightarrow> BackedActor" where
  "backed_spawn c now stream = (BackedActor_new c now)\<lparr>live := Some (spawn_socket_tasks stream)\<rparr>"

section \<open>Writing\<close>

definition close_current_socket :: "BackedActor \<Rightarrow> BackedActor" where
  "close_current_socket s =
     (let s1 = (case live s of None \<Rightarrow> s | Some l \<Rightarrow> s\<lparr>live := None, socket_down_pending := True\<rparr>) in
      s1\<lparr>waiting_on_keepalive := False,
         disconnected_bytes := Some (case disconnected_bytes s1 of None \<Rightarrow> 0 | Some n \<Rightarrow> n)\<rparr>)"

function trim_backup :: "bytes list \<Rightarrow> int \<Rightarrow> bytes list \<times> int" where
  "trim_backup b n =
     (if MAX_BACKUP_BYTES < n then
        (if b = [] then (b, n) else trim_backup (butlast b) (n - int (length (last b))))
      else (b, n))"
  by pat_completeness auto
termination
  by (relation "measure (\<lambda>(b, n). length b)") (simp_all add: length_greater_0_conv [symmetric] del: length_greater_0_conv)

declare trim_backup.simps [simp del]

definition ledger_add :: "int \<Rightarrow> BackedActor \<Rightarrow> BackedActor" where
  "ledger_add n s =
     s\<lparr>disconnected_bytes := Some ((case disconnected_bytes s of None \<Rightarrow> 0 | Some k \<Rightarrow> k) + n)\<rparr>"

definition backed_write ::
    "secretbox \<Rightarrow> u8 \<Rightarrow> bytes \<Rightarrow> BackedActor \<Rightarrow> (WriteError + unit) \<times> BackedActor" where
  "backed_write sb h p s =
     (if shutting_down s then (Err WE_Shutdown, s)
      else if (case disconnected_bytes s of
                 None \<Rightarrow> False
               | Some buffered \<Rightarrow> DISCONNECT_BUFFER_BYTES < buffered + int (length p))
      then (Err WE_Skipped, s)
      else
        (case Packet_encrypt sb (Packet_new h p) (writer_crypto s) of
           Inl e \<Rightarrow> (Err WE_Shutdown, s\<lparr>panicked := True\<rparr>)
         | Inr (packet, crypto) \<Rightarrow>
             (let serialized = Packet_serialize packet;
                  n = int (length serialized);
                  s1 = s\<lparr>writer_crypto := crypto, backup := serialized # backup s,
                         backup_size := backup_size s + n, writer_seq := writer_seq s + 1,
                         written := written s @ [(h, p)]\<rparr>;
                  s2 = (case live s1 of
                          None \<Rightarrow> s1
                        | Some l \<Rightarrow>
                            (case trim_backup (backup s1) (backup_size s1) of
                               (b, k) \<Rightarrow> s1\<lparr>backup := b, backup_size := k\<rparr>))
              in
              case live s2 of
                None \<Rightarrow> (Ok (), ledger_add n s2)
              | Some l \<Rightarrow>
                  (case try_send l (packet_frame serialized) of
                     None \<Rightarrow> (Ok (), (close_current_socket (ledger_add n s2))\<lparr>last_activity := clock s2\<rparr>)
                   | Some l' \<Rightarrow> (Ok (), s2\<lparr>live := Some l', last_activity := clock s2\<rparr>)))))"

definition keepalive_tick :: "secretbox \<Rightarrow> BackedActor \<Rightarrow> BackedActor" where
  "keepalive_tick sb s =
     (case keepalive (cfg s) of
        None \<Rightarrow> s
      | Some period \<Rightarrow>
          if live s = None \<or> shutting_down s then s
          else if period \<le> clock s - last_activity s then
            (if waiting_on_keepalive s then close_current_socket s
             else snd (backed_write sb KEEP_ALIVE []
                    (s\<lparr>waiting_on_keepalive := True, last_activity := clock s\<rparr>)))
          else s)"

section \<open>Recovering\<close>

definition sequence_header :: "BackedActor \<Rightarrow> SequenceHeader" where
  "sequence_header s =
     SequenceHeader_default\<lparr>SequenceHeader_sequenceNumber := Some (word_of_int (reader_seq s))\<rparr>"

definition catchup_for :: "BackedActor \<Rightarrow> i32 \<Rightarrow> RecoverError + bytes list" where
  "catchup_for s remote_seq =
     (let to_recover = writer_seq s - sint remote_seq in
      if to_recover < 0 then Err Peer_ahead
      else if 0 < to_recover then
        (if length (backup s) < nat to_recover
         then Err (Peer_too_far_behind to_recover (length (backup s)))
         else Ok (rev (take (nat to_recover) (backup s))))
      else Ok [])"

definition recover_exchange :: "buffa \<Rightarrow> BackedActor \<Rightarrow> nat \<Rightarrow> nat \<Rightarrow> bytes list timed" where
  "recover_exchange rt s idle deadline =
     tbind (write_frame_idle (write_to_SequenceHeader rt (sequence_header s)) idle deadline) (\<lambda>_.
     tbind (read_frame_idle MAX_HANDSHAKE_PROTO_LENGTH idle deadline) (\<lambda>remote_bytes.
     case decode_SequenceHeader rt remote_bytes of
       Inl e \<Rightarrow> traise Bad_SequenceHeader
     | Inr remote \<Rightarrow>
         (let remote_seq = (case SequenceHeader_sequenceNumber remote of None \<Rightarrow> 0 | Some v \<Rightarrow> v) in
          case catchup_for s remote_seq of
            Inl e \<Rightarrow> traise e
          | Inr entries \<Rightarrow>
              tbind (write_frame_idle
                  (write_to_CatchupBuffer rt (CatchupBuffer_default\<lparr>CatchupBuffer_buffer := entries\<rparr>))
                  idle deadline) (\<lambda>_.
              tbind (read_frame_idle DEFAULT_MAX_PROTO_LENGTH idle deadline) (\<lambda>their_bytes.
              case decode_CatchupBuffer rt their_bytes of
                Inl e \<Rightarrow> traise Bad_CatchupBuffer
              | Inr their_catchup \<Rightarrow> tret (CatchupBuffer_buffer their_catchup))))))"

definition recover_timed_actor ::
    "buffa \<Rightarrow> tstream \<Rightarrow> nat \<Rightarrow> nat \<Rightarrow> BackedActor \<Rightarrow> bool \<times> BackedActor" where
  "recover_timed_actor rt stream idle absolute s =
     (let deadline = clock s + absolute;
          old = live s;
          (result, stream') = recover_exchange rt s idle deadline (stream\<lparr>t_now := clock s\<rparr>);
          s1 = s\<lparr>live := None, clock := t_now stream'\<rparr>
      in
      case result of
        Inr entries \<Rightarrow>
          (True, s1\<lparr>inbox := inbox s1 @ entries, disconnected_bytes := None,
                    last_activity := clock s1, live := Some (spawn_socket_tasks stream'),
                    recoveries := Suc (recoveries s1)\<rparr>)
      | Inl e \<Rightarrow> (False, s1\<lparr>live := old\<rparr>))"

section \<open>The task\<close>

definition handle_cmd :: "secretbox \<Rightarrow> buffa \<Rightarrow> Cmd option \<Rightarrow> BackedActor \<Rightarrow> BackedActor" where
  "handle_cmd sb rt c s =
     (case c of
        Some (Cmd_Write h p) \<Rightarrow>
          (case backed_write sb h p s of (r, s') \<Rightarrow> s'\<lparr>replies := replies s' @ [Write_reply r]\<rparr>)
      | Some Cmd_KillSocket \<Rightarrow> close_current_socket s
      | Some (Cmd_Recover stream idle absolute) \<Rightarrow>
          (case recover_timed_actor rt stream idle absolute s of
             (ok, s') \<Rightarrow> s'\<lparr>replies := replies s' @ [Recover_reply ok]\<rparr>)
      | Some Cmd_Shutdown \<Rightarrow> s\<lparr>shutting_down := True\<rparr>
      | None \<Rightarrow> s\<lparr>shutting_down := True\<rparr>)"

text \<open>The end of \<^verbatim>\<open>run\<close>: the socket is dropped and the last event is offered.\<close>

definition run_end :: "BackedActor \<Rightarrow> BackedActor" where
  "run_end s =
     (let s1 = s\<lparr>live := None\<rparr> in
      if dead_sent s1 then s1\<lparr>pc := Finished\<rparr> else s1\<lparr>pc := Dying DR_Shutdown\<rparr>)"

definition die_crypto_mismatch :: "BackedActor \<Rightarrow> BackedActor" where
  "die_crypto_mismatch s = s\<lparr>shutting_down := True, dead_sent := True, pc := Dying DR_CryptoMismatch\<rparr>"

definition run_loop :: "BackedActor \<Rightarrow> BackedActor" where
  "run_loop s = (if shutting_down s then run_end s else s\<lparr>pc := AtSelect\<rparr>)"

text \<open>\<^verbatim>\<open>deliver_inbox\<close>, up to its next await: the next packet is parked in \<open>Sending\<close>.\<close>

definition deliver_inbox :: "secretbox \<Rightarrow> BackedActor \<Rightarrow> BackedActor" where
  "deliver_inbox sb s =
     (case inbox s of
        [] \<Rightarrow> run_loop s
      | bs # rest \<Rightarrow>
          (let s1 = s\<lparr>inbox := rest\<rparr> in
           case Packet_parse bs of
             None \<Rightarrow> die_crypto_mismatch s1
           | Some packet \<Rightarrow>
               if \<not> encrypted packet then die_crypto_mismatch s1
               else
                 (case Packet_decrypt sb packet (reader_crypto s1) of
                    Inl e \<Rightarrow> s1\<lparr>panicked := True, pc := Finished\<rparr>
                  | Inr (crypto, Inl e) \<Rightarrow> die_crypto_mismatch (s1\<lparr>reader_crypto := crypto\<rparr>)
                  | Inr (crypto, Inr p) \<Rightarrow>
                      s1\<lparr>reader_crypto := crypto, last_activity := clock s1,
                         waiting_on_keepalive := waiting_on_keepalive s1 \<and> header p \<noteq> KEEP_ALIVE,
                         reader_seq := reader_seq s1 + 1, accepted := accepted s1 @ [p], opened := opened s1 @ [bs],
                         pc := Sending (Ev_Packet p)\<rparr>)))"

text \<open>What follows the \<^verbatim>\<open>select!\<close> of \<^verbatim>\<open>run\<close>.\<close>

definition after_select :: "secretbox \<Rightarrow> BackedActor \<Rightarrow> BackedActor" where
  "after_select sb s =
     (if shutting_down s then run_end s
      else if socket_down_pending s then s\<lparr>socket_down_pending := False, pc := Sending Ev_SocketDown\<rparr>
      else deliver_inbox sb s)"

text \<open>\<^verbatim>\<open>send_event\<close> returns: the event went out (\<open>ok\<close>), the consumer is gone, or a command ended the session.\<close>

definition send_event_done :: "secretbox \<Rightarrow> BackedEvent \<Rightarrow> bool \<Rightarrow> BackedActor \<Rightarrow> BackedActor" where
  "send_event_done sb e ok s =
     (case e of
        Ev_Packet p \<Rightarrow> if ok then deliver_inbox sb s else run_loop s
      | _ \<Rightarrow> if ok then deliver_inbox sb s else run_end s)"

definition log_event :: "BackedEvent \<Rightarrow> BackedActor \<Rightarrow> BackedActor" where
  "log_event e s = s\<lparr>events := events s @ [e]\<rparr>"

text \<open>What can happen to a parked task.\<close>

datatype stimulus =
    Cmd_recv "Cmd option"
  | Frame_recv "(unit + bytes) option"
  | Tick
  | Event_sent bool
  | Dead_timeout
  | Drain nat
  | Writer_dies
  | Elapse nat

definition select_step :: "secretbox \<Rightarrow> buffa \<Rightarrow> stimulus \<Rightarrow> BackedActor \<Rightarrow> BackedActor" where
  "select_step sb rt e s =
     (case e of
        Cmd_recv c \<Rightarrow> after_select sb (handle_cmd sb rt c s)
      | Frame_recv f \<Rightarrow>
          (if live s = None then s
           else
             after_select sb
               (case f of
                  Some (Inr bs) \<Rightarrow> s\<lparr>inbox := inbox s @ [bs]\<rparr>
                | _ \<Rightarrow> close_current_socket s))
      | Tick \<Rightarrow> after_select sb (keepalive_tick sb s)
      | _ \<Rightarrow> s)"

definition sending_step ::
    "secretbox \<Rightarrow> buffa \<Rightarrow> BackedEvent \<Rightarrow> stimulus \<Rightarrow> BackedActor \<Rightarrow> BackedActor" where
  "sending_step sb rt ev e s =
     (case e of
        Cmd_recv c \<Rightarrow>
          (let s' = handle_cmd sb rt c s in
           if shutting_down s' then send_event_done sb ev False s' else s')
      | Event_sent ok \<Rightarrow>
          (if ok \<and> \<not> consumer_gone s then send_event_done sb ev True (log_event ev s)
           else send_event_done sb ev False (s\<lparr>consumer_gone := True\<rparr>))
      | _ \<Rightarrow> s)"

definition dying_step :: "DeadReason \<Rightarrow> stimulus \<Rightarrow> BackedActor \<Rightarrow> BackedActor" where
  "dying_step r e s =
     (let end_task = (\<lambda>s. s\<lparr>live := None, pc := Finished\<rparr>) in
      case e of
        Event_sent ok \<Rightarrow>
          (if ok \<and> \<not> consumer_gone s then end_task (log_event (Ev_Dead r) s)
           else end_task (s\<lparr>consumer_gone := True\<rparr>))
      | Dead_timeout \<Rightarrow> end_task s
      | _ \<Rightarrow> s)"

text \<open>Progress of the writer task of the live socket, and of the clock, happens at any time.\<close>

definition environment_step :: "stimulus \<Rightarrow> BackedActor \<Rightarrow> BackedActor" where
  "environment_step e s =
     (case e of
        Drain n \<Rightarrow> s\<lparr>live := map_option (\<lambda>l. l\<lparr>write_q := drop n (write_q l)\<rparr>) (live s)\<rparr>
      | Writer_dies \<Rightarrow> s\<lparr>live := map_option (\<lambda>l. l\<lparr>write_closed := True\<rparr>) (live s)\<rparr>
      | Elapse d \<Rightarrow> s\<lparr>clock := clock s + d\<rparr>
      | _ \<Rightarrow> s)"

definition backed_step :: "secretbox \<Rightarrow> buffa \<Rightarrow> BackedActor \<Rightarrow> stimulus \<Rightarrow> BackedActor" where
  "backed_step sb rt s e =
     environment_step e
       (case pc s of
          AtSelect \<Rightarrow> select_step sb rt e s
        | Sending ev \<Rightarrow> sending_step sb rt ev e s
        | Dying r \<Rightarrow> dying_step r e s
        | Finished \<Rightarrow> s)"

definition backed_run :: "secretbox \<Rightarrow> buffa \<Rightarrow> BackedActor \<Rightarrow> stimulus list \<Rightarrow> BackedActor" where
  "backed_run sb rt s es = foldl (backed_step sb rt) s es"

section \<open>The handle\<close>

text \<open>
  \<^verbatim>\<open>BackedHandle\<close>: a command that reaches a task which still serves commands is answered by it; a
  command to a task that has ended is answered by the closed channel.
\<close>

definition BackedHandle_write ::
    "secretbox \<Rightarrow> buffa \<Rightarrow> u8 \<Rightarrow> bytes \<Rightarrow> BackedActor \<Rightarrow> (WriteError + unit) \<times> BackedActor" where
  "BackedHandle_write sb rt h p s =
     (let s' = backed_step sb rt s (Cmd_recv (Some (Cmd_Write h p))) in
      if length (replies s') = Suc (length (replies s)) then
        (case last (replies s') of Write_reply r \<Rightarrow> (r, s') | _ \<Rightarrow> (Err WE_Shutdown, s'))
      else (Err WE_Shutdown, s'))"

definition BackedHandle_kill_socket :: "secretbox \<Rightarrow> buffa \<Rightarrow> BackedActor \<Rightarrow> BackedActor" where
  "BackedHandle_kill_socket sb rt s = backed_step sb rt s (Cmd_recv (Some Cmd_KillSocket))"

definition BackedHandle_recover_timed ::
    "secretbox \<Rightarrow> buffa \<Rightarrow> tstream \<Rightarrow> nat \<Rightarrow> nat \<Rightarrow> BackedActor \<Rightarrow> bool \<times> BackedActor" where
  "BackedHandle_recover_timed sb rt stream idle absolute s =
     (let s' = backed_step sb rt s (Cmd_recv (Some (Cmd_Recover stream idle absolute))) in
      if length (replies s') = Suc (length (replies s)) then
        (case last (replies s') of Recover_reply ok \<Rightarrow> (ok, s') | _ \<Rightarrow> (False, s'))
      else (False, s'))"

definition BackedHandle_recover ::
    "secretbox \<Rightarrow> buffa \<Rightarrow> tstream \<Rightarrow> BackedActor \<Rightarrow> bool \<times> BackedActor" where
  "BackedHandle_recover sb rt stream s =
     BackedHandle_recover_timed sb rt stream RECOVER_STEP_IDLE RECOVER_ABSOLUTE s"

definition BackedHandle_shutdown :: "secretbox \<Rightarrow> buffa \<Rightarrow> BackedActor \<Rightarrow> BackedActor" where
  "BackedHandle_shutdown sb rt s = backed_step sb rt s (Cmd_recv (Some Cmd_Shutdown))"

end
