(* ===== verification/Backed_Inv.thy ===== *)
theory Backed_Inv
  imports Backed
begin

text \<open>
  The invariant of the backed connection and what it gives: the backup is a suffix of the
  ciphertext history, both nonce counters equal the packet counters, a socket is absent exactly
  while the disconnect ledger is open, no delivered packet is unauthenticated, and the task never
  panics.
\<close>

named_theorems backed_frame

section \<open>The ciphertext history\<close>

definition sealed_all :: "secretbox \<Rightarrow> CryptoHandler \<Rightarrow> (u8 \<times> bytes) list \<Rightarrow> bytes list" where
  "sealed_all sb h ps = map (\<lambda>i. sealed_packet sb h i (ps ! i)) [0..<length ps]"

lemma length_sealed_all [simp]: "length (sealed_all sb h ps) = length ps"
  by (simp add: sealed_all_def)

lemma sealed_all_snoc [simp]:
  "sealed_all sb h (ps @ [x]) = sealed_all sb h ps @ [sealed_packet sb h (length ps) x]"
  by (simp add: sealed_all_def nth_append)

lemma nth_sealed_all [simp]: "i < length ps \<Longrightarrow> sealed_all sb h ps ! i = sealed_packet sb h i (ps ! i)"
  by (simp add: sealed_all_def)

definition writer0 :: "BackedConfig \<Rightarrow> CryptoHandler" where
  "writer0 c = CryptoHandler_new (key c) (writer_msb c)"

definition reader0 :: "BackedConfig \<Rightarrow> CryptoHandler" where
  "reader0 c = CryptoHandler_new (key c) (reader_msb c)"

definition history :: "secretbox \<Rightarrow> BackedActor \<Rightarrow> bytes list" where
  "history sb s = sealed_all sb (writer0 (cfg s)) (written s)"

definition total_length :: "bytes list \<Rightarrow> int" where
  "total_length bss = (\<Sum>bs\<leftarrow>bss. int (length bs))"

lemma total_length_simps [simp]:
  "total_length [] = 0"
  "total_length (bs # bss) = int (length bs) + total_length bss"
  "total_length (xs @ ys) = total_length xs + total_length ys"
  by (simp_all add: total_length_def)

lemma total_length_nonneg [simp]: "0 \<le> total_length bss"
  by (induction bss) simp_all

section \<open>The invariant\<close>

definition writer_inv :: "secretbox \<Rightarrow> BackedActor \<Rightarrow> bool" where
  "writer_inv sb s \<longleftrightarrow>
     writer_crypto s = advanced (writer0 (cfg s)) (length (written s)) \<and>
     writer_seq s = int (length (written s)) \<and>
     length (backup s) \<le> length (written s) \<and>
     rev (backup s) = drop (length (written s) - length (backup s)) (history sb s) \<and>
     backup_size s = total_length (backup s)"

text \<open>The packet \<open>p\<close> is what frame \<open>f\<close> opens to under nonce \<open>i\<close> of handler \<open>h\<close>.\<close>

definition opens_to :: "secretbox \<Rightarrow> CryptoHandler \<Rightarrow> nat \<Rightarrow> bytes \<Rightarrow> Packet \<Rightarrow> bool" where
  "opens_to sb h i f p \<longleftrightarrow>
     (\<exists>ct. Packet_parse f = Some \<lparr>encrypted = True, header = header p, payload = ct\<rparr> \<and>
        unseal sb (cipher h) (nonce_at h i) ct = Some (payload p) \<and> \<not> encrypted p)"

definition opened_inv :: "secretbox \<Rightarrow> BackedActor \<Rightarrow> bool" where
  "opened_inv sb s \<longleftrightarrow>
     length (opened s) = length (accepted s) \<and>
     (\<forall>i < length (accepted s). opens_to sb (reader0 (cfg s)) (Suc i) (opened s ! i) (accepted s ! i))"

definition reader_inv :: "secretbox \<Rightarrow> BackedActor \<Rightarrow> bool" where
  "reader_inv sb s \<longleftrightarrow>
     opened_inv sb s \<and> reader_seq s = int (length (accepted s)) \<and>
     (\<not> dead_sent s \<longrightarrow> reader_crypto s = advanced (reader0 (cfg s)) (length (accepted s))) \<and>
     \<not> panicked s"

definition ledger_inv :: "BackedActor \<Rightarrow> bool" where
  "ledger_inv s \<longleftrightarrow> (live s = None \<longleftrightarrow> disconnected_bytes s \<noteq> None)"

definition running :: "BackedActor \<Rightarrow> bool" where
  "running s \<longleftrightarrow> pc s = AtSelect \<or> (\<exists>e. pc s = Sending e)"

fun packets_of :: "BackedEvent list \<Rightarrow> Packet list" where
  "packets_of [] = []"
| "packets_of (Ev_Packet p # es) = p # packets_of es"
| "packets_of (e # es) = packets_of es"

lemma packets_of_append [simp]: "packets_of (xs @ ys) = packets_of xs @ packets_of ys"
  by (induction xs rule: packets_of.induct) simp_all

definition parked :: "BackedActor \<Rightarrow> Packet list" where
  "parked s = (case pc s of Sending e \<Rightarrow> packets_of [e] | _ \<Rightarrow> [])"

definition delivery_inv :: "BackedActor \<Rightarrow> bool" where
  "delivery_inv s \<longleftrightarrow>
     (\<exists>lost. accepted s = packets_of (events s) @ lost \<and>
        (running s \<longrightarrow> \<not> consumer_gone s \<longrightarrow> lost = parked s))"

definition backed_inv :: "secretbox \<Rightarrow> BackedActor \<Rightarrow> bool" where
  "backed_inv sb s \<longleftrightarrow>
     writer_inv sb s \<and> reader_inv sb s \<and> delivery_inv s \<and>
     (running s \<longrightarrow> ledger_inv s \<and> \<not> shutting_down s \<and> \<not> dead_sent s)"

section \<open>Trimming\<close>

lemma trim_backup_take:
  "trim_backup b n = (b', n') \<Longrightarrow> n = total_length b \<Longrightarrow>
    b' = take (length b') b \<and> length b' \<le> length b \<and> n' = total_length b' \<and> n' \<le> MAX_BACKUP_BYTES"
proof (induction b n rule: trim_backup.induct)
  case (1 b n)
  show ?case
  proof (cases "MAX_BACKUP_BYTES < n \<and> b \<noteq> []")
    case True
    then have eq: "trim_backup b n = trim_backup (butlast b) (n - int (length (last b)))"
      by (simp add: trim_backup.simps [of b n])
    from True have b: "b = butlast b @ [last b]" by simp
    then have "total_length b = total_length (butlast b) + int (length (last b))"
      by (metis total_length_simps add.right_neutral)
    with 1 True eq have IH: "b' = take (length b') (butlast b)" "length b' \<le> length (butlast b)"
        "n' = total_length b'" "n' \<le> MAX_BACKUP_BYTES"
      by auto
    then have "b' = take (length b') b"
      using b by (metis take_append diff_is_0_eq take0 append_Nil2)
    with IH show ?thesis by auto
  next
    case False
    with 1(3) have n: "n \<le> MAX_BACKUP_BYTES"
      by (auto simp: MAX_BACKUP_BYTES_def)
    then have "trim_backup b n = (b, n)"
      by (subst trim_backup.simps) simp
    with 1(2,3) n show ?thesis by simp
  qed
qed

section \<open>What each operation leaves alone\<close>

lemma close_current_socket_frame [backed_frame]:
  "cfg (close_current_socket s) = cfg s"
  "writer_crypto (close_current_socket s) = writer_crypto s"
  "reader_crypto (close_current_socket s) = reader_crypto s"
  "backup (close_current_socket s) = backup s"
  "backup_size (close_current_socket s) = backup_size s"
  "writer_seq (close_current_socket s) = writer_seq s"
  "reader_seq (close_current_socket s) = reader_seq s"
  "inbox (close_current_socket s) = inbox s"
  "shutting_down (close_current_socket s) = shutting_down s"
  "dead_sent (close_current_socket s) = dead_sent s"
  "clock (close_current_socket s) = clock s"
  "events (close_current_socket s) = events s"
  "consumer_gone (close_current_socket s) = consumer_gone s"
  "replies (close_current_socket s) = replies s"
  "pc (close_current_socket s) = pc s"
  "panicked (close_current_socket s) = panicked s"
  "written (close_current_socket s) = written s"
  "accepted (close_current_socket s) = accepted s"
  "opened (close_current_socket s) = opened s"
  "recoveries (close_current_socket s) = recoveries s"
  "live (close_current_socket s) = None"
  "waiting_on_keepalive (close_current_socket s) = False"
  "disconnected_bytes (close_current_socket s) = Some (case disconnected_bytes s of None \<Rightarrow> 0 | Some n \<Rightarrow> n)"
  by (simp_all add: close_current_socket_def Let_def split: option.split)

lemma Packet_encrypt_new_Inr:
  "\<exists>c h'. Packet_encrypt sb (Packet_new h p) hd' = Ok (\<lparr>encrypted = True, header = h, payload = c\<rparr>, h')"
  by (simp add: Packet_encrypt_def Packet_new_def split: prod.split)

lemma backed_write_frame [backed_frame]:
  fixes s :: BackedActor
  shows "cfg (snd (backed_write sb h p s)) = cfg s"
    and "reader_crypto (snd (backed_write sb h p s)) = reader_crypto s"
    and "reader_seq (snd (backed_write sb h p s)) = reader_seq s"
    and "inbox (snd (backed_write sb h p s)) = inbox s"
    and "shutting_down (snd (backed_write sb h p s)) = shutting_down s"
    and "dead_sent (snd (backed_write sb h p s)) = dead_sent s"
    and "clock (snd (backed_write sb h p s)) = clock s"
    and "events (snd (backed_write sb h p s)) = events s"
    and "consumer_gone (snd (backed_write sb h p s)) = consumer_gone s"
    and "replies (snd (backed_write sb h p s)) = replies s"
    and "pc (snd (backed_write sb h p s)) = pc s"
    and "panicked (snd (backed_write sb h p s)) = panicked s"
    and "accepted (snd (backed_write sb h p s)) = accepted s"
    and "opened (snd (backed_write sb h p s)) = opened s"
    and "recoveries (snd (backed_write sb h p s)) = recoveries s"
proof -
  obtain c h' where "Packet_encrypt sb (Packet_new h p) (writer_crypto s) =
      Ok (\<lparr>encrypted = True, header = h, payload = c\<rparr>, h')"
    using Packet_encrypt_new_Inr by blast
  note unf = backed_write_def this ledger_add_def Let_def close_current_socket_frame
  show "cfg (snd (backed_write sb h p s)) = cfg s"
    "reader_crypto (snd (backed_write sb h p s)) = reader_crypto s"
    "reader_seq (snd (backed_write sb h p s)) = reader_seq s"
    "inbox (snd (backed_write sb h p s)) = inbox s"
    "shutting_down (snd (backed_write sb h p s)) = shutting_down s"
    "dead_sent (snd (backed_write sb h p s)) = dead_sent s"
    "clock (snd (backed_write sb h p s)) = clock s"
    "events (snd (backed_write sb h p s)) = events s"
    "consumer_gone (snd (backed_write sb h p s)) = consumer_gone s"
    "replies (snd (backed_write sb h p s)) = replies s"
    "pc (snd (backed_write sb h p s)) = pc s"
    "panicked (snd (backed_write sb h p s)) = panicked s"
    "accepted (snd (backed_write sb h p s)) = accepted s"
    "opened (snd (backed_write sb h p s)) = opened s"
    "recoveries (snd (backed_write sb h p s)) = recoveries s"
    by (auto simp: unf split: option.split prod.split)
qed

section \<open>Writing\<close>

text \<open>The write path with the encryption resolved, in three parts.\<close>

definition pushed :: "secretbox \<Rightarrow> u8 \<Rightarrow> bytes \<Rightarrow> BackedActor \<Rightarrow> BackedActor" where
  "pushed sb h p s =
     (let ser = sealed_packet sb (writer0 (cfg s)) (length (written s)) (h, p) in
      s\<lparr>writer_crypto := advanced (writer0 (cfg s)) (Suc (length (written s))), backup := ser # backup s,
        backup_size := backup_size s + int (length ser), writer_seq := writer_seq s + 1,
        written := written s @ [(h, p)]\<rparr>)"

definition trimmed :: "BackedActor \<Rightarrow> BackedActor" where
  "trimmed s = (case trim_backup (backup s) (backup_size s) of (b, k) \<Rightarrow> s\<lparr>backup := b, backup_size := k\<rparr>)"

definition over_budget :: "bytes \<Rightarrow> BackedActor \<Rightarrow> bool" where
  "over_budget p s =
     (case disconnected_bytes s of
        None \<Rightarrow> False
      | Some buffered \<Rightarrow> DISCONNECT_BUFFER_BYTES < buffered + int (length p))"

lemma backed_write_eq:
  assumes "writer_inv sb s"
  shows "backed_write sb h p s =
    (if shutting_down s then (Err WE_Shutdown, s)
     else if over_budget p s then (Err WE_Skipped, s)
     else
       (let ser = sealed_packet sb (writer0 (cfg s)) (length (written s)) (h, p);
            n = int (length ser) in
        case live s of
          None \<Rightarrow> (Ok (), ledger_add n (pushed sb h p s))
        | Some l \<Rightarrow>
            (case try_send l (packet_frame ser) of
               None \<Rightarrow> (Ok (), (close_current_socket (ledger_add n (trimmed (pushed sb h p s))))\<lparr>last_activity := clock s\<rparr>)
             | Some l' \<Rightarrow> (Ok (), (trimmed (pushed sb h p s))\<lparr>live := Some l', last_activity := clock s\<rparr>))))"
proof -
  have enc: "Packet_encrypt sb (Packet_new h p) (writer_crypto s) =
      Ok (\<lparr>encrypted = True, header = h,
            payload = seal sb (cipher (writer0 (cfg s))) (nonce_at (writer0 (cfg s)) (Suc (length (written s)))) p\<rparr>,
          advanced (writer0 (cfg s)) (Suc (length (written s))))"
    using assms by (simp add: writer_inv_def Packet_encrypt_new)
  show ?thesis
    unfolding backed_write_def enc over_budget_def
    by (auto simp: pushed_def trimmed_def Let_def sealed_packet_def split: option.split prod.split)
qed

lemma writer_inv_pushed: "writer_inv sb s \<Longrightarrow> writer_inv sb (pushed sb h p s)"
  by (auto simp: writer_inv_def pushed_def history_def Let_def Suc_diff_le)

lemma writer_inv_trimmed:
  assumes "writer_inv sb s"
  shows "writer_inv sb (trimmed s)"
proof -
  obtain b k where t: "trim_backup (backup s) (backup_size s) = (b, k)"
    by (cases "trim_backup (backup s) (backup_size s)")
  from trim_backup_take [OF this] assms
  have b: "b = take (length b) (backup s)" "length b \<le> length (backup s)" "k = total_length b"
    by (auto simp: writer_inv_def)
  let ?n = "length (backup s)"
  have "rev b = drop (?n - length b) (rev (backup s))"
    using b(1) by (metis rev_take)
  with assms b(2) have "rev b = drop (length (written s) - length b) (history sb s)"
    by (simp add: writer_inv_def)
  with assms b t show ?thesis
    by (auto simp: writer_inv_def trimmed_def history_def)
qed

lemma pushed_frame [backed_frame]:
  "cfg (pushed sb h p s) = cfg s" "live (pushed sb h p s) = live s"
  "disconnected_bytes (pushed sb h p s) = disconnected_bytes s" "clock (pushed sb h p s) = clock s"
  "written (pushed sb h p s) = written s @ [(h, p)]"
  by (simp_all add: pushed_def Let_def)

lemma trimmed_frame [backed_frame]:
  "cfg (trimmed s) = cfg s" "live (trimmed s) = live s" "written (trimmed s) = written s"
  "disconnected_bytes (trimmed s) = disconnected_bytes s" "clock (trimmed s) = clock s"
  by (simp_all add: trimmed_def split: prod.split)

lemma writer_inv_upd [simp]:
  "writer_inv sb (s\<lparr>live := l\<rparr>) = writer_inv sb s"
  "writer_inv sb (s\<lparr>last_activity := t\<rparr>) = writer_inv sb s"
  "writer_inv sb (s\<lparr>waiting_on_keepalive := w\<rparr>) = writer_inv sb s"
  "writer_inv sb (s\<lparr>disconnected_bytes := d\<rparr>) = writer_inv sb s"
  "writer_inv sb (s\<lparr>inbox := i\<rparr>) = writer_inv sb s"
  "writer_inv sb (s\<lparr>shutting_down := b\<rparr>) = writer_inv sb s"
  "writer_inv sb (s\<lparr>dead_sent := b\<rparr>) = writer_inv sb s"
  "writer_inv sb (s\<lparr>socket_down_pending := b\<rparr>) = writer_inv sb s"
  "writer_inv sb (s\<lparr>clock := c\<rparr>) = writer_inv sb s"
  "writer_inv sb (s\<lparr>events := es\<rparr>) = writer_inv sb s"
  "writer_inv sb (s\<lparr>consumer_gone := b\<rparr>) = writer_inv sb s"
  "writer_inv sb (s\<lparr>replies := rs\<rparr>) = writer_inv sb s"
  "writer_inv sb (s\<lparr>pc := q\<rparr>) = writer_inv sb s"
  "writer_inv sb (s\<lparr>reader_crypto := c'\<rparr>) = writer_inv sb s"
  "writer_inv sb (s\<lparr>reader_seq := k\<rparr>) = writer_inv sb s"
  "writer_inv sb (s\<lparr>accepted := as\<rparr>) = writer_inv sb s"
  "writer_inv sb (s\<lparr>opened := fs\<rparr>) = writer_inv sb s"
  "writer_inv sb (s\<lparr>recoveries := m\<rparr>) = writer_inv sb s"
  by (simp_all add: writer_inv_def history_def)

lemma ledger_inv_upd [simp]:
  "ledger_inv (s\<lparr>replies := rs\<rparr>) = ledger_inv s"
  "ledger_inv (s\<lparr>shutting_down := b\<rparr>) = ledger_inv s"
  "ledger_inv (s\<lparr>waiting_on_keepalive := b\<rparr>) = ledger_inv s"
  "ledger_inv (s\<lparr>last_activity := t\<rparr>) = ledger_inv s"
  by (simp_all add: ledger_inv_def)

lemma writer_inv_ledger [simp]: "writer_inv sb (ledger_add n s) = writer_inv sb s"
  by (simp add: ledger_add_def)

lemma writer_inv_close [simp]: "writer_inv sb (close_current_socket s) = writer_inv sb s"
  by (simp add: close_current_socket_def Let_def split: option.split)

lemma writer_inv_write: "writer_inv sb s \<Longrightarrow> writer_inv sb (snd (backed_write sb h p s))"
  by (auto simp: backed_write_eq Let_def writer_inv_pushed writer_inv_trimmed split: option.split)

lemma ledger_inv_close [simp]: "ledger_inv (close_current_socket s)"
  by (simp add: ledger_inv_def backed_frame)

lemma ledger_inv_write:
  "writer_inv sb s \<Longrightarrow> ledger_inv s \<Longrightarrow> ledger_inv (snd (backed_write sb h p s))"
  by (auto simp: backed_write_eq Let_def ledger_inv_def backed_frame ledger_add_def split: option.split)

end
