(* ===== verification/Backed_Step.thy ===== *)
theory Backed_Step
  imports Backed_Inv
begin

text \<open>
  Every stimulus keeps the invariant of the backed connection.
\<close>

section \<open>Commands\<close>

lemma recover_frame [backed_frame]:
  fixes s :: BackedActor
  shows "cfg (snd (recover_timed_actor rt st idle a s)) = cfg s"
    and "writer_crypto (snd (recover_timed_actor rt st idle a s)) = writer_crypto s"
    and "reader_crypto (snd (recover_timed_actor rt st idle a s)) = reader_crypto s"
    and "backup (snd (recover_timed_actor rt st idle a s)) = backup s"
    and "backup_size (snd (recover_timed_actor rt st idle a s)) = backup_size s"
    and "writer_seq (snd (recover_timed_actor rt st idle a s)) = writer_seq s"
    and "reader_seq (snd (recover_timed_actor rt st idle a s)) = reader_seq s"
    and "shutting_down (snd (recover_timed_actor rt st idle a s)) = shutting_down s"
    and "dead_sent (snd (recover_timed_actor rt st idle a s)) = dead_sent s"
    and "events (snd (recover_timed_actor rt st idle a s)) = events s"
    and "consumer_gone (snd (recover_timed_actor rt st idle a s)) = consumer_gone s"
    and "replies (snd (recover_timed_actor rt st idle a s)) = replies s"
    and "pc (snd (recover_timed_actor rt st idle a s)) = pc s"
    and "panicked (snd (recover_timed_actor rt st idle a s)) = panicked s"
    and "written (snd (recover_timed_actor rt st idle a s)) = written s"
    and "accepted (snd (recover_timed_actor rt st idle a s)) = accepted s"
    and "opened (snd (recover_timed_actor rt st idle a s)) = opened s"
  by (simp_all add: recover_timed_actor_def Let_def split: prod.split sum.split)

lemma writer_inv_recover [simp]:
  "writer_inv sb (snd (recover_timed_actor rt st idle a s)) = writer_inv sb s"
  by (simp add: writer_inv_def history_def backed_frame)

lemma ledger_inv_recover: "ledger_inv s \<Longrightarrow> ledger_inv (snd (recover_timed_actor rt st idle a s))"
  by (simp add: recover_timed_actor_def ledger_inv_def Let_def split: prod.split sum.split)

lemma handle_cmd_split:
  "handle_cmd sb rt c s =
     (case c of
        Some (Cmd_Write h p) \<Rightarrow>
          (snd (backed_write sb h p s))\<lparr>replies := replies s @ [Write_reply (fst (backed_write sb h p s))]\<rparr>
      | Some Cmd_KillSocket \<Rightarrow> close_current_socket s
      | Some (Cmd_Recover st idle a) \<Rightarrow>
          (snd (recover_timed_actor rt st idle a s))
            \<lparr>replies := replies s @ [Recover_reply (fst (recover_timed_actor rt st idle a s))]\<rparr>
      | _ \<Rightarrow> s\<lparr>shutting_down := True\<rparr>)"
  by (simp add: handle_cmd_def case_prod_unfold backed_frame split: option.split Cmd.split)

lemma handle_cmd_frame [backed_frame]:
  fixes s :: BackedActor
  shows "cfg (handle_cmd sb rt c s) = cfg s"
    and "reader_crypto (handle_cmd sb rt c s) = reader_crypto s"
    and "reader_seq (handle_cmd sb rt c s) = reader_seq s"
    and "dead_sent (handle_cmd sb rt c s) = dead_sent s"
    and "events (handle_cmd sb rt c s) = events s"
    and "consumer_gone (handle_cmd sb rt c s) = consumer_gone s"
    and "pc (handle_cmd sb rt c s) = pc s"
    and "panicked (handle_cmd sb rt c s) = panicked s"
    and "accepted (handle_cmd sb rt c s) = accepted s"
    and "opened (handle_cmd sb rt c s) = opened s"
  by (simp_all add: handle_cmd_split backed_frame split: option.split Cmd.split)

definition core_inv :: "secretbox \<Rightarrow> BackedActor \<Rightarrow> bool" where
  "core_inv sb s \<longleftrightarrow> writer_inv sb s \<and> reader_inv sb s \<and> ledger_inv s"

lemma core_handle_cmd:
  assumes "core_inv sb s"
  shows "core_inv sb (handle_cmd sb rt c s)"
proof -
  have "writer_inv sb (handle_cmd sb rt c s)" and "ledger_inv (handle_cmd sb rt c s)"
    using assms
    by (simp_all add: core_inv_def handle_cmd_split writer_inv_write ledger_inv_write ledger_inv_recover
        split: option.split Cmd.split)
  with assms show ?thesis
    by (simp add: core_inv_def reader_inv_def opened_inv_def backed_frame)
qed

lemma keepalive_tick_frame [backed_frame]:
  fixes s :: BackedActor
  shows "cfg (keepalive_tick sb s) = cfg s"
    and "reader_crypto (keepalive_tick sb s) = reader_crypto s"
    and "reader_seq (keepalive_tick sb s) = reader_seq s"
    and "dead_sent (keepalive_tick sb s) = dead_sent s"
    and "events (keepalive_tick sb s) = events s"
    and "consumer_gone (keepalive_tick sb s) = consumer_gone s"
    and "pc (keepalive_tick sb s) = pc s"
    and "panicked (keepalive_tick sb s) = panicked s"
    and "accepted (keepalive_tick sb s) = accepted s"
    and "opened (keepalive_tick sb s) = opened s"
  by (simp_all add: keepalive_tick_def backed_frame split: option.split)

lemma core_keepalive_tick:
  assumes "core_inv sb s"
  shows "core_inv sb (keepalive_tick sb s)"
proof -
  have "writer_inv sb (s\<lparr>waiting_on_keepalive := True, last_activity := clock s\<rparr>)"
    using assms by (simp add: core_inv_def)
  moreover from assms have "ledger_inv (s\<lparr>waiting_on_keepalive := True, last_activity := clock s\<rparr>)"
    by (simp add: core_inv_def ledger_inv_def)
  ultimately have "writer_inv sb (keepalive_tick sb s) \<and> ledger_inv (keepalive_tick sb s)"
    using assms by (auto simp: keepalive_tick_def core_inv_def writer_inv_write ledger_inv_write split: option.split)
  with assms show ?thesis
    by (simp add: core_inv_def reader_inv_def opened_inv_def backed_frame)
qed

section \<open>Every step keeps the invariant\<close>

definition settled :: "BackedActor \<Rightarrow> bool" where
  "settled s \<longleftrightarrow> (\<exists>lost. accepted s = packets_of (events s) @ lost \<and> (\<not> consumer_gone s \<longrightarrow> lost = []))"

lemma run_end_inv:
  assumes "core_inv sb s" and "\<exists>lost. accepted s = packets_of (events s) @ lost"
  shows "backed_inv sb (run_end s)"
  using assms
  by (auto simp: run_end_def backed_inv_def core_inv_def delivery_inv_def running_def reader_inv_def opened_inv_def Let_def)

lemma run_loop_inv:
  assumes "core_inv sb s" and "settled s" and "\<not> dead_sent s"
  shows "backed_inv sb (run_loop s)"
proof (cases "shutting_down s")
  case True
  with assms show ?thesis by (auto simp: run_loop_def settled_def intro: run_end_inv)
next
  case False
  with assms show ?thesis
    by (auto simp: run_loop_def backed_inv_def core_inv_def delivery_inv_def settled_def parked_def
        reader_inv_def opened_inv_def ledger_inv_def)
qed

lemma die_inv:
  assumes "writer_inv sb s" and "opened_inv sb s" and "reader_seq s = int (length (accepted s))" and "\<not> panicked s"
    and "settled s"
  shows "backed_inv sb (die_crypto_mismatch s)"
  using assms
  by (auto simp: die_crypto_mismatch_def backed_inv_def delivery_inv_def settled_def running_def reader_inv_def opened_inv_def)

lemma deliver_inbox_inv:
  assumes "core_inv sb s" and "settled s" and "\<not> dead_sent s" and "\<not> shutting_down s"
  shows "backed_inv sb (deliver_inbox sb s)"
proof (cases "inbox s")
  case Nil
  with assms show ?thesis by (simp add: deliver_inbox_def run_loop_inv)
next
  case (Cons bs rest)
  let ?s1 = "s\<lparr>inbox := rest\<rparr>"
  from assms have w: "writer_inv sb s" and r: "reader_seq s = int (length (accepted s))" "\<not> panicked s" "opened_inv sb s"
    and rc: "reader_crypto s = advanced (reader0 (cfg s)) (length (accepted s))" and l: "ledger_inv s"
    by (auto simp: core_inv_def reader_inv_def)
  have die: "backed_inv sb (die_crypto_mismatch (?s1\<lparr>reader_crypto := c\<rparr>))" for c
    using w r assms(2) by (intro die_inv) (simp_all add: settled_def opened_inv_def)
  from die [of "reader_crypto s"] have die': "backed_inv sb (die_crypto_mismatch ?s1)" by simp
  show ?thesis
  proof (cases "Packet_parse bs")
    case None
    with Cons die' show ?thesis by (simp add: deliver_inbox_def)
  next
    case (Some packet)
    show ?thesis
    proof (cases "encrypted packet")
      case False
      with Cons Some die' show ?thesis by (simp add: deliver_inbox_def)
    next
      case True
      obtain c r' where cd: "crypto_decrypt sb (reader_crypto s) (payload packet) = (c, r')" by fastforce
      show ?thesis
      proof (cases r')
        case (Inl e)
        with Cons Some True cd die show ?thesis by (simp add: deliver_inbox_def Packet_decrypt_def)
      next
        case (Inr m)
        with cd have c: "c = advanced (reader0 (cfg s)) (Suc (length (accepted s)))"
          by (auto simp: crypto_decrypt_def rc Let_def split: if_splits option.splits)
        let ?p = "packet\<lparr>payload := m, encrypted := False\<rparr>"
        have "opens_to sb (reader0 (cfg s)) (Suc (length (accepted s))) bs ?p"
          using cd Inr Some True unfolding opens_to_def
          by (cases packet) (auto simp: crypto_decrypt_def rc nonce_at_def Let_def split: if_splits option.splits)
        with r(3) have opened: "opened_inv sb (s\<lparr>accepted := accepted s @ [?p], opened := opened s @ [bs]\<rparr>)"
          by (auto simp: opened_inv_def nth_append less_Suc_eq)
        from assms(2) obtain lost where "accepted s = packets_of (events s) @ lost"
          and "\<not> consumer_gone s \<longrightarrow> lost = []"
          unfolding settled_def by blast
        with Cons Some True cd Inr c w r l opened assms(3,4) show ?thesis
          by (auto simp: deliver_inbox_def Packet_decrypt_def backed_inv_def reader_inv_def opened_inv_def delivery_inv_def
              parked_def ledger_inv_def)
      qed
    qed
  qed
qed

lemma core_upd [simp]:
  "core_inv sb (s\<lparr>inbox := i\<rparr>) = core_inv sb s"
  "core_inv sb (s\<lparr>events := es\<rparr>) = core_inv sb s"
  "core_inv sb (s\<lparr>consumer_gone := b\<rparr>) = core_inv sb s"
  by (simp_all add: core_inv_def reader_inv_def opened_inv_def ledger_inv_def)

lemma settled_upd [simp]:
  "settled (s\<lparr>inbox := i\<rparr>) = settled s"
  by (simp add: settled_def)

lemma core_close: "core_inv sb s \<Longrightarrow> core_inv sb (close_current_socket s)"
  by (simp add: core_inv_def reader_inv_def opened_inv_def backed_frame)

lemma after_select_inv:
  assumes "core_inv sb s" and "settled s" and "\<not> dead_sent s"
  shows "backed_inv sb (after_select sb s)"
proof -
  have "backed_inv sb (s\<lparr>socket_down_pending := False, pc := Sending Ev_SocketDown\<rparr>)" if "\<not> shutting_down s"
    using assms that
    by (auto simp: backed_inv_def core_inv_def reader_inv_def opened_inv_def ledger_inv_def delivery_inv_def settled_def parked_def)
  with assms show ?thesis
    by (auto simp: after_select_def deliver_inbox_inv settled_def intro!: run_end_inv)
qed

lemma running_core:
  assumes "backed_inv sb s" and "running s"
  shows "core_inv sb s" and "\<not> dead_sent s" and "\<not> shutting_down s"
  using assms by (simp_all add: backed_inv_def core_inv_def)

lemma select_step_inv:
  assumes "backed_inv sb s" and pc: "pc s = AtSelect"
  shows "backed_inv sb (select_step sb rt e s)"
proof -
  have run: "running s" using pc by (simp add: running_def)
  note core = running_core [OF assms(1) run]
  have set: "settled s"
    using assms run by (auto simp: backed_inv_def delivery_inv_def settled_def parked_def)
  have keeps: "settled s'" if "accepted s' = accepted s" "events s' = events s" "consumer_gone s' = consumer_gone s" for s'
    using set that by (simp add: settled_def)
  show ?thesis
    using assms core set
    by (cases e) (auto simp: select_step_def core_handle_cmd core_keepalive_tick core_close backed_frame keeps
        intro!: after_select_inv split: option.split sum.split)
qed

lemma sending_step_inv:
  assumes inv: "backed_inv sb s" and pc: "pc s = Sending ev"
  shows "backed_inv sb (sending_step sb rt ev e s)"
proof -
  have run: "running s" using pc by (simp add: running_def)
  note core = running_core [OF inv run]
  from inv run pc obtain lost where lost: "accepted s = packets_of (events s) @ lost"
    "\<not> consumer_gone s \<longrightarrow> lost = packets_of [ev]"
    by (auto simp: backed_inv_def delivery_inv_def parked_def)
  have cmd: "backed_inv sb s'" if s': "s' = handle_cmd sb rt c s" and "\<not> shutting_down s'" for s' c
  proof -
    have "core_inv sb s'" unfolding s' by (rule core_handle_cmd [OF core(1)])
    with that core(2) lost pc show ?thesis
      by (auto simp: backed_inv_def core_inv_def delivery_inv_def parked_def backed_frame)
  qed
  have failed: "backed_inv sb (send_event_done sb ev False s')"
    if "core_inv sb s'" "\<not> dead_sent s'" "accepted s' = accepted s" "events s' = events s"
      "consumer_gone s' \<or> shutting_down s'" for s'
  proof -
    have "backed_inv sb (run_end s')"
      using that lost by (intro run_end_inv) auto
    moreover have "backed_inv sb (run_loop s')" if "consumer_gone s'"
      using that \<open>core_inv sb s'\<close> \<open>\<not> dead_sent s'\<close> \<open>accepted s' = _\<close> \<open>events s' = _\<close> lost
      by (intro run_loop_inv) (auto simp: settled_def)
    ultimately show ?thesis
      using that by (auto simp: send_event_done_def run_loop_def split: BackedEvent.split)
  qed
  have ended: "backed_inv sb (send_event_done sb ev False (handle_cmd sb rt c s))"
    if "shutting_down (handle_cmd sb rt c s)" for c
    using that core by (intro failed) (simp_all add: core_handle_cmd backed_frame)
  have gone: "backed_inv sb (send_event_done sb ev False (s\<lparr>consumer_gone := True\<rparr>))"
    using core by (intro failed) simp_all
  have "settled (log_event ev s)" if "\<not> consumer_gone s"
    using lost that by (auto simp: settled_def log_event_def)
  with core have sent: "backed_inv sb (send_event_done sb ev True (log_event ev s))" if "\<not> consumer_gone s"
    using that by (auto simp: send_event_done_def log_event_def intro!: deliver_inbox_inv split: BackedEvent.split)
  from inv cmd ended gone sent show ?thesis
    by (cases e) (auto simp: sending_step_def Let_def)
qed

lemma dying_step_inv:
  assumes "backed_inv sb s" and "pc s = Dying r"
  shows "backed_inv sb (dying_step r e s)"
  using assms
  by (cases e) (auto simp: dying_step_def Let_def log_event_def backed_inv_def delivery_inv_def running_def reader_inv_def opened_inv_def)

lemma environment_step_inv:
  assumes "backed_inv sb s"
  shows "backed_inv sb (environment_step e s)"
  using assms
  by (cases e) (auto simp: environment_step_def backed_inv_def delivery_inv_def running_def reader_inv_def opened_inv_def
      ledger_inv_def parked_def)

lemma backed_step_inv:
  assumes "backed_inv sb s"
  shows "backed_inv sb (backed_step sb rt s e)"
  unfolding backed_step_def
  by (intro environment_step_inv)
    (use assms in \<open>simp add: select_step_inv sending_step_inv dying_step_inv split: pc.split\<close>)

lemma backed_spawn_inv: "backed_inv sb (backed_spawn c now st)"
  by (simp add: backed_spawn_def BackedActor_new_def backed_inv_def writer_inv_def reader_inv_def opened_inv_def ledger_inv_def
      delivery_inv_def running_def parked_def history_def writer0_def reader0_def sealed_all_def)

section \<open>Events\<close>

lemma events_frame [backed_frame]:
  "events (run_end s) = events s"
  "events (run_loop s) = events s"
  "events (die_crypto_mismatch s) = events s"
  by (simp_all add: run_end_def run_loop_def die_crypto_mismatch_def Let_def)

lemma events_deliver [backed_frame]: "events (deliver_inbox sb s) = events s"
  by (simp add: deliver_inbox_def events_frame Let_def split: list.split option.split sum.split prod.split)

lemma events_after [backed_frame]:
  "events (after_select sb s) = events s"
  "events (send_event_done sb ev ok s) = events s"
  by (simp_all add: after_select_def send_event_done_def events_frame events_deliver split: BackedEvent.split)

lemma events_environment [backed_frame]: "events (environment_step e s) = events s"
  by (simp add: environment_step_def split: stimulus.split)

lemma events_grow: "\<exists>out. events (backed_step sb rt s e) = events s @ out"
proof (cases "pc s")
  case AtSelect
  then show ?thesis
    by (cases e) (auto simp: backed_step_def select_step_def backed_frame split: option.split sum.split)
next
  case (Sending ev)
  then show ?thesis
    by (cases e) (auto simp: backed_step_def sending_step_def log_event_def backed_frame Let_def)
next
  case (Dying r)
  then show ?thesis
    by (cases e) (auto simp: backed_step_def dying_step_def log_event_def backed_frame Let_def)
next
  case Finished
  then show ?thesis
    by (simp add: backed_step_def backed_frame)
qed

interpretation backed: logging_machine "backed_step sb rt" "backed_inv sb" events for sb rt
  by unfold_locales (auto intro: backed_step_inv events_grow)

lemma backed_run_inv: "backed_inv sb s \<Longrightarrow> backed_inv sb (backed_run sb rt s es)"
  unfolding backed_run_def by (rule backed.inv_run)

section \<open>The end of the session\<close>

text \<open>A terminal event is the last one, and only a task that has ended has sent it.\<close>

definition no_dead :: "BackedEvent list \<Rightarrow> bool" where
  "no_dead es \<longleftrightarrow> (\<forall>r. Ev_Dead r \<notin> set es)"

definition dead_inv :: "BackedActor \<Rightarrow> bool" where
  "dead_inv s \<longleftrightarrow>
     (no_dead (events s) \<or> (pc s = Finished \<and> (\<exists>es r. events s = es @ [Ev_Dead r] \<and> no_dead es))) \<and>
     (\<forall>r. pc s \<noteq> Sending (Ev_Dead r))"

lemma no_dead_simps [simp]:
  "no_dead []" "no_dead (xs @ ys) \<longleftrightarrow> no_dead xs \<and> no_dead ys"
  "no_dead [Ev_Packet p]" "no_dead [Ev_SocketDown]"
  by (auto simp: no_dead_def)

lemma dead_inv_quiet:
  assumes "no_dead (events s)"
  shows "dead_inv (run_end s)" and "dead_inv (run_loop s)" and "dead_inv (die_crypto_mismatch s)"
  using assms by (auto simp: run_end_def run_loop_def die_crypto_mismatch_def dead_inv_def Let_def)

lemma dead_inv_deliver: "no_dead (events s) \<Longrightarrow> dead_inv (deliver_inbox sb s)"
  by (auto simp: deliver_inbox_def dead_inv_quiet Let_def split: list.split option.split sum.split prod.split)
    (auto simp: dead_inv_def)

lemma dead_inv_after:
  assumes "no_dead (events s)"
  shows "dead_inv (after_select sb s)" and "dead_inv (send_event_done sb ev ok s)"
  using assms
  by (auto simp: after_select_def send_event_done_def dead_inv_quiet dead_inv_deliver split: BackedEvent.split)
    (simp add: dead_inv_def)

lemma dead_inv_environment: "dead_inv s \<Longrightarrow> dead_inv (environment_step e s)"
  by (auto simp: environment_step_def dead_inv_def split: stimulus.split)

lemma dead_inv_step:
  assumes "dead_inv s"
  shows "dead_inv (backed_step sb rt s e)"
proof (cases "pc s")
  case AtSelect
  with assms have "no_dead (events s)" by (simp add: dead_inv_def)
  with assms have "dead_inv (select_step sb rt e s)"
    by (cases e) (auto simp: select_step_def backed_frame intro!: dead_inv_after split: option.split sum.split)
  with AtSelect show ?thesis by (simp add: backed_step_def dead_inv_environment)
next
  case (Sending ev)
  with assms have "no_dead (events s)" and ev: "no_dead [ev]" by (auto simp: dead_inv_def no_dead_def)
  moreover have "dead_inv (handle_cmd sb rt c s)" for c
    using assms by (simp add: dead_inv_def backed_frame)
  ultimately have "dead_inv (sending_step sb rt ev e s)"
    using assms by (cases e) (auto simp: sending_step_def log_event_def backed_frame Let_def intro!: dead_inv_after)
  with Sending show ?thesis by (simp add: backed_step_def dead_inv_environment)
next
  case (Dying r)
  with assms have "no_dead (events s)" by (simp add: dead_inv_def)
  with assms have "dead_inv (dying_step r e s)"
    by (cases e) (auto simp: dying_step_def log_event_def Let_def dead_inv_def)
  with Dying show ?thesis by (simp add: backed_step_def dead_inv_environment)
next
  case Finished
  with assms show ?thesis by (simp add: backed_step_def dead_inv_environment)
qed

interpretation ending: invariant_machine "backed_step sb rt" dead_inv for sb rt
  by unfold_locales (rule dead_inv_step)

lemma backed_spawn_dead_inv: "dead_inv (backed_spawn c now st)"
  by (simp add: dead_inv_def backed_spawn_def BackedActor_new_def)

text \<open>A task that has ended stays as it is, but for the clock.\<close>

lemma finished_step: "pc s = Finished \<Longrightarrow> live s = None \<Longrightarrow> \<exists>t. backed_step sb rt s e = s\<lparr>clock := t\<rparr>"
  by (cases e) (auto simp: backed_step_def environment_step_def intro: exI [of _ "clock s"])

end
