(* ===== verification/Backed_Spec.thy ===== *)
theory Backed_Spec
  imports Backed_Step Wire "HOL-Library.Sublist"
begin

text \<open>
  The properties of the backed connection: what a run can deliver, what a write does on every
  branch, which packets a catch-up holds, what a failed recovery leaves behind, and how a session
  ends.
\<close>

section \<open>Lemmas\<close>

lemma cfg_frame [backed_frame]:
  "cfg (run_end s) = cfg s" "cfg (run_loop s) = cfg s" "cfg (die_crypto_mismatch s) = cfg s"
  by (simp_all add: run_end_def run_loop_def die_crypto_mismatch_def Let_def)

lemma cfg_deliver [backed_frame]: "cfg (deliver_inbox sb s) = cfg s"
  by (simp add: deliver_inbox_def cfg_frame Let_def split: list.split option.split sum.split prod.split)

lemma cfg_after [backed_frame]: "cfg (after_select sb s) = cfg s" "cfg (send_event_done sb ev ok s) = cfg s"
  by (simp_all add: after_select_def send_event_done_def cfg_frame cfg_deliver split: BackedEvent.split)

lemma cfg_step: "cfg (backed_step sb rt s e) = cfg s"
proof -
  have "cfg (environment_step e s) = cfg s" for s
    by (simp add: environment_step_def split: stimulus.split)
  moreover have "cfg (select_step sb rt e s) = cfg s" "cfg (sending_step sb rt ev e s) = cfg s"
    "cfg (dying_step r e s) = cfg s" for ev r
    by (cases e; auto simp: select_step_def sending_step_def dying_step_def log_event_def backed_frame Let_def
        split: option.split sum.split)+
  ultimately show ?thesis
    by (simp add: backed_step_def split: pc.split)
qed

lemma cfg_run [simp]: "cfg (backed_run sb rt s es) = cfg s"
  unfolding backed_run_def by (induction es arbitrary: s) (simp_all add: cfg_step)

lemma cfg_spawn [simp]: "cfg (backed_spawn c now st) = c"
  by (simp add: backed_spawn_def BackedActor_new_def)

lemma run_spawn_inv: "backed_inv sb (backed_run sb rt (backed_spawn c now st) es)"
  by (intro backed_run_inv backed_spawn_inv)

lemma trim_keeps_head:
  "b \<noteq> [] \<Longrightarrow> int (length (hd b)) \<le> MAX_BACKUP_BYTES \<Longrightarrow> n = total_length b \<Longrightarrow>
    fst (trim_backup b n) \<noteq> [] \<and> hd (fst (trim_backup b n)) = hd b"
proof (induction b n rule: trim_backup.induct)
  case (1 b n)
  show ?case
  proof (cases "MAX_BACKUP_BYTES < n")
    case True
    have b: "b = butlast b @ [last b]" using 1(2) by simp
    have "butlast b \<noteq> []"
    proof
      assume "butlast b = []"
      with b have "b = [hd b]" by (metis append_Nil list.sel(1))
      then have "total_length b = int (length (hd b))"
        by (metis add.right_neutral total_length_simps(1,2))
      with True 1(3,4) show False by simp
    qed
    moreover have "hd (butlast b) = hd b"
      using calculation b by (metis hd_append2)
    moreover have "total_length b = total_length (butlast b) + int (length (last b))"
      using b by (metis total_length_simps add.right_neutral)
    moreover have "trim_backup b n = trim_backup (butlast b) (n - int (length (last b)))"
      using True 1(2) by (subst trim_backup.simps) simp
    ultimately show ?thesis
      using 1 True by simp
  next
    case False
    then have "trim_backup b n = (b, n)" by (subst trim_backup.simps) simp
    with 1(2) show ?thesis by simp
  qed
qed

lemma length_sealed_packet_18:
  "secretbox_ok sb \<Longrightarrow> length (sealed_packet sb h i (hdr, p)) = length p + 18"
  by (simp add: length_sealed_packet HEADER_SIZE_def MAC_BYTES_def)

lemma catchup_for_eq:
  assumes "backed_inv sb s"
  shows "catchup_for s v =
    (if writer_seq s < sint v then Err Peer_ahead
     else if int (length (backup s)) < writer_seq s - sint v
     then Err (Peer_too_far_behind (writer_seq s - sint v) (length (backup s)))
     else Ok (drop (nat (sint v)) (history sb s)))"
proof -
  from assms have w: "writer_seq s = int (length (written s))" "length (backup s) \<le> length (written s)"
    and b: "rev (backup s) = drop (length (written s) - length (backup s)) (history sb s)"
    by (simp_all add: backed_inv_def writer_inv_def)
  let ?n = "nat (writer_seq s - sint v)"
  have "rev (take ?n (backup s)) = drop (nat (sint v)) (history sb s)"
    if n: "?n \<le> length (backup s)" and v: "sint v \<le> writer_seq s"
  proof -
    have "rev (take ?n (backup s)) = drop (length (backup s) - ?n) (rev (backup s))"
      by (simp add: rev_take)
    also have "\<dots> = drop (length (backup s) - ?n + (length (written s) - length (backup s))) (history sb s)"
      unfolding b by simp
    also have "length (backup s) - ?n + (length (written s) - length (backup s)) = nat (sint v)"
      using n v w by linarith
    finally show ?thesis .
  qed
  moreover have "length (history sb s) = length (written s)"
    by (simp add: history_def)
  ultimately show ?thesis
    using w by (auto simp: catchup_for_def Let_def not_less nat_le_iff)
qed

section \<open>Delivery\<close>

text \<open>
  The network cannot forge: whatever frame \<open>f\<close> opens under some nonce was sealed by the peer, under
  that nonce. The peer's handler is \<open>h\<close>, and \<open>ps\<close> are the packets it has written.
\<close>

definition genuine :: "secretbox \<Rightarrow> CryptoHandler \<Rightarrow> (u8 \<times> bytes) list \<Rightarrow> bytes \<Rightarrow> bool" where
  "genuine sb h ps f \<longleftrightarrow>
     (\<forall>q n m. Packet_parse f = Some q \<longrightarrow> unseal sb (cipher h) n (payload q) = Some m \<longrightarrow>
        (\<exists>i < length ps. n = nonce_at h (Suc i) \<and> m = snd (ps ! i)))"

lemma accepted_payloads:
  assumes inv: "opened_inv sb s" and gen: "list_all (genuine sb (reader0 (cfg s)) ps) (opened s)"
    and len: "length (accepted s) < 256 ^ 23" "length ps < 256 ^ 23"
  shows "map payload (accepted s) = take (length (accepted s)) (map snd ps)"
proof -
  have *: "i < length ps \<and> payload (accepted s ! i) = snd (ps ! i)" if i: "i < length (accepted s)" for i
  proof -
    let ?f = "opened s ! i" and ?h = "reader0 (cfg s)"
    from inv i obtain ct where f: "Packet_parse ?f = Some \<lparr>encrypted = True, header = header (accepted s ! i), payload = ct\<rparr>"
      and ct: "unseal sb (cipher ?h) (nonce_at ?h (Suc i)) ct = Some (payload (accepted s ! i))"
      by (auto simp: opened_inv_def opens_to_def)
    have "genuine sb ?h ps ?f"
      using gen i inv by (simp add: list_all_length opened_inv_def)
    then have "unseal sb (cipher ?h) n ct = Some m \<Longrightarrow> \<exists>i < length ps. n = nonce_at ?h (Suc i) \<and> m = snd (ps ! i)" for n m
      unfolding genuine_def using f by (metis Packet.select_convs(3))
    from this [OF ct] obtain j where j: "j < length ps" "nonce_at ?h (Suc i) = nonce_at ?h (Suc j)"
      "payload (accepted s ! i) = snd (ps ! j)"
      by blast
    have "Suc i < 256 ^ 23" "Suc j < 256 ^ 23"
      using i j len by linarith+
    with j(2) have "i = j"
      unfolding reader0_def by (simp add: nonce_at_new_inject)
    with j show ?thesis by simp
  qed
  show ?thesis
  proof (rule nth_equalityI)
    have "length (accepted s) \<le> length ps"
    proof (cases "accepted s")
      case Nil
      then show ?thesis by simp
    next
      case Cons
      with * [of "length (accepted s) - 1"] show ?thesis by simp
    qed
    then show "length (map payload (accepted s)) = length (take (length (accepted s)) (map snd ps))"
      by simp
    fix i
    assume "i < length (map payload (accepted s))"
    with * [of i] show "map payload (accepted s) ! i = take (length (accepted s)) (map snd ps) ! i"
      by simp
  qed
qed

text \<open>
  The header byte of a frame is not covered by its MAC. The network leaves frames alone if whatever opens
  under some nonce is, header included, the frame the peer made under that nonce.
\<close>

definition untouched :: "secretbox \<Rightarrow> CryptoHandler \<Rightarrow> (u8 \<times> bytes) list \<Rightarrow> bytes \<Rightarrow> bool" where
  "untouched sb h ps f \<longleftrightarrow>
     (\<forall>q n m. Packet_parse f = Some q \<longrightarrow> unseal sb (cipher h) n (payload q) = Some m \<longrightarrow>
        (\<exists>i < length ps. n = nonce_at h (Suc i) \<and> f = sealed_packet sb h i (ps ! i)))"

lemma accepted_packets:
  assumes ok: "secretbox_ok sb" and inv: "opened_inv sb s" and unt: "list_all (untouched sb (reader0 (cfg s)) ps) (opened s)"
    and len: "length (accepted s) < 256 ^ 23" "length ps < 256 ^ 23"
  shows "prefix (accepted s) (map plain ps)"
proof -
  have *: "i < length ps \<and> accepted s ! i = plain (ps ! i)" if i: "i < length (accepted s)" for i
  proof -
    let ?f = "opened s ! i" and ?h = "reader0 (cfg s)"
    from inv i obtain ct where f: "Packet_parse ?f = Some \<lparr>encrypted = True, header = header (accepted s ! i), payload = ct\<rparr>"
      and ct: "unseal sb (cipher ?h) (nonce_at ?h (Suc i)) ct = Some (payload (accepted s ! i))" "\<not> encrypted (accepted s ! i)"
      by (auto simp: opened_inv_def opens_to_def)
    have "untouched sb ?h ps ?f" using unt i inv by (simp add: list_all_length opened_inv_def)
    then obtain j where j: "j < length ps" "nonce_at ?h (Suc i) = nonce_at ?h (Suc j)" "?f = sealed_packet sb ?h j (ps ! j)"
      unfolding untouched_def using f ct(1) by (metis Packet.select_convs(3))
    have "Suc i < 256 ^ 23" "Suc j < 256 ^ 23" using i j len by linarith+
    with j(2) have "i = j" unfolding reader0_def by (simp add: nonce_at_new_inject)
    with f j(3) have "header (accepted s ! i) = fst (ps ! i)" "ct = seal sb (cipher ?h) (nonce_at ?h (Suc i)) (snd (ps ! i))"
      by simp_all
    with ok ct have "accepted s ! i = plain (ps ! i)"
      by (simp add: secretbox_ok_def plain_def Packet_new_def case_prod_unfold)
    with \<open>i = j\<close> j(1) show ?thesis by simp
  qed
  have "length (accepted s) \<le> length ps"
    using * [of "length (accepted s) - 1"] by (cases "accepted s") simp_all
  then have "accepted s = take (length (accepted s)) (map plain ps)"
    by (intro nth_equalityI) (simp_all add: *)
  then show ?thesis by (metis take_is_prefix)
qed

section \<open>Concrete instances\<close>

definition sample_cfg :: BackedConfig where
  "sample_cfg = \<lparr>key = replicate 32 7, reader_msb = 1, writer_msb = 0, keepalive = Some 5000\<rparr>"

definition sample_stream :: tstream where
  "sample_stream = \<lparr>t_in = \<lparr>rd_data = [], rd_end = UnexpectedEof\<rparr>,
     t_out = \<lparr>wr_out = [], wr_room = None, wr_err = UnexpectedEof\<rparr>, t_delays = [], t_now = 0\<rparr>"

definition sample_actor :: BackedActor where
  "sample_actor = backed_spawn sample_cfg 0 sample_stream"

text \<open>A primitive whose tag singles out one nonce, so that a frame opens under that nonce only.\<close>

definition tag_box :: "bytes \<Rightarrow> secretbox" where
  "tag_box n0 = \<lparr>
     seal = \<lambda>k n m. m @ (if n = n0 then replicate 16 0 else replicate 16 1),
     unseal = \<lambda>k n c.
       if 16 \<le> length c \<and> drop (length c - 16) c = (if n = n0 then replicate 16 0 else replicate 16 1)
       then Some (take (length c - 16) c) else None\<rparr>"

lemma secretbox_ok_tag_box: "secretbox_ok (tag_box n)"
  by (simp add: secretbox_ok_def tag_box_def MAC_BYTES_def)

lemma sample_actor_inv: "backed_inv sb sample_actor"
  by (simp add: sample_actor_def backed_spawn_inv)

lemma sample_actor_simps:
  "live sample_actor = Some \<lparr>write_q = [], write_closed = False, read_half = \<lparr>rd_data = [], rd_end = UnexpectedEof\<rparr>\<rparr>"
  "disconnected_bytes sample_actor = None" "shutting_down sample_actor = False" "pc sample_actor = AtSelect"
  "backup sample_actor = []" "backup_size sample_actor = 0" "written sample_actor = []" "writer_seq sample_actor = 0"
  "reader_seq sample_actor = 0" "clock sample_actor = 0" "inbox sample_actor = []" "cfg sample_actor = sample_cfg"
  "reader_crypto sample_actor = reader0 sample_cfg" "socket_down_pending sample_actor = False"
  "accepted sample_actor = []" "opened sample_actor = []" "events sample_actor = []" "consumer_gone sample_actor = False"
  by (simp_all add: sample_actor_def backed_spawn_def BackedActor_new_def spawn_socket_tasks_def sample_stream_def
      reader0_def sample_cfg_def)

section \<open>Properties\<close>

text \<open>C7. Integrity of the stream, against any network: in every run, if no frame that was opened is a
  forgery, the payloads handed to the consumer are a prefix of the payloads the peer wrote, in
  order. Frames that are replayed, reordered, dropped, truncated or invented, in live traffic or in
  a catch-up, never show in what is delivered.\<close>

theorem delivered_is_prefix_of_written:
  assumes "s = backed_run sb rt (backed_spawn c now st) es"
    and "list_all (genuine sb (CryptoHandler_new (key c) (reader_msb c)) ps) (opened s)"
    and "length (accepted s) < 256 ^ 23" and "length ps < 256 ^ 23"
  shows "\<exists>k \<le> length (accepted s). map payload (packets_of (events s)) = take k (map snd ps)"
proof -
  have inv: "backed_inv sb s" and cfg: "cfg s = c"
    unfolding assms(1) by (rule run_spawn_inv) simp
  then have "opened_inv sb s" by (simp add: backed_inv_def reader_inv_def)
  from accepted_payloads [OF this _ assms(3,4)] assms(2)
  have eq: "map payload (accepted s) = take (length (accepted s)) (map snd ps)"
    by (simp add: cfg reader0_def)
  from inv obtain lost where acc: "accepted s = packets_of (events s) @ lost"
    unfolding backed_inv_def delivery_inv_def by blast
  let ?k = "length (packets_of (events s))"
  have "map payload (packets_of (events s)) = take ?k (map payload (accepted s))"
    unfolding acc by simp
  also have "\<dots> = take ?k (map snd ps)"
    unfolding eq using acc by (simp add: min_absorb1)
  finally show ?thesis
    using acc by (intro exI [of _ ?k]) simp
qed

definition sample_nonce :: bytes where
  "sample_nonce = nonce_at (CryptoHandler_new (key sample_cfg) (reader_msb sample_cfg)) 1"

abbreviation "sample_frame \<equiv> 1 # 1 # 104 # 105 # replicate 16 0 :: bytes"

abbreviation "sample_run \<equiv> backed_run (tag_box sample_nonce) wire (backed_spawn sample_cfg 0 sample_stream)
  [Frame_recv (Some (Inr sample_frame)), Event_sent True]"

lemma sample_delivery:
  "events sample_run = [Ev_Packet (Packet_new 1 [104, 105])]"
  "accepted sample_run = [Packet_new 1 [104, 105]]" "opened sample_run = [sample_frame]"
proof -
  have "crypto_decrypt (tag_box sample_nonce) (reader0 sample_cfg) ([104, 105] @ replicate 16 0) =
      (advanced (reader0 sample_cfg) 1, Ok [104, 105])"
    by (simp add: crypto_decrypt_def tag_box_def sample_nonce_def nonce_at_def MAC_BYTES_def Let_def advanced_def
        reader0_def)
  note sample = this [simplified] backed_run_def backed_step_def select_step_def sending_step_def environment_step_def
    after_select_def deliver_inbox_def sample_actor_simps Packet_decrypt_def log_event_def send_event_done_def
    run_loop_def Packet_new_def Let_def sample_actor_def [symmetric]
  show "events sample_run = [Ev_Packet (Packet_new 1 [104, 105])]"
    "accepted sample_run = [Packet_new 1 [104, 105]]" "opened sample_run = [sample_frame]"
    by (simp_all add: sample)
qed

theorem delivered_is_prefix_of_written_witness:
  "\<exists>k \<le> 1. map payload (packets_of (events sample_run)) = take k (map snd [(1, [104, 105]), (1, [33])])"
proof -
  have "genuine (tag_box sample_nonce) (CryptoHandler_new (key sample_cfg) (reader_msb sample_cfg))
      [(1, [104, 105]), (1, [33])] sample_frame"
    by (auto simp: genuine_def tag_box_def sample_nonce_def split: if_splits intro!: exI [of _ 0])
  with delivered_is_prefix_of_written [OF refl, where c = sample_cfg and ps = "[(1, [104, 105]), (1, [33])]"
      and sb = "tag_box sample_nonce" and rt = wire and now = 0 and st = sample_stream
      and es = "[Frame_recv (Some (Inr sample_frame)), Event_sent True]"]
  show ?thesis
    by (simp add: sample_delivery)
qed

text \<open>C16. The backup is the tail of the ciphertext history: in every run the sequence number is the
  number of packets written, the backup holds exactly the newest ciphertexts, each sealed once under
  its own nonce, in order and without gaps, and the byte count is the size of what is held.\<close>

theorem backup_is_history_suffix:
  "let s = backed_run sb rt (backed_spawn c now st) es in
    writer_seq s = int (length (written s)) \<and>
    rev (backup s) = drop (length (written s) - length (backup s))
      (sealed_all sb (CryptoHandler_new (key c) (writer_msb c)) (written s)) \<and>
    backup_size s = total_length (backup s)"
proof -
  let ?s = "backed_run sb rt (backed_spawn c now st) es"
  have "backed_inv sb ?s" and "cfg ?s = c"
    by (rule run_spawn_inv) simp
  then show ?thesis
    by (simp add: backed_inv_def writer_inv_def history_def writer0_def)
qed

text \<open>C29. The task never panics, whatever commands, frames and stalls it meets: no packet is encrypted
  twice and no plaintext packet reaches the decryption.\<close>

theorem backed_never_panics: "\<not> panicked (backed_run sb rt (backed_spawn c now st) es)"
  using run_spawn_inv [of sb rt c now st es] by (simp add: backed_inv_def reader_inv_def)

text \<open>A refused write changes nothing: it is refused exactly when the session is shutting down or
  the disconnect budget would be exceeded, and then neither the nonce counter nor the backup nor the
  sequence number moves.\<close>

theorem refused_write_unchanged:
  assumes "backed_inv sb s"
  shows "case backed_write sb h p s of
      (Inl e, s') \<Rightarrow> s' = s \<and> (if shutting_down s then e = WE_Shutdown else over_budget p s \<and> e = WE_Skipped)
    | (Inr _, s') \<Rightarrow> \<not> shutting_down s \<and> \<not> over_budget p s \<and> writer_seq s' = writer_seq s + 1"
proof -
  have inv: "writer_inv sb s" using assms by (simp add: backed_inv_def)
  have "writer_seq (trimmed (pushed sb h p s)) = writer_seq s + 1" "writer_seq (pushed sb h p s) = writer_seq s + 1"
    by (simp_all add: pushed_def trimmed_def Let_def split: prod.split)
  then show ?thesis
    unfolding backed_write_eq [OF inv, of h p]
    by (auto simp: Let_def ledger_add_def close_current_socket_frame split: option.splits)
qed

theorem refused_write_unchanged_witness:
  "case backed_write sum_box 1 [1, 2, 3] sample_actor of
      (Inl e, s') \<Rightarrow> s' = sample_actor \<and> over_budget [1, 2, 3] sample_actor \<and> e = WE_Skipped
    | (Inr _, s') \<Rightarrow> \<not> over_budget [1, 2, 3] sample_actor \<and> writer_seq s' = 1"
  using refused_write_unchanged [where sb = sum_box and h = 1 and p = "[1, 2, 3]", OF sample_actor_inv]
  by (simp add: sample_actor_simps split: prod.splits sum.splits)

text \<open>A write while disconnected is kept, whatever its size: nothing is trimmed, the ciphertext is
  the newest backup entry and the ledger grows by its serialized length.\<close>

theorem disconnected_write_kept:
  assumes "backed_inv sb s" and "live s = None" and "\<not> shutting_down s" and "\<not> over_budget p s"
  shows "let ser = sealed_packet sb (writer0 (cfg s)) (length (written s)) (h, p);
      (r, s') = backed_write sb h p s in
    r = Ok () \<and> backup s' = ser # backup s \<and> live s' = None \<and>
    disconnected_bytes s' =
      Some ((case disconnected_bytes s of None \<Rightarrow> 0 | Some k \<Rightarrow> k) + int (length ser)) \<and>
    history sb s' = history sb s @ [ser]"
proof -
  have "writer_inv sb s" using assms(1) by (simp add: backed_inv_def)
  from backed_write_eq [OF this, of h p] assms(2-) show ?thesis
    by (simp add: Let_def ledger_add_def pushed_def history_def)
qed

definition offline_actor :: BackedActor where
  "offline_actor = close_current_socket sample_actor"

lemma offline_actor_inv: "backed_inv sb offline_actor"
  using sample_actor_inv [of sb]
  by (simp add: offline_actor_def backed_inv_def reader_inv_def opened_inv_def delivery_inv_def backed_frame
      running_def parked_def)

lemma offline_actor_simps:
  "live offline_actor = None" "disconnected_bytes offline_actor = Some 0" "shutting_down offline_actor = False"
  "backup offline_actor = []" "backup_size offline_actor = 0" "written offline_actor = []" "writer_seq offline_actor = 0"
  "pc offline_actor = AtSelect" "cfg offline_actor = sample_cfg" "clock offline_actor = 0" "reader_seq offline_actor = 0"
  by (simp_all add: offline_actor_def backed_frame sample_actor_simps)

theorem disconnected_write_kept_witness:
  "let ser = sealed_packet sum_box (writer0 sample_cfg) 0 (1, [5]); (r, s') = backed_write sum_box 1 [5] offline_actor in
    r = Ok () \<and> backup s' = [ser] \<and> live s' = None \<and> disconnected_bytes s' = Some (int (length ser)) \<and>
    history sum_box s' = history sum_box offline_actor @ [ser]"
  using disconnected_write_kept [where sb = sum_box and h = 1 and p = "[5]", OF offline_actor_inv]
  by (simp add: offline_actor_simps over_budget_def DISCONNECT_BUFFER_BYTES_def Let_def)

text \<open>C23. A write while connected: the ciphertext joins the history and, when the queue takes it, goes
  out as one frame; when the queue is full or its task is gone, the socket is closed and the ledger
  opens with exactly this packet. In both cases the packet stays in the backup (unless it alone
  exceeds the cap), and the backup is at most the cap.\<close>

theorem connected_write_outcome:
  assumes "backed_inv sb s" and "live s = Some l" and "\<not> shutting_down s" and "disconnected_bytes s = None"
  shows "let ser = sealed_packet sb (writer0 (cfg s)) (length (written s)) (h, p);
      (r, s') = backed_write sb h p s in
    r = Ok () \<and> history sb s' = history sb s @ [ser] \<and> backup_size s' \<le> MAX_BACKUP_BYTES \<and>
    (int (length ser) \<le> MAX_BACKUP_BYTES \<longrightarrow> backup s' \<noteq> [] \<and> hd (backup s') = ser) \<and>
    (if write_closed l \<or> WRITE_QUEUE_DEPTH \<le> length (write_q l)
     then live s' = None \<and> socket_down_pending s' \<and> disconnected_bytes s' = Some (int (length ser))
     else live s' = Some (l\<lparr>write_q := write_q l @ [packet_frame ser]\<rparr>) \<and> disconnected_bytes s' = None)"
proof -
  let ?ser = "sealed_packet sb (writer0 (cfg s)) (length (written s)) (h, p)"
  let ?b = "?ser # backup s"
  have inv: "writer_inv sb s" using assms(1) by (simp add: backed_inv_def)
  obtain b k where t: "trim_backup ?b (backup_size s + int (length ?ser)) = (b, k)"
    by fastforce
  have "backup_size s + int (length ?ser) = total_length ?b"
    using inv by (simp add: writer_inv_def)
  from trim_backup_take [OF t this] trim_keeps_head [OF _ _ this] t
  have k: "k \<le> MAX_BACKUP_BYTES" "int (length ?ser) \<le> MAX_BACKUP_BYTES \<longrightarrow> b \<noteq> [] \<and> hd b = ?ser"
    by auto
  have tr: "trimmed (pushed sb h p s) = (pushed sb h p s)\<lparr>backup := b, backup_size := k\<rparr>"
    using t by (simp add: trimmed_def pushed_def Let_def)
  let ?t = "(pushed sb h p s)\<lparr>backup := b, backup_size := k\<rparr>"
  have "over_budget p s = False"
    using assms(4) by (simp add: over_budget_def)
  then have eq: "backed_write sb h p s =
      (case try_send l (packet_frame ?ser) of
         None \<Rightarrow> (Ok (), (close_current_socket (ledger_add (int (length ?ser)) ?t))\<lparr>last_activity := clock s\<rparr>)
       | Some l' \<Rightarrow> (Ok (), ?t\<lparr>live := Some l', last_activity := clock s\<rparr>))"
    using assms(2,3) by (simp add: backed_write_eq [OF inv] Let_def tr split: option.split)
  have hist: "history sb (pushed sb h p s) = history sb s @ [?ser]"
    by (simp add: history_def pushed_def Let_def)
  show ?thesis
  proof (cases "write_closed l \<or> WRITE_QUEUE_DEPTH \<le> length (write_q l)")
    case True
    with eq have "backed_write sb h p s =
        (Ok (), (close_current_socket (ledger_add (int (length ?ser)) ?t))\<lparr>last_activity := clock s\<rparr>)"
      by (simp add: try_send_def)
    with True k hist assms(2,4) show ?thesis
      by (simp add: Let_def ledger_add_def close_current_socket_def pushed_frame history_def)
  next
    case False
    with eq have "backed_write sb h p s =
        (Ok (), ?t\<lparr>live := Some (l\<lparr>write_q := write_q l @ [packet_frame ?ser]\<rparr>), last_activity := clock s\<rparr>)"
      by (simp add: try_send_def)
    with False k hist assms(4) show ?thesis
      by (simp add: Let_def pushed_frame history_def)
  qed
qed

theorem connected_write_outcome_witness:
  "let ser = sealed_packet sum_box (writer0 sample_cfg) 0 (1, [5]); (r, s') = backed_write sum_box 1 [5] sample_actor in
    r = Ok () \<and> history sum_box s' = history sum_box sample_actor @ [ser] \<and> disconnected_bytes s' = None"
  using connected_write_outcome [where sb = sum_box and h = 1 and p = "[5]", OF sample_actor_inv]
  by (simp add: sample_actor_simps WRITE_QUEUE_DEPTH_def Let_def split: prod.splits)

text \<open>C14. What a catch-up holds: for every sequence number the peer may claim, negative ones included,
  the reply is an error when the peer claims more than was written or misses more than is backed up,
  and otherwise exactly the ciphertexts written after that number, oldest first, byte for byte as
  they were first sent.\<close>

theorem catchup_exact:
  assumes "backed_inv sb s"
  shows "catchup_for s v =
    (if writer_seq s < sint v then Err Peer_ahead
     else if int (length (backup s)) < writer_seq s - sint v
     then Err (Peer_too_far_behind (writer_seq s - sint v) (length (backup s)))
     else Ok (drop (nat (sint v)) (history sb s)))"
  using assms by (rule catchup_for_eq)

theorem catchup_exact_witness:
  "catchup_for (snd (backed_write sum_box 1 [5] offline_actor)) 0 =
    Ok [sealed_packet sum_box (writer0 sample_cfg) 0 (1, [5])]"
proof -
  let ?s = "snd (backed_write sum_box 1 [5] offline_actor)"
  have inv: "writer_inv sum_box offline_actor" using offline_actor_inv by (simp add: backed_inv_def)
  have s: "?s = ledger_add (int (length (sealed_packet sum_box (writer0 sample_cfg) 0 (1, [5]))))
      (pushed sum_box 1 [5] offline_actor)"
    using backed_write_eq [OF inv, of 1 "[5]"]
    by (simp add: offline_actor_simps over_budget_def DISCONNECT_BUFFER_BYTES_def Let_def)
  have "backed_inv sum_box ?s"
    using offline_actor_inv [of sum_box] writer_inv_write [OF inv, of 1 "[5]"]
      ledger_inv_write [OF inv, of 1 "[5]"]
    by (simp add: backed_inv_def reader_inv_def opened_inv_def delivery_inv_def parked_def running_def backed_frame)
  from catchup_exact [OF this, of 0] show ?thesis
    unfolding s by (simp add: ledger_add_def pushed_def offline_actor_simps history_def Let_def sealed_all_def)
qed

text \<open>C20. A failed recovery leaves the session as it was: the old socket, the backup, the inbox, the
  counters and the ledger are those of before, only time has passed. A bogus reconnect cannot
  disconnect a live session.\<close>

theorem failed_recover_unchanged:
  assumes "recover_timed_actor rt stream idle absolute s = (False, s')"
  shows "s' = s\<lparr>clock := clock s'\<rparr>"
  using assms by (auto simp: recover_timed_actor_def Let_def split: prod.splits sum.splits)

lemma stalled_recover:
  "recover_timed_actor wire sample_stream 10 20 sample_actor = (False, sample_actor\<lparr>clock := 10\<rparr>)"
proof -
  have "i64_to_le_bytes x \<noteq> []" for x
    by (metis length_i64_to_le_bytes list.size(3) zero_neq_numeral)
  then have "write_frame_idle body 10 20 sample_stream = (Err Stalled, sample_stream\<lparr>t_now := 10\<rparr>)" for body
    by (simp add: write_frame_idle_def tbind_def write_all_idle.simps [of "i64_to_le_bytes _"] timeout_at_def
        sample_stream_def)
  then show ?thesis
    by (simp add: recover_timed_actor_def recover_exchange_def tbind_def sample_actor_simps Let_def sample_stream_def)
qed

theorem failed_recover_unchanged_witness:
  "snd (recover_timed_actor wire sample_stream 10 20 sample_actor) = sample_actor\<lparr>clock := 10\<rparr>"
  using failed_recover_unchanged [OF stalled_recover] stalled_recover by simp

text \<open>C21. Recovery is bounded in time: whatever the peer does, the exchange ends no later than
  \<^verbatim>\<open>absolute\<close> after it began, so a trickling or silent peer holds the task for a bounded time.\<close>

theorem recover_within_absolute:
  "clock s \<le> clock (snd (recover_timed_actor rt stream idle absolute s)) \<and>
    clock (snd (recover_timed_actor rt stream idle absolute s)) \<le> clock s + absolute"
proof -
  let ?dl = "clock s + absolute"
  have "keeps_deadline ?dl (recover_exchange rt s idle ?dl)"
    unfolding recover_exchange_def
    by (intro keeps_deadline_tbind keeps_deadline_frames)
      (auto simp: Let_def split: sum.split intro!: keeps_deadline_tbind keeps_deadline_frames)
  then have "clock s \<le> t_now (snd (recover_exchange rt s idle ?dl (stream\<lparr>t_now := clock s\<rparr>))) \<and>
      t_now (snd (recover_exchange rt s idle ?dl (stream\<lparr>t_now := clock s\<rparr>))) \<le> ?dl"
    unfolding keeps_deadline_def by (metis (no_types, lifting) le_add1 tstream.select_convs(4) tstream.surjective
        tstream.update_convs(4))
  then show ?thesis
    by (auto simp: recover_timed_actor_def Let_def split: prod.split sum.split)
qed

definition frame_opens :: "secretbox \<Rightarrow> BackedActor \<Rightarrow> bytes \<Rightarrow> bool" where
  "frame_opens sb s f \<longleftrightarrow>
     (case Packet_parse f of
        None \<Rightarrow> False
      | Some p \<Rightarrow> encrypted p \<and> (\<exists>m. snd (crypto_decrypt sb (reader_crypto s) (payload p)) = Ok m))"

text \<open>C22. Fail closed: when the next frame of the inbox does not parse, claims to be plaintext, or
  does not open under the next nonce, the session dies with a crypto mismatch; no packet is handed
  on, the sequence number does not move, and no later frame is looked at.\<close>

theorem bad_frame_kills:
  assumes "inbox s = f # rest" and "\<not> frame_opens sb s f"
  shows "let s' = deliver_inbox sb s in
    pc s' = Dying DR_CryptoMismatch \<and> shutting_down s' \<and> events s' = events s \<and>
    accepted s' = accepted s \<and> reader_seq s' = reader_seq s \<and> inbox s' = rest"
proof (cases "Packet_parse f")
  case None
  with assms(1) show ?thesis by (simp add: deliver_inbox_def die_crypto_mismatch_def)
next
  case (Some p)
  obtain c r where cd: "crypto_decrypt sb (reader_crypto s) (payload p) = (c, r)" by fastforce
  show ?thesis
  proof (cases "encrypted p")
    case True
    with assms(2) Some cd have "\<exists>e. r = Inl e" by (cases r) (auto simp: frame_opens_def)
    with assms(1) Some True cd show ?thesis
      by (auto simp: deliver_inbox_def die_crypto_mismatch_def Packet_decrypt_def)
  qed (use assms(1) Some in \<open>simp add: deliver_inbox_def die_crypto_mismatch_def\<close>)
qed

theorem bad_frame_kills_witness:
  "pc (deliver_inbox sum_box (sample_actor\<lparr>inbox := [[0, 1, 42]]\<rparr>)) = Dying DR_CryptoMismatch"
  using bad_frame_kills [of "sample_actor\<lparr>inbox := [[0, 1, 42]]\<rparr>" "[0, 1, 42]" "[]" sum_box]
  by (simp add: frame_opens_def Let_def)

text \<open>The end of a session: in every run at most one terminal event is sent, it is the last event,
  and the task has ended then; no packet follows it.\<close>

theorem dead_event_last:
  "let s = backed_run sb rt (backed_spawn c now st) es in
    (\<forall>r. Ev_Dead r \<notin> set (events s)) \<or>
    pc s = Finished \<and> (\<exists>evs r. events s = evs @ [Ev_Dead r] \<and> (\<forall>r. Ev_Dead r \<notin> set evs))"
proof -
  have "dead_inv (foldl (backed_step sb rt) (backed_spawn c now st) es)"
    by (rule ending.inv_run [OF backed_spawn_dead_inv])
  then show ?thesis
    by (simp add: backed_run_def dead_inv_def no_dead_def Let_def)
qed

text \<open>The disconnect budget: a write that is accepted while disconnected leaves the ledger at most
  eighteen bytes (packet header and MAC) over the budget, because the check counts the payload and
  the ledger the serialized packet.\<close>

theorem disconnect_budget_bound:
  assumes "secretbox_ok sb" and "backed_inv sb s" and "disconnected_bytes s = Some k" and "live s = None"
    and "backed_write sb h p s = (Ok (), s')"
  shows "\<exists>k'. disconnected_bytes s' = Some k' \<and> k' = k + int (length p) + 18 \<and> k' \<le> DISCONNECT_BUFFER_BYTES + 18"
proof -
  have "writer_inv sb s" using assms(2) by (simp add: backed_inv_def)
  from backed_write_eq [OF this, of h p] assms(3-5) length_sealed_packet_18 [OF assms(1)] show ?thesis
    by (auto simp: Let_def over_budget_def ledger_add_def pushed_def split: if_splits)
qed

theorem disconnect_budget_bound_witness:
  "\<exists>k'. disconnected_bytes (snd (backed_write sum_box 1 [5] offline_actor)) = Some k' \<and> k' = 19"
proof -
  have "writer_inv sum_box offline_actor" using offline_actor_inv by (simp add: backed_inv_def)
  from backed_write_eq [OF this, of 1 "[5]"]
  have "backed_write sum_box 1 [5] offline_actor = (Ok (), snd (backed_write sum_box 1 [5] offline_actor))"
    by (simp add: offline_actor_simps over_budget_def DISCONNECT_BUFFER_BYTES_def Let_def)
  from disconnect_budget_bound [OF secretbox_ok_sum_box offline_actor_inv _ _ this, of 0]
  show ?thesis by (simp add: offline_actor_simps)
qed

text \<open>C34. Keepalive enforcement, on every branch of a task whose ledger of disconnected bytes is open exactly while
  it has no socket, as that of every running task is: without a configured period, without a live socket, while
  shutting down or before an idle period has passed, the tick changes nothing; after an idle period it
  writes one ping and waits for its echo; after a second idle period without an echo it closes the socket
  and writes nothing.\<close>

theorem keepalive_outcome:
  assumes "writer_inv sb s" and "ledger_inv s" and "s' = keepalive_tick sb s"
  shows "case keepalive (cfg s) of
      None \<Rightarrow> s' = s
    | Some period \<Rightarrow>
        if live s = None \<or> shutting_down s \<or> clock s - last_activity s < period then s' = s
        else if waiting_on_keepalive s then live s' = None \<and> socket_down_pending s' \<and> \<not> waiting_on_keepalive s' \<and> written s' = written s
        else written s' = written s @ [(KEEP_ALIVE, [])] \<and> last_activity s' = clock s \<and>
          (live s' \<noteq> None \<longrightarrow> waiting_on_keepalive s')"
proof (cases "\<exists>period l. keepalive (cfg s) = Some period \<and> live s = Some l \<and> \<not> shutting_down s")
  case False
  then show ?thesis
    by (auto simp: assms(3) keepalive_tick_def split: option.split)
next
  case True
  then obtain period l where p: "keepalive (cfg s) = Some period" "live s = Some l" "\<not> shutting_down s" by blast
  let ?s = "s\<lparr>waiting_on_keepalive := True, last_activity := clock s\<rparr>"
  from assms(1,2) p(2) have inv: "writer_inv sb ?s" and "disconnected_bytes s = None"
    by (auto simp: ledger_inv_def)
  then have "over_budget [] ?s = False" by (simp add: over_budget_def)
  moreover have w: "waiting_on_keepalive (trimmed (pushed sb h p ?s))" for h p
    by (simp add: trimmed_def pushed_def Let_def split: prod.split)
  ultimately have "written (snd (backed_write sb KEEP_ALIVE [] ?s)) = written s @ [(KEEP_ALIVE, [])] \<and>
      last_activity (snd (backed_write sb KEEP_ALIVE [] ?s)) = clock s \<and>
      (live (snd (backed_write sb KEEP_ALIVE [] ?s)) \<noteq> None \<longrightarrow>
        waiting_on_keepalive (snd (backed_write sb KEEP_ALIVE [] ?s)))"
    using backed_write_eq [OF inv, of KEEP_ALIVE "[]"] p(2,3)
    by (auto simp: Let_def backed_frame ledger_add_def w split: option.split)
  moreover have "socket_down_pending (close_current_socket s)"
    using p(2) by (simp add: close_current_socket_def)
  ultimately show ?thesis
    using p by (simp add: assms(3) keepalive_tick_def Let_def backed_frame)
qed

theorem keepalive_outcome_witness:
  "written (keepalive_tick sum_box (sample_actor\<lparr>clock := 5000\<rparr>)) = [(KEEP_ALIVE, [])]"
proof -
  let ?s = "sample_actor\<lparr>clock := 5000\<rparr>"
  have inv: "writer_inv sum_box ?s" "ledger_inv ?s"
    using sample_actor_inv [of sum_box] by (simp_all add: backed_inv_def ledger_inv_def sample_actor_simps)
  have "last_activity sample_actor = 0" "waiting_on_keepalive sample_actor = False"
    by (simp_all add: sample_actor_def backed_spawn_def BackedActor_new_def)
  with keepalive_outcome [OF inv refl] show ?thesis
    by (simp add: sample_actor_simps sample_cfg_def)
qed

section \<open>The socket tasks\<close>

lemma reader_task_frame:
  assumes "length f \<le> MAX_PACKET_LENGTH"
  shows "reader_task (feed (packet_frame f) r) = Inr f # reader_task r"
proof -
  have "length f < 256 ^ 4"
    using assms by (simp add: MAX_PACKET_LENGTH_def)
  with assms show ?thesis
    by (subst reader_task.simps) (simp add: packet_frame_def wire_simps be_val_be_bytes Let_def)
qed

lemma writer_task_open:
  "wr_room w = None \<Longrightarrow> writer_task frames w = w\<lparr>wr_out := wr_out w @ concat frames\<rparr>"
  by (induction frames arbitrary: w) (auto simp: write_all_def)

text \<open>C33. The socket tasks carry frames faithfully: what a writer task drains from its queue is, on the
  other side, what the reader task sends on, frame by frame in order, followed by whatever the rest
  of the byte stream yields.\<close>

theorem socket_tasks_carry_frames:
  assumes "list_all (\<lambda>f. length f \<le> MAX_PACKET_LENGTH) fs" and "wr_room w = None" and "wr_out w = []"
  shows "reader_task (feed (wr_out (writer_task (map packet_frame fs) w)) r) = map Inr fs @ reader_task r"
  unfolding writer_task_open [OF assms(2)]
  using assms(1,3)
proof (induction fs)
  case (Cons f fs)
  have "reader_task (feed (packet_frame f) (feed (concat (map packet_frame fs)) r)) =
      Inr f # reader_task (feed (concat (map packet_frame fs)) r)"
    using Cons.prems by (intro reader_task_frame) simp
  with Cons show ?case by simp
qed simp

theorem socket_tasks_carry_frames_witness:
  "reader_task (feed (wr_out (writer_task (map packet_frame [[1, 2], [3]]) (t_out sample_stream))) (t_in sample_stream)) =
    [Inr [1, 2], Inr [3], Inl ()]"
proof -
  have "reader_task (t_in sample_stream) = [Inl ()]"
    by (subst reader_task.simps) (simp add: sample_stream_def read_exact_def)
  with socket_tasks_carry_frames [of "[[1, 2], [3]]" "t_out sample_stream" "t_in sample_stream"] show ?thesis
    by (simp add: sample_stream_def MAX_PACKET_LENGTH_def)
qed

end
