(* ===== verification/Resume.thy ===== *)
theory Resume
  imports Backed_Spec
begin

text \<open>
  Two ends of one session: what the recover exchange of \<^verbatim>\<open>backed.rs\<close> achieves when both ends run it
  over the same socket. Each end sends its reader sequence, then the ciphertexts the other end
  misses; the lemmas show that both exchanges succeed on each other's bytes and that the end that
  was behind then delivers exactly the missing packets, once and in order.
\<close>

section \<open>The bytes of an exchange\<close>

definition header_frame :: "buffa \<Rightarrow> BackedActor \<Rightarrow> bytes" where
  "header_frame rt s = write_to_SequenceHeader rt (sequence_header s)"

definition catchup_frame :: "buffa \<Rightarrow> bytes list \<Rightarrow> bytes" where
  "catchup_frame rt es = write_to_CatchupBuffer rt (CatchupBuffer_default\<lparr>CatchupBuffer_buffer := es\<rparr>)"

text \<open>What \<open>s\<close> still has to send to a peer that has accepted \<open>k\<close> packets, and whether it can.\<close>

definition missing :: "secretbox \<Rightarrow> BackedActor \<Rightarrow> nat \<Rightarrow> bytes list" where
  "missing sb s k = drop k (history sb s)"

definition can_resend :: "secretbox \<Rightarrow> buffa \<Rightarrow> BackedActor \<Rightarrow> nat \<Rightarrow> bool" where
  "can_resend sb rt s k \<longleftrightarrow>
     k \<le> length (written s) \<and> length (written s) - k \<le> length (backup s) \<and> k < 2 ^ 31 \<and>
     list_all wire_bytes (missing sb s k) \<and>
     (\<Sum>bs\<leftarrow>missing sb s k. element_footprint_bytes rt bs) \<le> decode_limit rt \<and>
     proto_frame_ok DEFAULT_MAX_PROTO_LENGTH (catchup_frame rt (missing sb s k))"

definition exchange_steps :: "buffa \<Rightarrow> BackedActor \<Rightarrow> bytes \<Rightarrow> bytes list \<Rightarrow> bytes list \<Rightarrow> nat" where
  "exchange_steps rt s their_header mine theirs =
     frame_steps (header_frame rt s) + frame_steps their_header +
     frame_steps (catchup_frame rt mine) + frame_steps (catchup_frame rt theirs)"

lemma header_frame_ok:
  assumes "buffa_ok rt"
  shows "proto_frame_ok MAX_HANDSHAKE_PROTO_LENGTH (header_frame rt s)"
proof -
  have "length (header_frame rt s) \<le> 11"
    by (simp add: length_puts [OF assms] header_frame_def write_to_SequenceHeader_def sequence_header_def SequenceHeader_default_def
        small_field_def unknown_write_to_Nil [OF assms])
  then show ?thesis
    by (simp add: proto_frame_ok_def MAX_HANDSHAKE_PROTO_LENGTH_def)
qed

lemma decode_header_frame:
  assumes "buffa_ok rt"
  shows "decode_SequenceHeader rt (header_frame rt s) = Ok (sequence_header s)"
  unfolding header_frame_def
  by (rule sequence_header.decode_encode)
    (simp add: assms wf_SequenceHeader_def sequence_header_def SequenceHeader_default_def)

lemma decode_catchup_frame:
  assumes "buffa_ok rt" and "list_all wire_bytes es" and "(\<Sum>bs\<leftarrow>es. element_footprint_bytes rt bs) \<le> decode_limit rt"
  shows "decode_CatchupBuffer rt (catchup_frame rt es) = Ok (CatchupBuffer_default\<lparr>CatchupBuffer_buffer := es\<rparr>)"
  unfolding catchup_frame_def
  by (rule catchup_buffer.decode_encode)
    (simp add: assms wf_CatchupBuffer_def cost_CatchupBuffer_def CatchupBuffer_default_def)

lemma sint_small: "k < 2 ^ 31 \<Longrightarrow> sint (word_of_nat k :: 32 word) = int k"
proof -
  assume "k < 2 ^ 31"
  then have "sint (word_of_int (int k) :: 32 word) = int k"
    by (subst sint_sbintrunc', intro signed_take_bit_int_eq_self) simp_all
  then show ?thesis by simp
qed

lemma catchup_for_missing:
  assumes "backed_inv sb s" and "can_resend sb rt s k"
  shows "catchup_for s (word_of_nat k) = Ok (missing sb s k)"
proof -
  have "writer_seq s = int (length (written s))"
    using assms(1) by (simp add: backed_inv_def writer_inv_def)
  with assms show ?thesis
    by (subst catchup_for_eq [OF assms(1)]) (auto simp: can_resend_def missing_def sint_small)
qed

lemma tbind_Ok: "m s = (Ok x, s') \<Longrightarrow> tbind m f s = f x s'"
  by (simp add: tbind_def)

lemma recover_exchange_meets:
  assumes rt: "buffa_ok rt" and a: "backed_inv sb a" and mine: "can_resend sb rt a k" and seq: "reader_seq b = int k"
    and theirs: "list_all wire_bytes es" "(\<Sum>bs\<leftarrow>es. element_footprint_bytes rt bs) \<le> decode_limit rt"
      "proto_frame_ok DEFAULT_MAX_PROTO_LENGTH (catchup_frame rt es)"
    and st: "t_in st = feed (proto_frame (header_frame rt b) @ proto_frame (catchup_frame rt es)) r"
      "wr_room (t_out st) = None"
    and prompt: "prompt idle dl (exchange_steps rt a (header_frame rt b) (missing sb a k) es) st"
  shows "recover_exchange rt a idle dl st =
    (Ok es, (elapsed (exchange_steps rt a (header_frame rt b) (missing sb a k) es) st)
      \<lparr>t_in := r, t_out := (t_out st)\<lparr>wr_out := wr_out (t_out st) @
        proto_frame (header_frame rt a) @ proto_frame (catchup_frame rt (missing sb a k))\<rparr>\<rparr>)"
proof -
  let ?ha = "header_frame rt a" and ?hb = "header_frame rt b"
  let ?ca = "catchup_frame rt (missing sb a k)" and ?cb = "catchup_frame rt es"
  let ?w = "\<lambda>out. (t_out st)\<lparr>wr_out := wr_out (t_out st) @ out\<rparr>"
  let ?s1 = "(elapsed (frame_steps ?ha) st)\<lparr>t_out := ?w (proto_frame ?ha)\<rparr>"
  let ?s2 = "(elapsed (frame_steps ?hb) ?s1)\<lparr>t_in := feed (proto_frame ?cb) r\<rparr>"
  let ?s3 = "(elapsed (frame_steps ?ca) ?s2)\<lparr>t_out := ?w (proto_frame ?ha @ proto_frame ?ca)\<rparr>"
  let ?s4 = "(elapsed (frame_steps ?cb) ?s3)\<lparr>t_in := r\<rparr>"
  from prompt have p: "prompt idle dl (frame_steps ?ha) st" "prompt idle dl (frame_steps ?hb) (elapsed (frame_steps ?ha) st)"
    "prompt idle dl (frame_steps ?ca) (elapsed (frame_steps ?hb) (elapsed (frame_steps ?ha) st))"
    "prompt idle dl (frame_steps ?cb) (elapsed (frame_steps ?ca) (elapsed (frame_steps ?hb) (elapsed (frame_steps ?ha) st)))"
    unfolding exchange_steps_def by (simp_all add: prompt_add)
  have 1: "write_frame_idle ?ha idle dl st = (Ok (), ?s1)"
    using p(1) st(2) by (rule write_frame_idle_prompt)
  have 2: "read_frame_idle MAX_HANDSHAKE_PROTO_LENGTH idle dl ?s1 = (Ok ?hb, ?s2)"
    using p(2) st(1) header_frame_ok [OF rt] by (intro read_frame_idle_prompt) simp_all
  have 3: "write_frame_idle ?ca idle dl ?s2 = (Ok (), ?s3)"
    using p(3) st(2) by (subst write_frame_idle_prompt) simp_all
  have 4: "read_frame_idle DEFAULT_MAX_PROTO_LENGTH idle dl ?s3 = (Ok ?cb, ?s4)"
    using p(4) theirs(3) by (intro read_frame_idle_prompt) simp_all
  have "?s4 = (elapsed (exchange_steps rt a ?hb (missing sb a k) es) st)
      \<lparr>t_in := r, t_out := ?w (proto_frame ?ha @ proto_frame ?ca)\<rparr>"
    by (simp add: exchange_steps_def add.assoc)
  moreover have "recover_exchange rt a idle dl st = (Ok es, ?s4)"
  proof -
    have b: "(case SequenceHeader_sequenceNumber (sequence_header b) of None \<Rightarrow> 0 | Some v \<Rightarrow> v) = word_of_nat k"
      by (simp add: sequence_header_def seq)
    have e: "CatchupBuffer_buffer (CatchupBuffer_default\<lparr>CatchupBuffer_buffer := es\<rparr>) = es"
      by simp
    show ?thesis
      unfolding recover_exchange_def header_frame_def [symmetric] catchup_frame_def [symmetric]
      by (simp only: tbind_Ok [where m = "write_frame_idle ?ha idle dl", OF 1]
          tbind_Ok [where m = "read_frame_idle MAX_HANDSHAKE_PROTO_LENGTH idle dl", OF 2]
          tbind_Ok [where m = "write_frame_idle ?ca idle dl", OF 3]
          tbind_Ok [where m = "read_frame_idle DEFAULT_MAX_PROTO_LENGTH idle dl", OF 4] decode_header_frame [OF rt]
          sum.case Let_def b e catchup_for_missing [OF a mine] decode_catchup_frame [OF rt theirs(1,2)] tret_def)
  qed
  ultimately show ?thesis by simp
qed

section \<open>One end recovers\<close>

definition exchange_bytes :: "secretbox \<Rightarrow> buffa \<Rightarrow> BackedActor \<Rightarrow> nat \<Rightarrow> bytes" where
  "exchange_bytes sb rt s k = proto_frame (header_frame rt s) @ proto_frame (catchup_frame rt (missing sb s k))"

text \<open>
  A socket from \<open>a\<close> to \<open>b\<close>: it delivers what \<open>b\<close> writes in the exchange, followed by \<open>r\<close>, takes what \<open>a\<close>
  writes, and its steps keep the idle window and the deadline of \<open>a\<close>.
\<close>

definition joins ::
    "secretbox \<Rightarrow> buffa \<Rightarrow> nat \<Rightarrow> nat \<Rightarrow> BackedActor \<Rightarrow> BackedActor \<Rightarrow> reader \<Rightarrow> tstream \<Rightarrow> bool" where
  "joins sb rt idle absolute a b r st \<longleftrightarrow>
     t_in st = feed (exchange_bytes sb rt b (length (accepted a))) r \<and>
     wr_room (t_out st) = None \<and>
     prompt idle (clock a + absolute)
       (exchange_steps rt a (header_frame rt b) (missing sb a (length (accepted b)))
         (missing sb b (length (accepted a))))
       (st\<lparr>t_now := clock a\<rparr>)"

lemma recover_joined:
  assumes rt: "buffa_ok rt" and inv: "backed_inv sb a" "backed_inv sb b"
    and resend: "can_resend sb rt a (length (accepted b))" "can_resend sb rt b (length (accepted a))"
    and st: "joins sb rt idle absolute a b r st"
  shows "recover_timed_actor rt st idle absolute a =
      (True, (snd (recover_timed_actor rt st idle absolute a)))"
    and "inbox (snd (recover_timed_actor rt st idle absolute a)) =
      inbox a @ missing sb b (length (accepted a))"
    and "live (snd (recover_timed_actor rt st idle absolute a)) =
      Some \<lparr>write_q = [], write_closed = False, read_half = r\<rparr>"
    and "disconnected_bytes (snd (recover_timed_actor rt st idle absolute a)) = None"
    and "wr_out (t_out (snd (recover_exchange rt a idle (clock a + absolute) (st\<lparr>t_now := clock a\<rparr>)))) =
      wr_out (t_out st) @ exchange_bytes sb rt a (length (accepted b))"
proof -
  let ?st = "st\<lparr>t_now := clock a\<rparr>" and ?es = "missing sb b (length (accepted a))"
  have seq: "reader_seq b = int (length (accepted b))"
    using inv(2) by (simp add: backed_inv_def reader_inv_def)
  have "recover_exchange rt a idle (clock a + absolute) ?st =
    (Ok ?es, (elapsed (exchange_steps rt a (header_frame rt b) (missing sb a (length (accepted b))) ?es) ?st)
      \<lparr>t_in := r, t_out := (t_out ?st)\<lparr>wr_out := wr_out (t_out ?st) @
        proto_frame (header_frame rt a) @ proto_frame (catchup_frame rt (missing sb a (length (accepted b))))\<rparr>\<rparr>)"
    using resend(2) st
    by (intro recover_exchange_meets [OF rt inv(1) resend(1) seq])
      (simp_all add: joins_def exchange_bytes_def can_resend_def)
  with st show "recover_timed_actor rt st idle absolute a =
      (True, (snd (recover_timed_actor rt st idle absolute a)))"
    "inbox (snd (recover_timed_actor rt st idle absolute a)) = inbox a @ ?es"
    "live (snd (recover_timed_actor rt st idle absolute a)) =
      Some \<lparr>write_q = [], write_closed = False, read_half = r\<rparr>"
    "disconnected_bytes (snd (recover_timed_actor rt st idle absolute a)) = None"
    "wr_out (t_out (snd (recover_exchange rt a idle (clock a + absolute) ?st))) =
      wr_out (t_out st) @ exchange_bytes sb rt a (length (accepted b))"
    by (simp_all add: recover_timed_actor_def spawn_socket_tasks_def exchange_bytes_def joins_def Let_def)
qed

section \<open>Delivering the catch-up\<close>

lemma deliver_sealed:
  assumes "secretbox_ok sb" and "reader_crypto s = advanced h k" and "inbox s = sealed_packet sb h k x # rest"
  shows "deliver_inbox sb s =
    s\<lparr>inbox := rest, reader_crypto := advanced h (Suc k), last_activity := clock s,
      waiting_on_keepalive := waiting_on_keepalive s \<and> fst x \<noteq> KEEP_ALIVE,
      reader_seq := reader_seq s + 1, accepted := accepted s @ [plain x],
      opened := opened s @ [sealed_packet sb h k x], pc := Sending (Ev_Packet (plain x))\<rparr>"
  using assms Packet_decrypt_sealed [OF assms(1), of "fst x" h k "snd x"]
  by (simp add: deliver_inbox_def Let_def plain_def Packet_new_def case_prod_unfold)

lemma drop_sealed_all:
  "k < length ps \<Longrightarrow> drop k (sealed_all sb h ps) = sealed_packet sb h k (ps ! k) # drop (Suc k) (sealed_all sb h ps)"
  by (simp add: Cons_nth_drop_Suc [symmetric])

lemma event_sent_step:
  assumes "pc s = Sending (Ev_Packet p)" and "\<not> consumer_gone s"
  shows "backed_step sb rt s (Event_sent True) = deliver_inbox sb (log_event (Ev_Packet p) s)"
  using assms by (simp add: backed_step_def sending_step_def environment_step_def send_event_done_def)

lemma deliver_catchup:
  assumes "secretbox_ok sb" and "length ps = k + n" and "inbox s = drop k (sealed_all sb h ps)"
    and "reader_crypto s = advanced h k" and "\<not> consumer_gone s" and "\<not> shutting_down s"
  shows "let s' = backed_run sb rt (deliver_inbox sb s) (replicate n (Event_sent True)) in
    pc s' = AtSelect \<and> packets_of (events s') = packets_of (events s) @ map plain (drop k ps) \<and>
    accepted s' = accepted s @ map plain (drop k ps) \<and> inbox s' = [] \<and> live s' = live s \<and>
    reader_seq s' = reader_seq s + int n"
  using assms(2-)
proof (induction n arbitrary: s k)
  case 0
  then show ?case by (simp add: backed_run_def deliver_inbox_def run_loop_def Let_def)
next
  case (Suc n)
  let ?x = "ps ! k"
  have k: "k < length ps" using Suc.prems by simp
  then have drop: "drop k ps = ?x # drop (Suc k) ps" by (simp add: Cons_nth_drop_Suc)
  from k Suc.prems have inbox: "inbox s = sealed_packet sb h k ?x # drop (Suc k) (sealed_all sb h ps)"
    by (simp add: drop_sealed_all)
  let ?s1 = "deliver_inbox sb s"
  note d = deliver_sealed [OF assms(1) Suc.prems(3) inbox]
  let ?s2 = "log_event (Ev_Packet (plain ?x)) ?s1"
  have step: "backed_step sb rt ?s1 (Event_sent True) = deliver_inbox sb ?s2"
    by (rule event_sent_step) (simp_all add: d Suc.prems)
  have "let s' = backed_run sb rt (deliver_inbox sb ?s2) (replicate n (Event_sent True)) in
    pc s' = AtSelect \<and> packets_of (events s') = packets_of (events ?s2) @ map plain (drop (Suc k) ps) \<and>
    accepted s' = accepted ?s2 @ map plain (drop (Suc k) ps) \<and> inbox s' = [] \<and> live s' = live ?s2 \<and>
    reader_seq s' = reader_seq ?s2 + int n"
    by (rule Suc.IH) (use Suc.prems in \<open>simp_all add: d log_event_def\<close>)
  then show ?case
    by (simp add: backed_run_def step drop Let_def) (simp add: d log_event_def)
qed

text \<open>
  A recovery that is served while earlier frames of the peer still wait in the inbox asks for them
  again: they are delivered, and then the first repeated frame ends the session.
\<close>

lemma deliver_before:
  assumes "secretbox_ok sb" and "length ps = k + n" and "inbox s = drop k (sealed_all sb h ps) @ rest"
    and "reader_crypto s = advanced h k" and "\<not> consumer_gone s"
  shows "\<exists>s'. backed_run sb rt (deliver_inbox sb s) (replicate n (Event_sent True)) = deliver_inbox sb s' \<and>
    inbox s' = rest \<and> reader_crypto s' = advanced h (length ps)"
  using assms(2-)
proof (induction n arbitrary: s k)
  case 0
  then show ?case by (intro exI [of _ s]) (simp add: backed_run_def)
next
  case (Suc n)
  from Suc.prems have inbox: "inbox s = sealed_packet sb h k (ps ! k) # drop (Suc k) (sealed_all sb h ps) @ rest"
    by (simp add: drop_sealed_all)
  let ?s1 = "deliver_inbox sb s"
  note d = deliver_sealed [OF assms(1) Suc.prems(3) inbox]
  let ?s2 = "log_event (Ev_Packet (plain (ps ! k))) ?s1"
  have step: "backed_step sb rt ?s1 (Event_sent True) = deliver_inbox sb ?s2"
    by (rule event_sent_step) (simp_all add: d Suc.prems)
  have "\<exists>s'. backed_run sb rt (deliver_inbox sb ?s2) (replicate n (Event_sent True)) = deliver_inbox sb s' \<and>
      inbox s' = rest \<and> reader_crypto s' = advanced h (length ps)"
    by (rule Suc.IH) (use Suc.prems in \<open>simp_all add: d log_event_def\<close>)
  then show ?case by (simp add: backed_run_def step)
qed

lemma repeated_frame_kills:
  assumes "secretbox_ok sb" and "inbox s = sealed_packet sb h k x # rest" and "reader_crypto s = advanced h n"
    and "unseal sb (cipher h) (nonce_at h (Suc n)) (seal sb (cipher h) (nonce_at h (Suc k)) (snd x)) = None"
  shows "pc (deliver_inbox sb s) = Dying DR_CryptoMismatch"
proof -
  have "crypto_decrypt sb (advanced h n) (seal sb (cipher h) (nonce_at h (Suc k)) (snd x)) = (advanced h (Suc n), Err DecryptFailed)"
    using assms(1,4) by (simp add: crypto_decrypt_def secretbox_ok_def nonce_at_def Let_def)
  with assms(2,3) show ?thesis
    by (simp add: deliver_inbox_def Packet_decrypt_def die_crypto_mismatch_def Let_def)
qed

lemma recover_while_delivering_kills:
  assumes "secretbox_ok sb" and "buffa_ok rt" and "backed_inv sb a" and "backed_inv sb b"
    and "reader0 (cfg a) = writer0 (cfg b)" and "pc a = Sending (Ev_Packet p)" and "\<not> consumer_gone a"
    and "k = length (accepted a)" and "k < length (written b)" and "inbox a = missing sb b k"
    and "can_resend sb rt a (length (accepted b))" and "can_resend sb rt b k" and "joins sb rt idle absolute a b r st"
    and "unseal sb (cipher (writer0 (cfg b))) (nonce_at (writer0 (cfg b)) (Suc (length (written b))))
        (seal sb (cipher (writer0 (cfg b))) (nonce_at (writer0 (cfg b)) (Suc k)) (snd (written b ! k))) = None"
  shows "pc (backed_run sb rt a (Cmd_recv (Some (Cmd_Recover st idle absolute)) # Event_sent True #
      replicate (length (written b) - k) (Event_sent True))) = Dying DR_CryptoMismatch"
proof -
  let ?h = "writer0 (cfg b)" and ?a1 = "snd (recover_timed_actor rt st idle absolute a)"
  let ?a2 = "?a1\<lparr>replies := replies a @ [Recover_reply True]\<rparr>"
  note rec = recover_joined [OF assms(2,3,4,11) assms(12,13) [unfolded assms(8)], folded assms(8)]
  have run: "running a" using assms(6) by (simp add: running_def)
  note core = running_core [OF assms(3) run]
  have "handle_cmd sb rt (Some (Cmd_Recover st idle absolute)) a = ?a2"
    using rec(1) by (simp add: handle_cmd_split) (metis fst_conv)
  then have 1: "backed_step sb rt a (Cmd_recv (Some (Cmd_Recover st idle absolute))) = ?a2"
    using assms(6) core by (simp add: backed_step_def sending_step_def environment_step_def Let_def backed_frame)
  let ?a3 = "log_event (Ev_Packet p) ?a2"
  have pc: "pc ?a2 = pc a" by (simp add: recover_timed_actor_def Let_def split: prod.split sum.split)
  have 2: "backed_step sb rt ?a2 (Event_sent True) = deliver_inbox sb ?a3"
    using pc assms(6,7) by (intro event_sent_step) (simp_all add: backed_frame)
  have miss: "missing sb b k = drop k (sealed_all sb ?h (written b))" by (simp add: missing_def history_def)
  have inbox: "inbox ?a3 = drop k (sealed_all sb ?h (written b)) @ missing sb b k"
    using rec(2) assms(10) by (simp add: log_event_def miss)
  have crypto: "reader_crypto ?a3 = advanced ?h k"
    using assms(3,5,8) core by (simp add: log_event_def backed_frame backed_inv_def reader_inv_def)
  obtain s' where s': "backed_run sb rt (deliver_inbox sb ?a3) (replicate (length (written b) - k) (Event_sent True)) = deliver_inbox sb s'"
    "inbox s' = missing sb b k" "reader_crypto s' = advanced ?h (length (written b))"
    using deliver_before [OF assms(1) _ inbox crypto, of "length (written b) - k" rt] assms(7,9)
    by (auto simp: log_event_def backed_frame)
  have "missing sb b k = sealed_packet sb ?h k (written b ! k) # drop (Suc k) (sealed_all sb ?h (written b))"
    unfolding miss by (rule drop_sealed_all [OF assms(9)])
  with s' repeated_frame_kills [OF assms(1) _ _ assms(14)] have "pc (deliver_inbox sb s') = Dying DR_CryptoMismatch" by simp
  then show ?thesis using s'(1) by (simp add: backed_run_def 1 2)
qed

section \<open>Concrete ends\<close>

definition client_end :: BackedActor where
  "client_end = offline_actor\<lparr>socket_down_pending := False\<rparr>"

definition server_cfg :: BackedConfig where
  "server_cfg = \<lparr>key = replicate 32 7, reader_msb = 0, writer_msb = 1, keepalive = None\<rparr>"

definition server_end :: BackedActor where
  "server_end = snd (backed_write sum_box 1 [5] (close_current_socket (backed_spawn server_cfg 0 sample_stream)))"

abbreviation "server_packet \<equiv> sealed_packet sum_box (writer0 server_cfg) 0 (1, [5])"

lemma close_keeps_inv:
  assumes "backed_inv sb s" and "pc s = AtSelect"
  shows "backed_inv sb (close_current_socket s)"
  using assms
  by (simp add: backed_inv_def reader_inv_def opened_inv_def delivery_inv_def running_def parked_def backed_frame)

lemma write_keeps_inv:
  assumes "backed_inv sb s" and "pc s = AtSelect"
  shows "backed_inv sb (snd (backed_write sb h p s))"
  using assms writer_inv_write [of sb s h p] ledger_inv_write [of sb s h p]
  by (simp add: backed_inv_def reader_inv_def opened_inv_def delivery_inv_def running_def parked_def backed_frame)

lemma client_end_inv: "backed_inv sb client_end"
  using offline_actor_inv [of sb]
  by (simp add: client_end_def backed_inv_def reader_inv_def opened_inv_def delivery_inv_def running_def parked_def
      ledger_inv_def)

lemma client_end_simps:
  "accepted client_end = []" "written client_end = []" "backup client_end = []" "inbox client_end = []"
  "pc client_end = AtSelect" "socket_down_pending client_end = False" "consumer_gone client_end = False"
  "clock client_end = 0" "cfg client_end = sample_cfg" "events client_end = []"
  by (simp_all add: client_end_def offline_actor_def backed_frame sample_actor_simps)

lemma server_end_inv: "backed_inv sum_box server_end"
  unfolding server_end_def
  by (intro write_keeps_inv close_keeps_inv backed_spawn_inv)
    (simp_all add: running_def backed_frame backed_spawn_def BackedActor_new_def)

lemma server_end_simps:
  "accepted server_end = []" "written server_end = [(1, [5])]" "backup server_end = [server_packet]"
  "clock server_end = 0" "cfg server_end = server_cfg"
proof -
  let ?s = "close_current_socket (backed_spawn server_cfg 0 sample_stream)"
  have "writer_inv sum_box ?s"
    by (simp add: backed_spawn_inv [unfolded backed_inv_def])
  from backed_write_eq [OF this, of 1 "[5]"]
  have eq: "server_end = ledger_add (int (length server_packet)) (pushed sum_box 1 [5] ?s)"
    by (simp add: server_end_def backed_frame backed_spawn_def BackedActor_new_def over_budget_def
        DISCONNECT_BUFFER_BYTES_def Let_def)
  show "accepted server_end = []" "written server_end = [(1, [5])]" "backup server_end = [server_packet]"
    "clock server_end = 0" "cfg server_end = server_cfg"
    unfolding eq by (simp_all add: ledger_add_def pushed_def backed_frame backed_spawn_def BackedActor_new_def Let_def)
qed

lemma ends_missing:
  "missing sum_box client_end 0 = []" "missing sum_box server_end 0 = [server_packet]"
  by (simp_all add: missing_def history_def client_end_simps server_end_simps sealed_all_def)

lemma ends_can_resend: "can_resend sum_box wire client_end 0" "can_resend sum_box wire server_end 0"
proof -
  have len: "length server_packet = 19"
    by (simp add: length_sealed_packet_18 [OF secretbox_ok_sum_box])
  have u: "unknown_write_to wire [] = []"
    by (rule unknown_write_to_Nil [OF buffa_ok_wire])
  have "catchup_frame wire [] = []"
    by (simp add: catchup_frame_def write_to_CatchupBuffer_def CatchupBuffer_default_def u)
  moreover have "length (catchup_frame wire [server_packet]) = 21"
    by (simp add: catchup_frame_def write_to_CatchupBuffer_def CatchupBuffer_default_def u wire_fields len
        put_delimited_def put_varint_small small_field_def)
  ultimately show "can_resend sum_box wire client_end 0" "can_resend sum_box wire server_end 0"
    by (simp_all add: can_resend_def ends_missing client_end_simps server_end_simps len wire_bytes_def wire_fields
        wire_limit_def proto_frame_ok_def DEFAULT_MAX_PROTO_LENGTH_def)
qed

definition wire_between :: "BackedActor \<Rightarrow> BackedActor \<Rightarrow> tstream" where
  "wire_between a b = \<lparr>
     t_in = feed (exchange_bytes sum_box wire b (length (accepted a))) \<lparr>rd_data = [], rd_end = UnexpectedEof\<rparr>,
     t_out = \<lparr>wr_out = [], wr_room = None, wr_err = UnexpectedEof\<rparr>,
     t_delays = replicate (exchange_steps wire a (header_frame wire b) (missing sum_box a (length (accepted b)))
       (missing sum_box b (length (accepted a)))) 0,
     t_now = 0\<rparr>"

lemma joins_wire_between:
  "joins sum_box wire idle absolute a b \<lparr>rd_data = [], rd_end = UnexpectedEof\<rparr> (wire_between a b)"
  by (simp add: joins_def wire_between_def prompt_def list_all_iff sum_list_replicate)

section \<open>Properties\<close>

text \<open>C15. The two ends agree: when both ends of a session run the recover exchange over a socket that
  keeps the idle window and the deadline, each reading what the other writes, both succeed; what
  each writes is what the other expects to read, each inbox gains exactly the ciphertexts its end
  has not accepted, and both ends are live with the disconnect ledger closed.\<close>

theorem recover_pair_agrees:
  assumes "buffa_ok rt" and "backed_inv sb a" and "backed_inv sb b"
    and "can_resend sb rt a (length (accepted b))" and "can_resend sb rt b (length (accepted a))"
    and "joins sb rt idle absolute a b r st" and "joins sb rt idle absolute b a r' st'"
  shows "let (ok, a') = recover_timed_actor rt st idle absolute a;
      (ok', b') = recover_timed_actor rt st' idle absolute b in
    ok \<and> ok' \<and>
    wr_out (t_out (snd (recover_exchange rt a idle (clock a + absolute) (st\<lparr>t_now := clock a\<rparr>)))) @ rd_data r' = wr_out (t_out st) @ rd_data (t_in st') \<and>
    wr_out (t_out (snd (recover_exchange rt b idle (clock b + absolute) (st'\<lparr>t_now := clock b\<rparr>)))) @ rd_data r = wr_out (t_out st') @ rd_data (t_in st) \<and>
    inbox a' = inbox a @ drop (length (accepted a)) (history sb b) \<and>
    inbox b' = inbox b @ drop (length (accepted b)) (history sb a) \<and>
    live a' \<noteq> None \<and> live b' \<noteq> None \<and> disconnected_bytes a' = None \<and> disconnected_bytes b' = None"
proof -
  note l = recover_joined [OF assms(1,2,3,4,5,6)] and r = recover_joined [OF assms(1,3,2,5,4,7)]
  have "t_in st = feed (exchange_bytes sb rt b (length (accepted a))) r"
    and "t_in st' = feed (exchange_bytes sb rt a (length (accepted b))) r'"
    using assms(6,7) by (simp_all add: joins_def)
  with l(2-) r(2-) show ?thesis
    by (subst l(1), subst r(1)) (simp add: Let_def missing_def)
qed

theorem recover_pair_agrees_witness:
  "fst (recover_timed_actor wire (wire_between client_end server_end) 10000 60000 client_end) \<and>
    inbox (snd (recover_timed_actor wire (wire_between client_end server_end) 10000 60000 client_end)) = [server_packet]"
proof -
  have r: "can_resend sum_box wire client_end (length (accepted server_end))"
    "can_resend sum_box wire server_end (length (accepted client_end))"
    using ends_can_resend by (simp_all add: client_end_simps server_end_simps)
  from recover_pair_agrees [OF buffa_ok_wire client_end_inv server_end_inv r joins_wire_between joins_wire_between,
      of 10000 60000]
  show ?thesis
    using ends_missing(2) by (simp add: client_end_simps Let_def case_prod_unfold missing_def)
qed

text \<open>C6. Exactly once: an end that waits at its \<^verbatim>\<open>select!\<close> with its inbox delivered, and recovers then, delivers
  every packet its peer has written, those of before the disconnect and those buffered during it, each
  exactly once and in the order of writing, as its consumer keeps taking events, and its reader sequence
  reaches the peer's writer sequence. This is the state in which the client's supervisor recovers
  (\<open>Reconnect\<close>). It is needed: an end that serves a recovery while frames it has received are not delivered yet is
  sent these once more and ends with a mismatch (\<open>recover_while_delivering_kills\<close>).\<close>

theorem resume_exactly_once:
  assumes "secretbox_ok sb" and "buffa_ok rt" and "backed_inv sb a" and "backed_inv sb b"
    and "reader0 (cfg a) = writer0 (cfg b)"
    and "accepted a = map plain (take (length (accepted a)) (written b))"
    and "pc a = AtSelect" and "inbox a = []" and "\<not> socket_down_pending a" and "\<not> consumer_gone a"
    and "can_resend sb rt a (length (accepted b))" and "can_resend sb rt b (length (accepted a))"
    and "joins sb rt idle absolute a b r st"
  shows "let s = backed_run sb rt a (Cmd_recv (Some (Cmd_Recover st idle absolute)) #
        replicate (length (written b) - length (accepted a)) (Event_sent True)) in
    packets_of (events s) = map plain (written b) \<and> reader_seq s = writer_seq b \<and>
    pc s = AtSelect \<and> inbox s = [] \<and> live s \<noteq> None"
proof -
  let ?k = "length (accepted a)"
  let ?a1 = "snd (recover_timed_actor rt st idle absolute a)"
  let ?a2 = "?a1\<lparr>replies := replies a @ [Recover_reply True]\<rparr>"
  note rec = recover_joined [OF assms(2,3,4,11,12,13)]
  have run: "running a" using assms(7) by (simp add: running_def)
  note core = running_core [OF assms(3) run]
  have k: "?k \<le> length (written b)" using assms(12) by (simp add: can_resend_def)
  have step: "backed_step sb rt a (Cmd_recv (Some (Cmd_Recover st idle absolute))) = deliver_inbox sb ?a2"
  proof -
    have "handle_cmd sb rt (Some (Cmd_Recover st idle absolute)) a = ?a2"
      using rec(1) by (simp add: handle_cmd_split) (metis fst_conv)
    moreover have "socket_down_pending ?a1 = socket_down_pending a"
      by (simp add: recover_timed_actor_def Let_def split: prod.split sum.split)
    ultimately show ?thesis
      using assms(7,9) core(3)
      by (simp add: backed_step_def select_step_def environment_step_def after_select_def backed_frame)
  qed
  have "let s' = backed_run sb rt (deliver_inbox sb ?a2) (replicate (length (written b) - ?k) (Event_sent True)) in
    pc s' = AtSelect \<and> packets_of (events s') = packets_of (events ?a2) @ map plain (drop ?k (written b)) \<and>
    accepted s' = accepted ?a2 @ map plain (drop ?k (written b)) \<and> inbox s' = [] \<and> live s' = live ?a2 \<and>
    reader_seq s' = reader_seq ?a2 + int (length (written b) - ?k)"
    using assms(1,3,5,8,10) core rec(2) k
    by (intro deliver_catchup [where h = "writer0 (cfg b)"])
      (simp_all add: backed_frame missing_def history_def backed_inv_def reader_inv_def)
  moreover have "packets_of (events a) = accepted a" and "reader_seq a = int ?k"
    using assms(3,7,10) run by (auto simp: backed_inv_def delivery_inv_def parked_def reader_inv_def)
  moreover have "writer_seq b = int (length (written b))"
    using assms(4) by (simp add: backed_inv_def writer_inv_def)
  moreover have "accepted a @ map plain (drop ?k (written b)) = map plain (written b)"
    by (subst assms(6)) (metis append_take_drop_id map_append)
  ultimately show ?thesis
    using k rec(3) by (simp add: backed_run_def step backed_frame Let_def)
qed

theorem resume_exactly_once_witness:
  "packets_of (events (backed_run sum_box wire client_end
      [Cmd_recv (Some (Cmd_Recover (wire_between client_end server_end) 10000 60000)), Event_sent True])) =
    [Packet_new 1 [5]]"
proof -
  have r: "can_resend sum_box wire client_end (length (accepted server_end))"
    "can_resend sum_box wire server_end (length (accepted client_end))"
    using ends_can_resend by (simp_all add: client_end_simps server_end_simps)
  have "reader0 (cfg client_end) = writer0 (cfg server_end)"
    by (simp add: client_end_simps server_end_simps reader0_def writer0_def sample_cfg_def server_cfg_def)
  from resume_exactly_once [OF secretbox_ok_sum_box buffa_ok_wire client_end_inv server_end_inv this _ _ _ _ _ r
      joins_wire_between, of 10000 60000]
  show ?thesis
    by (simp add: client_end_simps server_end_simps plain_def Let_def)
qed

end
