(* ===== verification/Client.thy ===== *)
theory Client
  imports Resume
begin

text \<open>
  \<^verbatim>\<open>crates/et-proto/src/client.rs\<close>: the plaintext handshake and the client connection with its
  reconnect supervisor. The network is a parameter of every attempt: what a TCP connect to an
  endpoint gives, after which delay. The message texts of \<^verbatim>\<open>ConnectFailure::Protocol\<close> are
  constructors of \<open>protocol_error\<close>. The client is the backed connection together with the supervisor
  task, which is parked at one of the awaits of its loop (\<open>sup_pc\<close>): \<open>client_step\<close> runs it, the
  backed connection and the owner under one stimulus each. Times are those of the backed
  connection's clock; an attempt is over, and the pause between two attempts, only once the clock
  has reached the moment it ends.
\<close>

section \<open>The handshake\<close>

datatype protocol_error =
    Bad_frame FrameError
  | Bad_ConnectResponse DecodeError
  | Missing_status ConnectResponse
  | Bad_passkey
  | Live_session

datatype ConnectFailure =
    CF_Io io_kind
  | CF_Timeout
  | CF_Protocol protocol_error
  | CF_Rejected ConnectStatus string

definition RECONNECT_DELAY :: nat where
  "RECONNECT_DELAY = 1000"

definition HANDSHAKE_TIMEOUT :: nat where
  "HANDSHAKE_TIMEOUT = 60 * 1000"

definition frame_error_to_connect_failure :: "FrameError \<Rightarrow> ConnectFailure" where
  "frame_error_to_connect_failure e =
     (case e of
        Io io \<Rightarrow> CF_Io io
      | other \<Rightarrow> CF_Protocol (Bad_frame other))"

datatype Handshake = NewClient tstream | Returning tstream

type_synonym network = "string \<Rightarrow> (nat \<times> (io_kind + tstream)) option"
type_synonym 'a attempt = "tstream \<Rightarrow> (ConnectFailure + 'a) \<times> tstream"

text \<open>\<^verbatim>\<open>timeout\<close> around one frame: it takes the stream's next delay, and time is up at \<open>deadline\<close>.\<close>

definition frame_before ::
    "nat \<Rightarrow> (tstream \<Rightarrow> FrameError + 'a \<times> tstream) \<Rightarrow> 'a attempt" where
  "frame_before deadline io s =
     (case t_delays s of
        [] \<Rightarrow> (Err CF_Timeout, s\<lparr>t_now := max (t_now s) deadline\<rparr>)
      | d # ds \<Rightarrow>
          if deadline < t_now s + d then (Err CF_Timeout, s\<lparr>t_delays := ds, t_now := max (t_now s) deadline\<rparr>)
          else
            (let s1 = s\<lparr>t_delays := ds, t_now := t_now s + d\<rparr> in
             case io s1 of
               Inl e \<Rightarrow> (Err (frame_error_to_connect_failure e), s1)
             | Inr (x, s2) \<Rightarrow> (Ok x, s2)))"

definition stream_write_proto :: "bytes \<Rightarrow> tstream \<Rightarrow> FrameError + unit \<times> tstream" where
  "stream_write_proto bs s =
     (case write_proto_frame bs (t_out s) of
        Inl e \<Rightarrow> Err e
      | Inr w \<Rightarrow> Ok ((), s\<lparr>t_out := w\<rparr>))"

definition stream_read_proto :: "int \<Rightarrow> tstream \<Rightarrow> FrameError + bytes \<times> tstream" where
  "stream_read_proto max_len s =
     (case read_proto_frame (t_in s) max_len of
        Inl e \<Rightarrow> Err e
      | Inr (bs, r) \<Rightarrow> Ok (bs, s\<lparr>t_in := r\<rparr>))"

definition connect_request :: "string \<Rightarrow> ConnectRequest" where
  "connect_request i =
     ConnectRequest_default
       \<lparr>ConnectRequest_clientId := Some i, ConnectRequest_version := Some PROTOCOL_VERSION\<rparr>"

definition handshake_result :: "buffa \<Rightarrow> bytes \<Rightarrow> tstream \<Rightarrow> ConnectFailure + Handshake" where
  "handshake_result rt bs stream =
     (case decode_ConnectResponse rt bs of
        Inl e \<Rightarrow> Err (CF_Protocol (Bad_ConnectResponse e))
      | Inr response \<Rightarrow>
          (case ConnectResponse_status response of
             Some NEW_CLIENT \<Rightarrow> Ok (NewClient stream)
           | Some RETURNING_CLIENT \<Rightarrow> Ok (Returning stream)
           | Some status \<Rightarrow>
               Err (CF_Rejected status (case ConnectResponse_error response of None \<Rightarrow> [] | Some e \<Rightarrow> e))
           | None \<Rightarrow> Err (CF_Protocol (Missing_status response))))"

definition handshake_exchange :: "buffa \<Rightarrow> string \<Rightarrow> nat \<Rightarrow> tstream \<Rightarrow> (ConnectFailure + Handshake) \<times> nat" where
  "handshake_exchange rt i deadline s =
     (case frame_before deadline (stream_write_proto (write_to_ConnectRequest rt (connect_request i))) s of
        (Inl e, s1) \<Rightarrow> (Err e, t_now s1)
      | (Inr _, s1) \<Rightarrow>
          (case frame_before (min deadline (t_now s1 + HANDSHAKE_TIMEOUT))
                  (stream_read_proto MAX_HANDSHAKE_PROTO_LENGTH) s1 of
             (Inl e, s2) \<Rightarrow> (Err e, t_now s2)
           | (Inr bs, s2) \<Rightarrow> (handshake_result rt bs s2, t_now s2)))"

text \<open>The outcome of an attempt that starts at \<open>now\<close>, and the time it ends.\<close>

definition handshake_request ::
    "buffa \<Rightarrow> network \<Rightarrow> string \<Rightarrow> string \<Rightarrow> nat \<Rightarrow> (ConnectFailure + Handshake) \<times> nat" where
  "handshake_request rt net ep i now =
     (let deadline = now + HANDSHAKE_TIMEOUT in
      case net ep of
        None \<Rightarrow> (Err CF_Timeout, deadline)
      | Some (d, r) \<Rightarrow>
          if HANDSHAKE_TIMEOUT < d then (Err CF_Timeout, deadline)
          else
            (case r of
               Inl e \<Rightarrow> (Err (CF_Io e), now + d)
             | Inr stream \<Rightarrow> handshake_exchange rt i deadline (stream\<lparr>t_now := now + d\<rparr>)))"

definition key_bytes :: "string \<Rightarrow> bytes option" where
  "key_bytes passkey =
     (let bs = str_bytes passkey in if length bs \<noteq> 32 then None else Some bs)"

section \<open>The client\<close>

datatype ClientDeadReason = InvalidKey | ServerStateLost | Other DeadReason

datatype Event = Event_Packet Packet | Event_Dead ClientDeadReason

text \<open>
  Where the supervisor task is parked: at the outer select, sending a packet to the owner, in an
  attempt that started at the given time, in \<^verbatim>\<open>recover\<close>, in the pause until the given time, sending the
  terminal event (and whether a shutdown follows), in \<^verbatim>\<open>shutdown\<close>, or it has returned.
\<close>

datatype sup_pc =
    Sup_select
  | Sup_packet Packet
  | Sup_attempt nat
  | Sup_recover tstream
  | Sup_sleep nat
  | Sup_dead ClientDeadReason bool
  | Sup_shutdown
  | Sup_done

text \<open>
  The client: the backed connection, how many of its events the supervisor has received, the
  events the supervisor has sent on, how many of these the owner has received, and whether the
  owner has dropped the client.
\<close>

record EtClient =
  backed :: BackedActor
  sup_endpoint :: string
  sup_id :: string
  taken :: nat
  sup :: sup_pc
  client_events :: "Event list"
  received :: nat
  owner_gone :: bool

definition connect_with ::
    "buffa \<Rightarrow> network \<Rightarrow> string \<Rightarrow> string \<Rightarrow> string \<Rightarrow> nat option \<Rightarrow> nat \<Rightarrow> (ConnectFailure + EtClient) \<times> nat" where
  "connect_with rt net ep i passkey keepalive_ms now =
     (case key_bytes passkey of
        None \<Rightarrow> (Err (CF_Protocol Bad_passkey), now)
      | Some k \<Rightarrow>
          (case handshake_request rt net ep i now of
             (Inr (NewClient stream), t) \<Rightarrow>
               (Ok \<lparr>backed = backed_spawn
                      \<lparr>key = k, reader_msb = SERVER_CLIENT_NONCE_MSB, writer_msb = CLIENT_SERVER_NONCE_MSB,
                       keepalive = keepalive_ms\<rparr> t stream,
                    sup_endpoint = ep, sup_id = i, taken = 0, sup = Sup_select, client_events = [],
                    received = 0, owner_gone = False\<rparr>, t)
           | (Inr (Returning stream), t) \<Rightarrow> (Err (CF_Protocol Live_session), t)
           | (Inl e, t) \<Rightarrow> (Err e, t)))"

definition connect ::
    "buffa \<Rightarrow> network \<Rightarrow> string \<Rightarrow> string \<Rightarrow> string \<Rightarrow> nat \<Rightarrow> nat \<Rightarrow> (ConnectFailure + EtClient) \<times> nat" where
  "connect rt net ep i passkey keepalive_ms now = connect_with rt net ep i passkey (Some keepalive_ms) now"

section \<open>The supervisor\<close>

definition EVENT_QUEUE_DEPTH :: nat where
  "EVENT_QUEUE_DEPTH = 1024"

definition client_queue_depth :: nat where
  "client_queue_depth = 1024"

text \<open>\<^verbatim>\<open>mpsc::Receiver::recv\<close>: an item, the end of a closed channel, or nothing yet.\<close>

datatype 'a poll = Ready 'a | Pending

definition backed_recv :: "EtClient \<Rightarrow> BackedEvent option poll" where
  "backed_recv c =
     (if taken c < length (events (backed c)) then Ready (Some (events (backed c) ! taken c))
      else if pc (backed c) = Finished then Ready None
      else Pending)"

definition sup_select :: "EtClient \<Rightarrow> EtClient" where
  "sup_select c =
     (if owner_gone c then c\<lparr>sup := Sup_done\<rparr>
      else
        (case backed_recv c of
           Pending \<Rightarrow> c
         | Ready None \<Rightarrow> c\<lparr>sup := Sup_done\<rparr>
         | Ready (Some ev) \<Rightarrow>
             c\<lparr>taken := Suc (taken c),
               sup := (case ev of
                         Ev_Packet p \<Rightarrow> Sup_packet p
                       | Ev_SocketDown \<Rightarrow> Sup_attempt (clock (backed c))
                       | Ev_Dead r \<Rightarrow> Sup_dead (Other r) False)\<rparr>))"

definition sup_attempt :: "buffa \<Rightarrow> network \<Rightarrow> nat \<Rightarrow> EtClient \<Rightarrow> EtClient" where
  "sup_attempt rt net start c =
     (if owner_gone c then c\<lparr>sup := Sup_done\<rparr>
      else
        (case handshake_request rt net (sup_endpoint c) (sup_id c) start of
           (outcome, t) \<Rightarrow>
             if clock (backed c) < t then c
             else
               c\<lparr>sup :=
                   (case outcome of
                      Inr (Returning stream) \<Rightarrow> Sup_recover stream
                    | Inr (NewClient stream) \<Rightarrow> Sup_dead ServerStateLost True
                    | Inl (CF_Rejected INVALID_KEY error) \<Rightarrow> Sup_dead InvalidKey True
                    | Inl e \<Rightarrow> Sup_sleep (clock (backed c) + RECONNECT_DELAY))\<rparr>))"

definition sup_recover :: "secretbox \<Rightarrow> buffa \<Rightarrow> tstream \<Rightarrow> EtClient \<Rightarrow> EtClient" where
  "sup_recover sb rt stream c =
     (case pc (backed c) of
        Dying r \<Rightarrow> c
      | _ \<Rightarrow>
          (case BackedHandle_recover sb rt stream (backed c) of
             (ok, b) \<Rightarrow>
               c\<lparr>backed := b, sup := (if ok then Sup_select else Sup_sleep (clock b + RECONNECT_DELAY))\<rparr>))"

text \<open>
  \<^verbatim>\<open>events_tx.send\<close>: it fails once the owner has dropped the client, waits while the queue is full,
  and then the task goes on at \<open>next\<close>.
\<close>

definition sup_send :: "Event \<Rightarrow> sup_pc \<Rightarrow> sup_pc \<Rightarrow> EtClient \<Rightarrow> EtClient" where
  "sup_send e next_ok next_err c =
     (if owner_gone c then c\<lparr>sup := next_err\<rparr>
      else if client_queue_depth \<le> length (client_events c) - received c then c
      else c\<lparr>client_events := client_events c @ [e], sup := next_ok\<rparr>)"

definition sup_step :: "secretbox \<Rightarrow> buffa \<Rightarrow> network \<Rightarrow> EtClient \<Rightarrow> EtClient" where
  "sup_step sb rt net c =
     (case sup c of
        Sup_select \<Rightarrow> sup_select c
      | Sup_packet p \<Rightarrow> sup_send (Event_Packet p) Sup_select Sup_done c
      | Sup_attempt start \<Rightarrow> sup_attempt rt net start c
      | Sup_recover stream \<Rightarrow> sup_recover sb rt stream c
      | Sup_sleep t \<Rightarrow> if t \<le> clock (backed c) then c\<lparr>sup := Sup_attempt (clock (backed c))\<rparr> else c
      | Sup_dead r then_shutdown \<Rightarrow>
          (let next = (if then_shutdown then Sup_shutdown else Sup_done) in sup_send (Event_Dead r) next next c)
      | Sup_shutdown \<Rightarrow> c\<lparr>backed := BackedHandle_shutdown sb rt (backed c), sup := Sup_done\<rparr>
      | Sup_done \<Rightarrow> c)"

section \<open>The owner's side\<close>

definition EtClient_write :: "secretbox \<Rightarrow> buffa \<Rightarrow> u8 \<Rightarrow> bytes \<Rightarrow> EtClient \<Rightarrow> (WriteError + unit) \<times> EtClient" where
  "EtClient_write sb rt h p c =
     (case BackedHandle_write sb rt h p (backed c) of (r, b) \<Rightarrow> (r, c\<lparr>backed := b\<rparr>))"

definition EtClient_kill_socket :: "secretbox \<Rightarrow> buffa \<Rightarrow> EtClient \<Rightarrow> EtClient" where
  "EtClient_kill_socket sb rt c = c\<lparr>backed := BackedHandle_kill_socket sb rt (backed c)\<rparr>"

definition EtClient_shutdown :: "secretbox \<Rightarrow> buffa \<Rightarrow> EtClient \<Rightarrow> EtClient" where
  "EtClient_shutdown sb rt c = c\<lparr>backed := BackedHandle_shutdown sb rt (backed c)\<rparr>"

definition EtClient_next_event :: "EtClient \<Rightarrow> Event option poll \<times> EtClient" where
  "EtClient_next_event c =
     (if received c < length (client_events c)
      then (Ready (Some (client_events c ! received c)), c\<lparr>received := Suc (received c)\<rparr>)
      else if sup c = Sup_done then (Ready None, c)
      else (Pending, c))"

definition EtClient_session_ended :: "EtClient \<Rightarrow> bool" where
  "EtClient_session_ended c \<longleftrightarrow> sup c = Sup_done"

section \<open>The client as one machine\<close>

datatype client_stimulus =
    Actor stimulus
  | Sup_poll network
  | Owner_write u8 bytes
  | Owner_kill_socket
  | Owner_shutdown
  | Owner_next_event
  | Owner_drop

text \<open>
  The stimuli of the backed connection that come from outside. Its commands come from the owner
  and from the supervisor; the end of the command channel is seen once both are gone. Its events
  go to the supervisor, through a bounded queue.
\<close>

definition actor_step :: "secretbox \<Rightarrow> buffa \<Rightarrow> stimulus \<Rightarrow> EtClient \<Rightarrow> EtClient" where
  "actor_step sb rt e c =
     (case e of
        Cmd_recv cmd \<Rightarrow>
          (if cmd = None \<and> owner_gone c \<and> sup c = Sup_done
           then c\<lparr>backed := backed_step sb rt (backed c) (Cmd_recv None)\<rparr> else c)
      | Event_sent _ \<Rightarrow>
          (if sup c = Sup_done then c\<lparr>backed := backed_step sb rt (backed c) (Event_sent False)\<rparr>
           else if EVENT_QUEUE_DEPTH \<le> length (events (backed c)) - taken c then c
           else c\<lparr>backed := backed_step sb rt (backed c) (Event_sent True)\<rparr>)
      | _ \<Rightarrow> c\<lparr>backed := backed_step sb rt (backed c) e\<rparr>)"

definition client_step :: "secretbox \<Rightarrow> buffa \<Rightarrow> EtClient \<Rightarrow> client_stimulus \<Rightarrow> EtClient" where
  "client_step sb rt c e =
     (case e of
        Actor e \<Rightarrow> actor_step sb rt e c
      | Sup_poll net \<Rightarrow> sup_step sb rt net c
      | Owner_write h p \<Rightarrow> if owner_gone c then c else snd (EtClient_write sb rt h p c)
      | Owner_kill_socket \<Rightarrow> if owner_gone c then c else EtClient_kill_socket sb rt c
      | Owner_shutdown \<Rightarrow> if owner_gone c then c else EtClient_shutdown sb rt c
      | Owner_next_event \<Rightarrow> if owner_gone c then c else snd (EtClient_next_event c)
      | Owner_drop \<Rightarrow> c\<lparr>owner_gone := True\<rparr>)"

definition client_run :: "secretbox \<Rightarrow> buffa \<Rightarrow> EtClient \<Rightarrow> client_stimulus list \<Rightarrow> EtClient" where
  "client_run sb rt c es = foldl (client_step sb rt) c es"

end
