(* ===== verification/Client_Spec.thy ===== *)
theory Client_Spec
  imports Client
begin

text \<open>
  The properties of the client connection, for every interleaving of the network, the supervisor
  and the owner: what the owner receives is what the server wrote, in order; a session ends once
  and for good; the supervisor gives up only when the server says so; an attempt is over in time.
\<close>

named_theorems client_frame

section \<open>The backed connection under the client\<close>

lemma snd_handle [client_frame]:
  "snd (BackedHandle_write sb rt h p s) = backed_step sb rt s (Cmd_recv (Some (Cmd_Write h p)))"
  "snd (BackedHandle_recover sb rt st s) =
     backed_step sb rt s (Cmd_recv (Some (Cmd_Recover st RECOVER_STEP_IDLE RECOVER_ABSOLUTE)))"
  by (simp_all add: BackedHandle_write_def BackedHandle_recover_def BackedHandle_recover_timed_def Let_def split: reply.split)

lemma events_step:
  "events (backed_step sb rt s e) = events s \<or>
    e = Event_sent True \<and> (\<exists>ev. events (backed_step sb rt s e) = events s @ [ev])"
proof (cases "pc s")
  case AtSelect
  then show ?thesis
    by (cases e) (auto simp: backed_step_def select_step_def backed_frame split: option.split sum.split)
next
  case (Sending ev)
  then show ?thesis
    by (cases e) (auto simp: backed_step_def sending_step_def log_event_def backed_frame Let_def)
next
  case (Dying r)
  then show ?thesis
    by (cases e) (auto simp: backed_step_def dying_step_def log_event_def backed_frame Let_def)
next
  case Finished
  then show ?thesis
    by (simp add: backed_step_def backed_frame)
qed

lemma stopped_step: "\<not> running s \<Longrightarrow> \<not> running (backed_step sb rt s e)"
  by (cases "pc s"; cases e)
    (auto simp: running_def backed_step_def dying_step_def environment_step_def log_event_def Let_def)

lemma not_running_run_end: "\<not> running (run_end s)" "shutting_down s \<Longrightarrow> \<not> running (run_loop s)"
  by (simp_all add: run_loop_def run_end_def running_def Let_def)

lemma shutdown_stops: "\<not> running (BackedHandle_shutdown sb rt s)"
proof (cases "pc s")
  case AtSelect
  then show ?thesis
    by (simp add: BackedHandle_shutdown_def backed_step_def select_step_def environment_step_def after_select_def
        handle_cmd_def not_running_run_end)
next
  case (Sending ev)
  then show ?thesis
    by (simp add: BackedHandle_shutdown_def backed_step_def sending_step_def environment_step_def send_event_done_def
        handle_cmd_def not_running_run_end Let_def split: BackedEvent.split)
qed (simp_all add: BackedHandle_shutdown_def backed_step_def dying_step_def environment_step_def running_def Let_def)

lemma stopped_write: "\<not> running s \<Longrightarrow> fst (BackedHandle_write sb rt h p s) = Err WE_Shutdown"
  by (cases "pc s")
    (auto simp: BackedHandle_write_def backed_step_def dying_step_def environment_step_def running_def Let_def)

text \<open>One step of the client is at most one step of the backed connection, and only the supervisor's
  queue can make it send an event.\<close>

lemma backed_client_step:
  obtains "backed (client_step sb rt c e) = backed c"
  | e' where "backed (client_step sb rt c e) = backed_step sb rt (backed c) e'"
      "e' = Event_sent True \<Longrightarrow> sup c \<noteq> Sup_done \<and> length (events (backed c)) - taken c < EVENT_QUEUE_DEPTH \<and>
        taken (client_step sb rt c e) = taken c \<and> sup (client_step sb rt c e) = sup c \<and>
        client_events (client_step sb rt c e) = client_events c"
proof -
  have "(backed (client_step sb rt c e) = backed c) \<or> (\<exists>e'. backed (client_step sb rt c e) = backed_step sb rt (backed c) e' \<and>
      (e' = Event_sent True \<longrightarrow> sup c \<noteq> Sup_done \<and> length (events (backed c)) - taken c < EVENT_QUEUE_DEPTH \<and>
        taken (client_step sb rt c e) = taken c \<and> sup (client_step sb rt c e) = sup c \<and>
        client_events (client_step sb rt c e) = client_events c))"
  proof (cases e)
    case (Actor a)
    then show ?thesis
      by (cases a) (auto simp: client_step_def actor_step_def)
  next
    case (Sup_poll net)
    then show ?thesis
      by (cases "sup c")
        (auto simp: client_step_def sup_step_def sup_select_def sup_send_def sup_attempt_def sup_recover_def
          BackedHandle_shutdown_def case_prod_unfold client_frame Let_def split: pc.split poll.split option.split)
  next
    case Owner_kill_socket
    then show ?thesis
      by (auto simp: client_step_def EtClient_kill_socket_def BackedHandle_kill_socket_def)
  next
    case Owner_shutdown
    then show ?thesis
      by (auto simp: client_step_def EtClient_shutdown_def BackedHandle_shutdown_def)
  qed (auto simp: client_step_def EtClient_write_def EtClient_next_event_def case_prod_unfold client_frame)
  with that show thesis by blast
qed

lemma backed_client_run: "\<exists>es'. backed (client_run sb rt c es) = backed_run sb rt (backed c) es'"
proof (induction es arbitrary: c)
  case Nil
  have "backed (client_run sb rt c []) = backed_run sb rt (backed c) []"
    by (simp add: client_run_def backed_run_def)
  then show ?case by blast
next
  case (Cons e es)
  from Cons [of "client_step sb rt c e"] obtain es' where
    es': "backed (client_run sb rt c (e # es)) = backed_run sb rt (backed (client_step sb rt c e)) es'"
    by (auto simp: client_run_def)
  show ?case
  proof (cases rule: backed_client_step [of sb rt c e])
    case 1
    with es' show ?thesis by auto
  next
    case (2 e')
    with es' have "backed (client_run sb rt c (e # es)) = backed_run sb rt (backed c) (e' # es')"
      by (simp add: backed_run_def)
    then show ?thesis by blast
  qed
qed

section \<open>The invariant\<close>

fun client_packets :: "Event list \<Rightarrow> Packet list" where
  "client_packets [] = []"
| "client_packets (Event_Packet p # es) = p # client_packets es"
| "client_packets (Event_Dead r # es) = client_packets es"

lemma client_packets_append [simp]: "client_packets (xs @ ys) = client_packets xs @ client_packets ys"
  by (induction xs rule: client_packets.induct) simp_all

definition sup_parked :: "EtClient \<Rightarrow> Packet list" where
  "sup_parked c = (case sup c of Sup_packet p \<Rightarrow> [p] | _ \<Rightarrow> [])"

text \<open>The packets taken from the backed connection are those sent on, and the one being sent.\<close>

definition relay_inv :: "EtClient \<Rightarrow> bool" where
  "relay_inv c \<longleftrightarrow>
     taken c \<le> length (events (backed c)) \<and>
     (\<exists>lost. packets_of (take (taken c) (events (backed c))) = client_packets (client_events c) @ lost \<and>
        (sup c \<noteq> Sup_done \<longrightarrow> lost = sup_parked c))"

definition queue_inv :: "EtClient \<Rightarrow> bool" where
  "queue_inv c \<longleftrightarrow>
     length (events (backed c)) - taken c \<le> EVENT_QUEUE_DEPTH \<and>
     length (client_events c) - received c \<le> client_queue_depth"

definition no_end :: "Event list \<Rightarrow> bool" where
  "no_end es \<longleftrightarrow> (\<forall>r. Event_Dead r \<notin> set es)"

text \<open>The terminal event is the last, and the backed connection stops with it.\<close>

definition end_inv :: "EtClient \<Rightarrow> bool" where
  "end_inv c \<longleftrightarrow>
     (no_end (client_events c) \<or>
      (\<exists>es r. client_events c = es @ [Event_Dead r] \<and> no_end es) \<and>
      (sup c = Sup_shutdown \<or> sup c = Sup_done \<and> \<not> running (backed c))) \<and>
     (case sup c of Sup_dead r sd \<Rightarrow> sd \<or> \<not> running (backed c) | _ \<Rightarrow> True)"

definition flow_inv :: "EtClient \<Rightarrow> bool" where
  "flow_inv c \<longleftrightarrow> relay_inv c \<and> queue_inv c \<and> end_inv c"

definition client_inv :: "secretbox \<Rightarrow> EtClient \<Rightarrow> bool" where
  "client_inv sb c \<longleftrightarrow> backed_inv sb (backed c) \<and> dead_inv (backed c) \<and> flow_inv c"

lemmas flow_defs = flow_inv_def relay_inv_def queue_inv_def end_inv_def sup_parked_def

lemma no_end_simps [simp]:
  "no_end []" "no_end (xs @ ys) \<longleftrightarrow> no_end xs \<and> no_end ys" "no_end [Event_Packet p]" "\<not> no_end [Event_Dead r]"
  by (auto simp: no_end_def)

lemma flow_no_end: "flow_inv c \<Longrightarrow> sup c \<noteq> Sup_shutdown \<Longrightarrow> sup c \<noteq> Sup_done \<Longrightarrow> no_end (client_events c)"
  by (auto simp: flow_inv_def end_inv_def)

lemma sup_select_inv:
  assumes "flow_inv c" and "sup c = Sup_select" and "dead_inv (backed c)"
  shows "flow_inv (sup_select c)"
proof -
  let ?evs = "events (backed c)"
  have ne: "no_end (client_events c)" using assms by (intro flow_no_end) simp_all
  have "relay_inv (sup_select c)"
  proof (cases "\<not> owner_gone c \<and> taken c < length ?evs")
    case True
    then have "packets_of (take (Suc (taken c)) ?evs) = packets_of (take (taken c) ?evs) @ packets_of [?evs ! taken c]"
      by (metis packets_of_append take_Suc_conv_app_nth)
    with True assms(1,2) show ?thesis
      by (cases "?evs ! taken c") (auto simp: sup_select_def backed_recv_def flow_inv_def relay_inv_def sup_parked_def)
  qed (use assms in \<open>auto simp: sup_select_def backed_recv_def flow_inv_def relay_inv_def sup_parked_def\<close>)
  moreover have "queue_inv (sup_select c)"
    using assms(1)
    by (auto simp: sup_select_def backed_recv_def flow_inv_def queue_inv_def split: poll.split option.split BackedEvent.split)
  moreover have "\<not> running (backed c)" if "taken c < length ?evs" "?evs ! taken c = Ev_Dead r" for r
  proof -
    from that have "Ev_Dead r \<in> set ?evs" by (metis nth_mem)
    with assms(3) show ?thesis by (auto simp: dead_inv_def no_dead_def running_def)
  qed
  with ne assms(2) have "end_inv (sup_select c)"
    by (auto simp: sup_select_def backed_recv_def end_inv_def split: BackedEvent.split)
  ultimately show ?thesis by (simp add: flow_inv_def)
qed

lemma sup_send_packet_inv:
  "flow_inv c \<Longrightarrow> sup c = Sup_packet p \<Longrightarrow> flow_inv (sup_send (Event_Packet p) Sup_select Sup_done c)"
  using flow_no_end [of c] by (auto simp: sup_send_def flow_defs)

lemma sup_send_dead_inv:
  "flow_inv c \<Longrightarrow> sup c = Sup_dead r sd \<Longrightarrow> n = (if sd then Sup_shutdown else Sup_done) \<Longrightarrow>
    flow_inv (sup_send (Event_Dead r) n n c)"
  using flow_no_end [of c] by (auto simp: sup_send_def flow_defs)

text \<open>A step that sends nothing: the supervisor stays where it is, or moves between places where it
  holds no packet.\<close>

definition sup_moves :: "sup_pc \<Rightarrow> sup_pc \<Rightarrow> bool" where
  "sup_moves a b \<longleftrightarrow>
     a = b \<or> a \<noteq> Sup_done \<and> a \<noteq> Sup_shutdown \<and> (\<forall>p. a \<noteq> Sup_packet p) \<and>
       (\<forall>p. b \<noteq> Sup_packet p) \<and> (\<forall>r. b \<noteq> Sup_dead r False)"

lemma quiet_inv:
  assumes "flow_inv c"
    and "events (backed c') = events (backed c)" and "\<not> running (backed c) \<Longrightarrow> \<not> running (backed c')"
    and "taken c' = taken c" and "client_events c' = client_events c" and "received c \<le> received c'"
    and "sup_moves (sup c) (sup c')"
  shows "flow_inv c'"
  using assms flow_no_end [OF assms(1)]
  by (auto simp: flow_defs sup_moves_def split: sup_pc.splits)

lemma backed_parts_inv:
  assumes "client_inv sb c"
  shows "backed_inv sb (backed (client_step sb rt c e))" "dead_inv (backed (client_step sb rt c e))"
  by (cases rule: backed_client_step [of sb rt c e];
      use assms in \<open>simp add: client_inv_def backed_step_inv dead_inv_step\<close>)+

lemma backed_step_flow:
  assumes "flow_inv c" and "e = Event_sent True \<longrightarrow> length (events (backed c)) - taken c < EVENT_QUEUE_DEPTH"
  shows "flow_inv (c\<lparr>backed := backed_step sb rt (backed c) e\<rparr>)"
proof (cases "events (backed_step sb rt (backed c) e) = events (backed c)")
  case True
  show ?thesis
    by (rule quiet_inv [OF assms(1)]) (simp_all add: True stopped_step sup_moves_def)
next
  case False
  with events_step [of sb rt "backed c" e] obtain ev where
    "e = Event_sent True" "events (backed_step sb rt (backed c) e) = events (backed c) @ [ev]"
    by blast
  with assms stopped_step [of "backed c" sb rt e] show ?thesis
    by (auto simp: flow_defs split: sup_pc.splits)
qed

lemma sup_step_inv:
  assumes "flow_inv c" and "dead_inv (backed c)"
  shows "flow_inv (sup_step sb rt net c)"
proof (cases "sup c")
  case (Sup_attempt start)
  have "flow_inv (sup_attempt rt net start c)"
    by (rule quiet_inv [OF assms(1)])
      (auto simp: sup_attempt_def Sup_attempt sup_moves_def
        split: prod.split sum.split Handshake.split ConnectFailure.split ConnectStatus.split)
  with Sup_attempt show ?thesis by (simp add: sup_step_def)
next
  case (Sup_recover stream)
  let ?b = "snd (BackedHandle_recover sb rt stream (backed c))"
  have "events ?b = events (backed c)" and "\<not> running (backed c) \<Longrightarrow> \<not> running ?b"
    using events_step stopped_step unfolding client_frame by blast+
  then have "flow_inv (sup_recover sb rt stream c)"
    by (intro quiet_inv [OF assms(1)])
      (auto simp: sup_recover_def Sup_recover sup_moves_def case_prod_unfold split: pc.split)
  with Sup_recover show ?thesis by (simp add: sup_step_def)
next
  case (Sup_sleep t)
  have "flow_inv (c\<lparr>sup := Sup_attempt (clock (backed c))\<rparr>)"
    by (rule quiet_inv [OF assms(1)]) (simp_all add: Sup_sleep sup_moves_def)
  with assms Sup_sleep show ?thesis by (simp add: sup_step_def)
next
  case Sup_shutdown
  have "events (BackedHandle_shutdown sb rt (backed c)) = events (backed c)"
    using events_step unfolding BackedHandle_shutdown_def by blast
  with assms Sup_shutdown shutdown_stops show ?thesis
    by (auto simp: sup_step_def flow_defs)
qed (use assms in \<open>simp_all add: sup_step_def sup_select_inv sup_send_packet_inv sup_send_dead_inv Let_def\<close>)

lemma client_step_inv:
  assumes "client_inv sb c"
  shows "client_inv sb (client_step sb rt c e)"
proof -
  from assms have inv: "flow_inv c" "dead_inv (backed c)"
    by (simp_all add: client_inv_def)
  have next_event: "flow_inv (snd (EtClient_next_event c))" and drop: "flow_inv (c\<lparr>owner_gone := True\<rparr>)"
    by (rule quiet_inv [OF inv(1)]; simp add: EtClient_next_event_def sup_moves_def)+
  have "flow_inv (client_step sb rt c e)"
  proof (cases e)
    case (Actor a)
    with inv show ?thesis
      by (cases a) (simp_all add: client_step_def actor_step_def backed_step_flow)
  qed (use inv next_event drop in \<open>simp_all add: client_step_def EtClient_write_def EtClient_kill_socket_def
      EtClient_shutdown_def BackedHandle_kill_socket_def BackedHandle_shutdown_def case_prod_unfold client_frame
      backed_step_flow sup_step_inv\<close>)
  with backed_parts_inv [OF assms] show ?thesis
    by (simp add: client_inv_def)
qed

lemma client_events_grow: "\<exists>out. client_events (client_step sb rt c e) = client_events c @ out"
proof (cases e)
  case (Actor a)
  then show ?thesis by (cases a) (auto simp: client_step_def actor_step_def)
next
  case (Sup_poll net)
  then show ?thesis
    by (cases "sup c")
      (auto simp: client_step_def sup_step_def sup_select_def sup_send_def sup_attempt_def sup_recover_def case_prod_unfold Let_def
        split: pc.split poll.split option.split)
qed (auto simp: client_step_def EtClient_write_def EtClient_kill_socket_def EtClient_shutdown_def EtClient_next_event_def case_prod_unfold)

interpretation client: logging_machine "client_step sb rt" "client_inv sb" client_events for sb rt
  by unfold_locales (auto intro: client_step_inv client_events_grow)

lemma client_run_inv: "client_inv sb c \<Longrightarrow> client_inv sb (client_run sb rt c es)"
  unfolding client_run_def by (rule client.inv_run)

lemma connect_with_Ok:
  assumes "connect_with rt net ep i passkey ka now = (Ok c, t)"
  obtains stream where "c = \<lparr>backed = backed_spawn
      \<lparr>key = str_bytes passkey, reader_msb = SERVER_CLIENT_NONCE_MSB, writer_msb = CLIENT_SERVER_NONCE_MSB, keepalive = ka\<rparr> t stream,
      sup_endpoint = ep, sup_id = i, taken = 0, sup = Sup_select, client_events = [], received = 0, owner_gone = False\<rparr>"
    "length passkey = 32"
  using assms
  by (auto simp: connect_with_def key_bytes_def Let_def split: option.splits prod.splits sum.splits Handshake.splits if_splits)

lemma connect_with_returning:
  "length passkey = 32 \<Longrightarrow> handshake_request rt net ep i now = (Ok (Returning st), t) \<Longrightarrow>
    connect_with rt net ep i passkey ka now = (Err (CF_Protocol Live_session), t)"
  by (simp add: connect_with_def key_bytes_def)

lemma connect_with_inv: "connect_with rt net ep i passkey ka now = (Ok c, t) \<Longrightarrow> client_inv sb c"
proof -
  have "events (backed_spawn cf t st) = []" for cf t st
    by (simp add: backed_spawn_def BackedActor_new_def)
  moreover assume "connect_with rt net ep i passkey ka now = (Ok c, t)"
  ultimately show "client_inv sb c"
    by (elim connect_with_Ok) (simp add: client_inv_def backed_spawn_inv backed_spawn_dead_inv flow_defs)
qed

text \<open>The reader of a client is that of the passkey, and what it has handed on is what was accepted.\<close>

lemma client_run_cfg: "cfg (backed (client_run sb rt c es)) = cfg (backed c)"
proof -
  obtain es' where "backed (client_run sb rt c es) = backed_run sb rt (backed c) es'"
    using backed_client_run [of sb rt c es] by blast
  then show ?thesis by simp
qed

lemma connect_with_reader:
  "connect_with rt net ep i passkey ka now = (Ok c, t) \<Longrightarrow>
    reader0 (cfg (backed c)) = CryptoHandler_new (str_bytes passkey) SERVER_CLIENT_NONCE_MSB"
  by (erule connect_with_Ok) (simp add: reader0_def)

lemma client_inv_accepted:
  assumes "client_inv sb c"
  shows "prefix (client_packets (client_events c)) (accepted (backed c))"
proof -
  let ?s = "backed c"
  have d: "delivery_inv ?s" and r: "relay_inv c"
    using assms by (simp_all add: client_inv_def backed_inv_def flow_inv_def)
  from r have "prefix (client_packets (client_events c)) (packets_of (take (taken c) (events ?s)))"
    by (auto simp: relay_inv_def)
  also have "prefix \<dots> (packets_of (events ?s))"
    by (metis append_take_drop_id packets_of_append prefixI)
  also have "prefix \<dots> (accepted ?s)" using d by (auto simp: delivery_inv_def)
  finally show ?thesis .
qed

lemma client_inv_prefix:
  assumes "client_inv sb c" and "length (accepted (backed c)) < 256 ^ 23" and "length ps < 256 ^ 23"
  shows "list_all (genuine sb (reader0 (cfg (backed c))) ps) (opened (backed c)) \<Longrightarrow>
      prefix (map payload (client_packets (client_events c))) (map snd ps)"
    and "secretbox_ok sb \<Longrightarrow> list_all (untouched sb (reader0 (cfg (backed c))) ps) (opened (backed c)) \<Longrightarrow>
      prefix (client_packets (client_events c)) (map plain ps)"
proof -
  have inv: "opened_inv sb (backed c)" using assms(1) by (simp add: client_inv_def backed_inv_def reader_inv_def)
  note pre = client_inv_accepted [OF assms(1)]
  show "prefix (map payload (client_packets (client_events c))) (map snd ps)"
    if "list_all (genuine sb (reader0 (cfg (backed c))) ps) (opened (backed c))"
  proof -
    have "prefix (map payload (accepted (backed c))) (map snd ps)"
      unfolding accepted_payloads [OF inv that assms(2,3)] by (rule take_is_prefix)
    with map_mono_prefix [OF pre, of payload] show ?thesis by (rule prefix_order.trans)
  qed
  show "prefix (client_packets (client_events c)) (map plain ps)"
    if "secretbox_ok sb" "list_all (untouched sb (reader0 (cfg (backed c))) ps) (opened (backed c))"
    using pre accepted_packets [OF that(1) inv that(2) assms(2,3)] by (rule prefix_order.trans)
qed

section \<open>The handshake\<close>

lemma frame_before_now:
  assumes "\<And>s x s'. io s = Ok (x, s') \<Longrightarrow> t_now s' = t_now s" and "t_now s \<le> deadline"
  shows "t_now s \<le> t_now (snd (frame_before deadline io s)) \<and> t_now (snd (frame_before deadline io s)) \<le> deadline"
  using assms by (auto simp: frame_before_def Let_def split: list.splits sum.splits)

lemma handshake_within_timeout:
  "now \<le> snd (handshake_request rt net ep i now) \<and> snd (handshake_request rt net ep i now) \<le> now + HANDSHAKE_TIMEOUT"
proof -
  have w: "stream_write_proto bs s = Ok (x, s') \<Longrightarrow> t_now s' = t_now s" for bs s x s'
    by (auto simp: stream_write_proto_def split: sum.splits)
  have r: "stream_read_proto m s = Ok (x, s') \<Longrightarrow> t_now s' = t_now s" for m s x s'
    by (auto simp: stream_read_proto_def split: sum.splits)
  have ex: "t_now s \<le> snd (handshake_exchange rt i dl s) \<and> snd (handshake_exchange rt i dl s) \<le> dl"
    if "t_now s \<le> dl" for s dl
  proof -
    let ?a = "frame_before dl (stream_write_proto (write_to_ConnectRequest rt (connect_request i))) s"
    have a: "t_now s \<le> t_now (snd ?a) \<and> t_now (snd ?a) \<le> dl"
      by (rule frame_before_now [OF w that])
    obtain res s1 where s1: "?a = (res, s1)" by (cases ?a)
    let ?b = "frame_before (min dl (t_now s1 + HANDSHAKE_TIMEOUT)) (stream_read_proto MAX_HANDSHAKE_PROTO_LENGTH) s1"
    have "t_now s1 \<le> t_now (snd ?b) \<and> t_now (snd ?b) \<le> min dl (t_now s1 + HANDSHAKE_TIMEOUT)"
      using a s1 by (intro frame_before_now [OF r]) simp_all
    with a s1 show ?thesis
      by (cases res; cases ?b) (auto simp: handshake_exchange_def split: sum.split)
  qed
  have "now + d \<le> snd (handshake_exchange rt i (now + HANDSHAKE_TIMEOUT) (s\<lparr>t_now := now + d\<rparr>)) \<and>
      snd (handshake_exchange rt i (now + HANDSHAKE_TIMEOUT) (s\<lparr>t_now := now + d\<rparr>)) \<le> now + HANDSHAKE_TIMEOUT"
    if "d \<le> HANDSHAKE_TIMEOUT" for d s
    using ex [of "s\<lparr>t_now := now + d\<rparr>" "now + HANDSHAKE_TIMEOUT"] that by simp
  then show ?thesis
    by (auto simp: handshake_request_def Let_def not_less split: option.split sum.split) (meson add_leD1 le_trans)
qed

text \<open>
  A server that answers the request with \<open>resp\<close> after the given delays and then sends \<open>rest\<close>, and the
  stream after the exchange.
\<close>

definition answering :: "buffa \<Rightarrow> ConnectResponse \<Rightarrow> nat \<Rightarrow> nat \<Rightarrow> nat list \<Rightarrow> reader \<Rightarrow> tstream \<Rightarrow> bool" where
  "answering rt resp d1 d2 ds rest st \<longleftrightarrow>
     t_in st = feed (proto_frame (write_to_ConnectResponse rt resp)) rest \<and> t_delays st = d1 # d2 # ds \<and>
     wr_room (t_out st) = None"

definition answered :: "buffa \<Rightarrow> string \<Rightarrow> nat \<Rightarrow> nat list \<Rightarrow> reader \<Rightarrow> tstream \<Rightarrow> tstream" where
  "answered rt i t ds rest st =
     st\<lparr>t_in := rest,
        t_out := (t_out st)\<lparr>wr_out := wr_out (t_out st) @ proto_frame (write_to_ConnectRequest rt (connect_request i))\<rparr>,
        t_delays := ds, t_now := t\<rparr>"

lemma handshake_answered:
  assumes "buffa_ok rt" and "wf_ConnectResponse rt resp"
    and "proto_frame_ok MAX_HANDSHAKE_PROTO_LENGTH (write_to_ConnectResponse rt resp)"
    and "net ep = Some (d, Ok st)" and "answering rt resp d1 d2 ds rest st" and "d + d1 + d2 \<le> HANDSHAKE_TIMEOUT"
  shows "handshake_request rt net ep i now =
      (handshake_result rt (write_to_ConnectResponse rt resp) (answered rt i (now + d + d1 + d2) ds rest st), now + d + d1 + d2)"
proof -
  let ?resp = "write_to_ConnectResponse rt resp" and ?req = "write_to_ConnectRequest rt (connect_request i)"
  from assms(5) have st: "t_in st = feed (proto_frame ?resp) rest" "t_delays st = d1 # d2 # ds"
    "wr_room (t_out st) = None"
    by (auto simp: answering_def)
  let ?s0 = "st\<lparr>t_now := now + d\<rparr>"
  let ?s1 = "st\<lparr>t_delays := d2 # ds, t_now := now + d + d1, t_out := (t_out st)\<lparr>wr_out := wr_out (t_out st) @ proto_frame ?req\<rparr>\<rparr>"
  let ?s2 = "answered rt i (now + d + d1 + d2) ds rest st"
  have "frame_before (now + HANDSHAKE_TIMEOUT) (stream_write_proto ?req) ?s0 = (Ok (), ?s1)"
    using st assms(6) by (simp add: frame_before_def stream_write_proto_def write_proto_frame_out)
  moreover have "frame_before (min (now + HANDSHAKE_TIMEOUT) (t_now ?s1 + HANDSHAKE_TIMEOUT))
      (stream_read_proto MAX_HANDSHAKE_PROTO_LENGTH) ?s1 = (Ok ?resp, ?s2)"
    using st assms(3,6) by (simp add: frame_before_def stream_read_proto_def proto.dec_enc answered_def)
  ultimately have "handshake_exchange rt i (now + HANDSHAKE_TIMEOUT) ?s0 = (handshake_result rt ?resp ?s2, t_now ?s2)"
    by (simp add: handshake_exchange_def)
  then show ?thesis
    using assms(4,6) by (simp add: handshake_request_def answered_def)
qed

lemma handshake_result_answer:
  assumes "buffa_ok rt" and "wf_ConnectResponse rt resp"
  shows "handshake_result rt (write_to_ConnectResponse rt resp) st =
    (case ConnectResponse_status resp of
       Some NEW_CLIENT \<Rightarrow> Ok (NewClient st)
     | Some RETURNING_CLIENT \<Rightarrow> Ok (Returning st)
     | Some status \<Rightarrow> Err (CF_Rejected status (case ConnectResponse_error resp of None \<Rightarrow> [] | Some e \<Rightarrow> e))
     | None \<Rightarrow> Err (CF_Protocol (Missing_status resp)))"
  by (simp add: handshake_result_def decode_write_ConnectResponse [OF assms])

section \<open>The reconnect loop\<close>

text \<open>The outcomes of an attempt after which the supervisor tries again.\<close>

definition retried :: "ConnectFailure + Handshake \<Rightarrow> bool" where
  "retried outcome \<longleftrightarrow>
     (case outcome of
        Inl (CF_Rejected status e) \<Rightarrow> status \<noteq> INVALID_KEY
      | Inl _ \<Rightarrow> True
      | Inr _ \<Rightarrow> False)"

text \<open>An attempt that fails and the pause after it, each given the time it may take.\<close>

definition failed_attempt :: "network \<Rightarrow> client_stimulus list" where
  "failed_attempt net =
     [Actor (Elapse HANDSHAKE_TIMEOUT), Sup_poll net, Actor (Elapse RECONNECT_DELAY), Sup_poll net]"

definition later :: "nat \<Rightarrow> BackedActor \<Rightarrow> BackedActor" where
  "later d s = s\<lparr>clock := clock s + d\<rparr>"

lemma later_simps [simp]: "later 0 s = s" "later d (later e s) = later (d + e) s" "clock (later d s) = clock s + d"
  by (simp_all add: later_def)

lemma elapse_step: "backed_step sb rt s (Elapse d) = later d s"
  by (simp add: backed_step_def select_step_def sending_step_def dying_step_def environment_step_def later_def Let_def
      split: pc.split)

lemma client_run_simps [simp]:
  "client_run sb rt c [] = c"
  "client_run sb rt c (e # es) = client_run sb rt (client_step sb rt c e) es"
  "client_run sb rt c (es @ es') = client_run sb rt (client_run sb rt c es) es'"
  by (simp_all add: client_run_def)

lemma failed_attempt_run:
  assumes "sup c = Sup_attempt start" and "start \<le> clock (backed c)" and "\<not> owner_gone c"
    and "retried (fst (handshake_request rt net (sup_endpoint c) (sup_id c) start))"
  shows "client_run sb rt c (failed_attempt net) =
    c\<lparr>backed := later (RECONNECT_DELAY + HANDSHAKE_TIMEOUT) (backed c),
      sup := Sup_attempt (clock (backed c) + (RECONNECT_DELAY + HANDSHAKE_TIMEOUT))\<rparr>"
proof -
  obtain outcome t where h: "handshake_request rt net (sup_endpoint c) (sup_id c) start = (outcome, t)"
    by (cases "handshake_request rt net (sup_endpoint c) (sup_id c) start")
  have "t \<le> clock (backed c) + HANDSHAKE_TIMEOUT"
    using handshake_within_timeout [of start rt net "sup_endpoint c" "sup_id c"] assms(2) by (simp add: h)
  with assms h show ?thesis
    by (cases outcome)
      (auto simp: failed_attempt_def client_step_def actor_step_def sup_step_def sup_attempt_def elapse_step retried_def
        add.commute add.left_commute split: ConnectFailure.splits ConnectStatus.splits)
qed

lemma failed_attempts_run:
  assumes "sup c = Sup_attempt start" and "start \<le> clock (backed c)" and "\<not> owner_gone c"
    and "\<forall>net \<in> set nets. \<forall>now. retried (fst (handshake_request rt net (sup_endpoint c) (sup_id c) now))"
  shows "\<exists>start'. client_run sb rt c (concat (map failed_attempt nets)) =
    c\<lparr>backed := later (length nets * (RECONNECT_DELAY + HANDSHAKE_TIMEOUT)) (backed c), sup := Sup_attempt start'\<rparr> \<and>
      start' \<le> clock (backed c) + length nets * (RECONNECT_DELAY + HANDSHAKE_TIMEOUT)"
  using assms
proof (induction nets arbitrary: c start)
  case Nil
  then show ?case by (intro exI [of _ start]) simp
next
  case (Cons net nets)
  let ?D = "RECONNECT_DELAY + HANDSHAKE_TIMEOUT"
  let ?c = "c\<lparr>backed := later ?D (backed c), sup := Sup_attempt (clock (backed c) + ?D)\<rparr>"
  have step: "client_run sb rt c (failed_attempt net) = ?c"
    using Cons.prems by (intro failed_attempt_run) auto
  from Cons.IH [of ?c "clock (backed c) + ?D"] Cons.prems obtain start' where
    "client_run sb rt ?c (concat (map failed_attempt nets)) =
      ?c\<lparr>backed := later (length nets * ?D) (backed ?c), sup := Sup_attempt start'\<rparr>"
    "start' \<le> clock (backed ?c) + length nets * ?D"
    by auto
  with step show ?case
    by (intro exI [of _ start']) (simp add: algebra_simps)
qed

lemma after_select_keeps:
  assumes "\<not> shutting_down s"
  shows "live (after_select sb s) = live s" "replies (after_select sb s) = replies s" "recoveries (after_select sb s) = recoveries s"
  using assms
  by (auto simp: after_select_def deliver_inbox_def run_loop_def die_crypto_mismatch_def Let_def
      split: list.split option.split sum.split prod.split)

lemma recover_handle:
  assumes "backed_inv sb s" and "pc s = AtSelect"
    and "recover_timed_actor rt st RECOVER_STEP_IDLE RECOVER_ABSOLUTE s = (True, s1)"
  shows "fst (BackedHandle_recover sb rt st s)" "live (snd (BackedHandle_recover sb rt st s)) = live s1"
    "recoveries (snd (BackedHandle_recover sb rt st s)) = Suc (recoveries s)"
proof -
  have "\<not> shutting_down s" using assms(1,2) by (simp add: backed_inv_def running_def)
  with assms(3) have s1: "\<not> shutting_down s1" "replies s1 = replies s" "recoveries s1 = Suc (recoveries s)"
    by (auto simp: recover_timed_actor_def Let_def split: prod.splits sum.splits)
  have "backed_step sb rt s (Cmd_recv (Some (Cmd_Recover st RECOVER_STEP_IDLE RECOVER_ABSOLUTE))) =
      after_select sb (s1\<lparr>replies := replies s1 @ [Recover_reply True]\<rparr>)"
    using assms(2,3) by (simp add: backed_step_def select_step_def handle_cmd_def environment_step_def)
  with s1 show "fst (BackedHandle_recover sb rt st s)" "live (snd (BackedHandle_recover sb rt st s)) = live s1"
    "recoveries (snd (BackedHandle_recover sb rt st s)) = Suc (recoveries s)"
    by (simp_all add: client_frame after_select_keeps BackedHandle_recover_def BackedHandle_recover_timed_def Let_def)
qed

section \<open>Concrete instances\<close>

definition status_response :: "ConnectStatus \<Rightarrow> ConnectResponse" where
  "status_response s = ConnectResponse_default\<lparr>ConnectResponse_status := Some s\<rparr>"

definition serving :: "ConnectStatus \<Rightarrow> nat list \<Rightarrow> bytes \<Rightarrow> network" where
  "serving status ds bs =
     (\<lambda>ep. Some (0, Ok
       \<lparr>t_in = feed (proto_frame (write_to_ConnectResponse wire (status_response status)))
          \<lparr>rd_data = bs, rd_end = UnexpectedEof\<rparr>,
        t_out = \<lparr>wr_out = [], wr_room = None, wr_err = UnexpectedEof\<rparr>, t_delays = 0 # 0 # ds, t_now = 0\<rparr>))"

lemma status_response_ok:
  "wf_ConnectResponse rt (status_response s)"
  "proto_frame_ok MAX_HANDSHAKE_PROTO_LENGTH (write_to_ConnectResponse wire (status_response s))"
proof -
  show "wf_ConnectResponse rt (status_response s)"
    by (simp add: wf_ConnectResponse_def status_response_def ConnectResponse_default_def)
  have "length (write_to_ConnectResponse wire (status_response s)) =
      length (put_tag 1 Varint) + length (put_varint (unat (scast (ConnectStatus_to_i32 s) :: 64 word)))"
    by (simp add: write_to_ConnectResponse_def status_response_def ConnectResponse_default_def wire_fields
        unknown_write_to_Nil [OF buffa_ok_wire])
  also have "\<dots> \<le> 11"
    using length_put_varint64 [of "scast (ConnectStatus_to_i32 s)"] by (simp add: length_put_tag small_field_def)
  finally have "length (write_to_ConnectResponse wire (status_response s)) \<le> 11" .
  then show "proto_frame_ok MAX_HANDSHAKE_PROTO_LENGTH (write_to_ConnectResponse wire (status_response s))"
    by (simp add: proto_frame_ok_def MAX_HANDSHAKE_PROTO_LENGTH_def)
qed

lemma serving_answers:
  "answering wire (status_response status) 0 0 ds \<lparr>rd_data = bs, rd_end = UnexpectedEof\<rparr>
    (case serving status ds bs ep of Some (d, Inr st) \<Rightarrow> st | _ \<Rightarrow> undefined)"
  by (simp add: answering_def serving_def)

lemma serving_request:
  "handshake_request wire (serving status ds bs) ep i now =
    (handshake_result wire (write_to_ConnectResponse wire (status_response status))
      (answered wire i now ds \<lparr>rd_data = bs, rd_end = UnexpectedEof\<rparr>
        (case serving status ds bs ep of Some (d, Inr st) \<Rightarrow> st | _ \<Rightarrow> undefined)), now)"
  using handshake_answered [OF buffa_ok_wire status_response_ok(1) status_response_ok(2) _ serving_answers [of status ds bs ep],
      of "serving status ds bs" ep 0 i now]
  by (simp add: serving_def)

lemma connect_with_serving:
  "\<exists>c. connect_with wire (serving NEW_CLIENT [] []) ''h:2022'' ''id'' (replicate 32 CHR ''k'') (Some 5000) 0 = (Ok c, 0)"
  by (simp add: connect_with_def key_bytes_def Let_def serving_request handshake_result_answer [OF buffa_ok_wire status_response_ok(1)])
    (simp add: status_response_def)

text \<open>A client in the reconnect loop, its connection offline.\<close>

definition offline_client :: EtClient where
  "offline_client =
     \<lparr>backed = client_end, sup_endpoint = ''h:2022'', sup_id = ''id'', taken = 0, sup = Sup_attempt 0,
      client_events = [], received = 0, owner_gone = False\<rparr>"

lemma offline_client_inv: "client_inv sb offline_client"
  using client_end_inv [of sb]
  by (simp add: offline_client_def client_inv_def flow_defs dead_inv_def client_end_simps)

text \<open>A server that takes the client back and sends what it has missed.\<close>

definition return_bytes :: bytes where
  "return_bytes = exchange_bytes sum_box wire server_end (length (accepted client_end))"

definition return_delays :: "nat list" where
  "return_delays =
     replicate (exchange_steps wire client_end (header_frame wire server_end) (missing sum_box client_end (length (accepted server_end)))
       (missing sum_box server_end (length (accepted client_end)))) 0"

definition silent_net :: network where
  "silent_net = (\<lambda>ep. None)"

definition return_net :: network where
  "return_net = serving RETURNING_CLIENT return_delays return_bytes"

lemma return_joins:
  "joins sum_box wire RECOVER_STEP_IDLE RECOVER_ABSOLUTE (later n client_end) server_end \<lparr>rd_data = [], rd_end = UnexpectedEof\<rparr>
    (answered wire i t return_delays \<lparr>rd_data = return_bytes, rd_end = UnexpectedEof\<rparr>
      (case return_net ep of Some (d, Inr st) \<Rightarrow> st | _ \<Rightarrow> undefined))"
proof -
  have "exchange_steps wire (later n client_end) h m m' = exchange_steps wire client_end h m m'" for h m m'
    by (simp add: exchange_steps_def header_frame_def sequence_header_def later_def)
  moreover have "missing sum_box (later n client_end) k = missing sum_box client_end k" for k
    by (simp add: missing_def history_def later_def)
  ultimately show ?thesis
    by (simp add: joins_def answered_def return_net_def serving_def return_bytes_def return_delays_def prompt_def list_all_iff
        sum_list_replicate feed_def later_def)
qed

section \<open>A packet of the server reaches the owner\<close>

text \<open>A client at rest: connected, with nothing on its way to the owner's queue.\<close>

definition at_rest :: "secretbox \<Rightarrow> EtClient \<Rightarrow> bool" where
  "at_rest sb c \<longleftrightarrow>
     client_inv sb c \<and> pc (backed c) = AtSelect \<and> live (backed c) \<noteq> None \<and> inbox (backed c) = [] \<and>
     \<not> socket_down_pending (backed c) \<and> \<not> consumer_gone (backed c) \<and> sup c = Sup_select \<and>
     taken c = length (events (backed c)) \<and> \<not> owner_gone c"

text \<open>The server's frame number \<open>n\<close> arrives and travels to the owner's queue.\<close>

definition arrival :: "secretbox \<Rightarrow> CryptoHandler \<Rightarrow> nat \<Rightarrow> u8 \<times> bytes \<Rightarrow> client_stimulus list" where
  "arrival sb h n x =
     [Actor (Frame_recv (Some (Ok (sealed_packet sb h n x)))), Actor (Event_sent True), Sup_poll (\<lambda>ep. None), Sup_poll (\<lambda>ep. None)]"

lemma frame_delivered:
  assumes "secretbox_ok sb" and "backed_inv sb s" and "pc s = AtSelect" and "live s \<noteq> None" and "inbox s = []"
    and "\<not> socket_down_pending s" and "\<not> consumer_gone s"
    and "s' = backed_step sb rt (backed_step sb rt s
        (Frame_recv (Some (Ok (sealed_packet sb (reader0 (cfg s)) (length (accepted s)) x))))) (Event_sent True)"
  shows "pc s' = AtSelect" "live s' = live s" "inbox s' = []" "\<not> socket_down_pending s'" "\<not> consumer_gone s'"
    "events s' = events s @ [Ev_Packet (plain x)]" "accepted s' = accepted s @ [plain x]" "cfg s' = cfg s"
    "opened s' = opened s @ [sealed_packet sb (reader0 (cfg s)) (length (accepted s)) x]"
    "events (backed_step sb rt s (Frame_recv (Some (Ok (sealed_packet sb (reader0 (cfg s)) (length (accepted s)) x))))) = events s"
proof -
  let ?h = "reader0 (cfg s)" and ?k = "length (accepted s)"
  let ?f = "sealed_packet sb ?h ?k x"
  have run: "\<not> shutting_down s" "reader_crypto s = advanced ?h ?k"
    using assms(2,3) by (auto simp: running_def backed_inv_def reader_inv_def)
  let ?s1 = "s\<lparr>inbox := [], reader_crypto := advanced ?h (Suc ?k), last_activity := clock s,
      waiting_on_keepalive := waiting_on_keepalive s \<and> fst x \<noteq> KEEP_ALIVE,
      reader_seq := reader_seq s + 1, accepted := accepted s @ [plain x],
      opened := opened s @ [?f], pc := Sending (Ev_Packet (plain x))\<rparr>"
  have "deliver_inbox sb (s\<lparr>inbox := [?f]\<rparr>) = ?s1"
    using deliver_sealed [OF assms(1), of "s\<lparr>inbox := [?f]\<rparr>" ?h ?k x "[]"] run(2) by simp
  then have s1: "backed_step sb rt s (Frame_recv (Some (Ok ?f))) = ?s1"
    using assms(3-6) run(1) by (auto simp: backed_step_def select_step_def environment_step_def after_select_def)
  have s': "s' = ?s1\<lparr>events := events s @ [Ev_Packet (plain x)], pc := AtSelect\<rparr>"
    unfolding assms(8) s1 using assms(7) run(1)
    by (simp add: event_sent_step log_event_def deliver_inbox_def run_loop_def)
  show "pc s' = AtSelect" "live s' = live s" "inbox s' = []" "\<not> socket_down_pending s'" "\<not> consumer_gone s'"
    "events s' = events s @ [Ev_Packet (plain x)]" "accepted s' = accepted s @ [plain x]" "cfg s' = cfg s"
    "opened s' = opened s @ [sealed_packet sb (reader0 (cfg s)) (length (accepted s)) x]"
    "events (backed_step sb rt s (Frame_recv (Some (Ok ?f)))) = events s"
    using assms(6,7) by (simp_all add: s' s1)
qed

lemma at_rest_arrival:
  assumes "secretbox_ok sb" and "at_rest sb c" and "length (client_events c) - received c < client_queue_depth"
    and "c' = client_run sb rt c (arrival sb (reader0 (cfg (backed c))) (length (accepted (backed c))) x)"
  shows "at_rest sb c'" "client_events c' = client_events c @ [Event_Packet (plain x)]" "received c' = received c"
    "cfg (backed c') = cfg (backed c)" "accepted (backed c') = accepted (backed c) @ [plain x]"
    "opened (backed c') = opened (backed c) @ [sealed_packet sb (reader0 (cfg (backed c))) (length (accepted (backed c))) x]"
proof -
  let ?s = "backed c" and ?f = "sealed_packet sb (reader0 (cfg (backed c))) (length (accepted (backed c))) x"
  from assms(2) have rest: "sup c = Sup_select" "taken c = length (events ?s)" "\<not> owner_gone c"
    and inv: "client_inv sb c" by (simp_all add: at_rest_def)
  let ?s1 = "backed_step sb rt ?s (Frame_recv (Some (Ok ?f)))"
  let ?s2 = "backed_step sb rt ?s1 (Event_sent True)"
  have d: "pc ?s2 = AtSelect" "live ?s2 = live ?s" "inbox ?s2 = []" "\<not> socket_down_pending ?s2" "\<not> consumer_gone ?s2"
    "events ?s2 = events ?s @ [Ev_Packet (plain x)]" "accepted ?s2 = accepted ?s @ [plain x]" "cfg ?s2 = cfg ?s"
    "opened ?s2 = opened ?s @ [?f]" "events ?s1 = events ?s"
    using assms(2) frame_delivered [OF assms(1), of ?s ?s2 rt x]
    by (simp_all add: at_rest_def client_inv_def)
  have c': "c' = c\<lparr>backed := ?s2, taken := Suc (taken c), client_events := client_events c @ [Event_Packet (plain x)]\<rparr>"
    using assms(3) rest d(6,10)
    by (simp add: assms(4) arrival_def client_step_def actor_step_def sup_step_def sup_select_def sup_send_def backed_recv_def
        EVENT_QUEUE_DEPTH_def)
  have "client_inv sb c'" unfolding assms(4) by (rule client_run_inv [OF inv])
  with assms(2) show "at_rest sb c'"
    unfolding at_rest_def by (simp add: c' d)
  show "client_events c' = client_events c @ [Event_Packet (plain x)]" "received c' = received c"
    "cfg (backed c') = cfg (backed c)" "accepted (backed c') = accepted (backed c) @ [plain x]"
    "opened (backed c') = opened (backed c) @ [?f]"
    by (simp_all add: c' d)
qed

lemma connected_with_at_rest:
  assumes "connect_with rt net ep i passkey ka now = (Ok c, t)"
  shows "at_rest sb c" "client_events c = []" "received c = 0" "accepted (backed c) = []" "written (backed c) = []" "opened (backed c) = []"
    "reader0 (cfg (backed c)) = CryptoHandler_new (str_bytes passkey) SERVER_CLIENT_NONCE_MSB"
proof -
  note con = assms
  have "client_inv sb c" by (rule connect_with_inv [OF con])
  then show "at_rest sb c"
    using con by (elim connect_with_Ok) (simp add: at_rest_def backed_spawn_def BackedActor_new_def)
  show "client_events c = []" "received c = 0" "accepted (backed c) = []" "written (backed c) = []" "opened (backed c) = []"
    using con by (elim connect_with_Ok; simp add: backed_spawn_def BackedActor_new_def)+
  show "reader0 (cfg (backed c)) = CryptoHandler_new (str_bytes passkey) SERVER_CLIENT_NONCE_MSB"
    by (rule connect_with_reader [OF con])
qed

definition sample_nonce1 :: bytes where
  "sample_nonce1 = nonce_at (CryptoHandler_new (replicate 32 107) SERVER_CLIENT_NONCE_MSB) 1"

lemma first_frame_untouched:
  assumes "h = CryptoHandler_new (replicate 32 107) SERVER_CLIENT_NONCE_MSB"
  shows "untouched (tag_box sample_nonce1) h (x # ps) (sealed_packet (tag_box sample_nonce1) h 0 x)"
  using assms by (auto simp: untouched_def tag_box_def sample_nonce1_def split: if_splits intro!: exI [of _ 0])

section \<open>Properties\<close>

text \<open>C8. What the owner of a client receives is what the server wrote: in every run of the client, its
  supervisor, its owner and the network, across any number of disconnects and reconnects, if no frame
  that was opened is a forgery, the payloads of the packets handed on are a prefix of the payloads the
  server wrote, in order. The header byte travels outside the MAC: the packets, headers included, are a
  prefix of those the server wrote if the network has not changed the headers either.\<close>

theorem client_receives_prefix:
  assumes "connect_with rt net ep i passkey ka now = (Ok c, t)" and "c' = client_run sb rt c es"
    and "h = CryptoHandler_new (str_bytes passkey) SERVER_CLIENT_NONCE_MSB"
    and "length (accepted (backed c')) < 256 ^ 23" and "length ps < 256 ^ 23"
  shows "(list_all (genuine sb h ps) (opened (backed c')) \<longrightarrow>
      prefix (map payload (client_packets (client_events c'))) (map snd ps)) \<and>
    (secretbox_ok sb \<and> list_all (untouched sb h ps) (opened (backed c')) \<longrightarrow>
      prefix (client_packets (client_events c')) (map plain ps))"
proof -
  have "client_inv sb c'" unfolding assms(2) by (rule client_run_inv [OF connect_with_inv [OF assms(1)]])
  moreover have "reader0 (cfg (backed c')) = h"
    unfolding assms(2,3) client_run_cfg by (rule connect_with_reader [OF assms(1)])
  ultimately show ?thesis
    using client_inv_prefix [of sb c' ps] assms(4,5) by simp
qed

theorem client_receives_prefix_witness:
  "\<exists>c c'. connect_with wire (serving NEW_CLIENT [] []) ''h:2022'' ''id'' (replicate 32 CHR ''k'') (Some 5000) 0 = (Ok c, 0) \<and>
    c' = client_run (tag_box sample_nonce1) wire c
      (arrival (tag_box sample_nonce1) (CryptoHandler_new (replicate 32 107) SERVER_CLIENT_NONCE_MSB) 0 (1, [104, 105])) \<and>
    client_events c' = [Event_Packet (Packet_new 1 [104, 105])] \<and>
    prefix (client_packets (client_events c')) (map plain [(1, [104, 105]), (1, [33])])"
proof -
  from connect_with_serving obtain c where
    c: "connect_with wire (serving NEW_CLIENT [] []) ''h:2022'' ''id'' (replicate 32 CHR ''k'') (Some 5000) 0 = (Ok c, 0)"
    by blast
  let ?sb = "tag_box sample_nonce1" and ?h = "CryptoHandler_new (replicate 32 107) SERVER_CLIENT_NONCE_MSB"
  let ?es = "arrival ?sb ?h 0 (1, [104, 105])"
  let ?c = "client_run ?sb wire c ?es"
  have h: "str_bytes (replicate 32 CHR ''k'') = replicate 32 107" by (simp add: str_bytes_def)
  note rest = connected_with_at_rest [OF c, unfolded h]
  have "length (client_events c) - received c < client_queue_depth" by (simp add: rest client_queue_depth_def)
  note run = at_rest_arrival [OF secretbox_ok_tag_box [of sample_nonce1] rest(1) this refl, of wire "(1, [104, 105])", unfolded rest(2,4,6,7) list.size]
  have "list_all (untouched ?sb ?h [(1, [104, 105]), (1, [33])]) (opened (backed ?c))"
    unfolding run(6) using first_frame_untouched [OF refl] by simp
  with client_receives_prefix [OF c refl refl, of ?sb ?es "[(1, [104, 105]), (1, [33])]", unfolded h] run(5)
  have "prefix (client_packets (client_events ?c)) (map plain [(1, [104, 105]), (1, [33])])"
    by (simp add: secretbox_ok_tag_box)
  with c run(2) show ?thesis by (auto simp: plain_def)
qed

text \<open>C24. A session ends once and for good: in every run the owner gets at most one terminal event, as
  the last of its events, and once the supervisor has returned after sending it every write is
  refused; the queue between the connection and the supervisor, and the one to the owner, never
  hold more than their bounds.\<close>

theorem client_ends_once:
  assumes "connect_with rt net ep i passkey ka now = (Ok c, t)" and "c' = client_run sb rt c es"
  shows "(no_end (client_events c') \<or> (\<exists>evs r. client_events c' = evs @ [Event_Dead r] \<and> no_end evs)) \<and>
    (\<not> no_end (client_events c') \<and> EtClient_session_ended c' \<longrightarrow> fst (EtClient_write sb rt h p c') = Err WE_Shutdown) \<and>
    length (events (backed c')) - taken c' \<le> EVENT_QUEUE_DEPTH \<and>
    length (client_events c') - received c' \<le> client_queue_depth"
proof -
  have "client_inv sb c'" unfolding assms(2) by (rule client_run_inv [OF connect_with_inv [OF assms(1)]])
  then have e: "end_inv c'" and q: "queue_inv c'" by (simp_all add: client_inv_def flow_inv_def)
  have "fst (EtClient_write sb rt h p c') = Err WE_Shutdown" if "\<not> running (backed c')"
    using stopped_write [OF that] by (simp add: EtClient_write_def case_prod_unfold)
  with e q show ?thesis
    by (auto simp: end_inv_def queue_inv_def EtClient_session_ended_def)
qed

theorem client_ends_once_witness:
  "\<exists>c. connect_with wire (serving NEW_CLIENT [] []) ''h:2022'' ''id'' (replicate 32 CHR ''k'') (Some 5000) 0 = (Ok c, 0) \<and>
    length (client_events (client_run sum_box wire c [Owner_shutdown, Actor (Event_sent True), Sup_poll (\<lambda>ep. None)])) -
      received (client_run sum_box wire c [Owner_shutdown, Actor (Event_sent True), Sup_poll (\<lambda>ep. None)]) \<le> client_queue_depth"
proof -
  from connect_with_serving obtain c where
    c: "connect_with wire (serving NEW_CLIENT [] []) ''h:2022'' ''id'' (replicate 32 CHR ''k'') (Some 5000) 0 = (Ok c, 0)"
    by blast
  with client_ends_once [OF c refl] show ?thesis by blast
qed

text \<open>C9. The supervisor brings the session back: whatever number of attempts fail (a refused or silent
  server, a malformed answer, any status but \<open>INVALID_KEY\<close>), one attempt that the server answers with
  \<open>RETURNING_CLIENT\<close> and whose recover exchange it joins makes the connection live again, and the owner
  sees nothing of it.\<close>

theorem reconnect_resumes:
  assumes "buffa_ok rt" and "client_inv sb c" and "backed_inv sb b" and "pc (backed c) = AtSelect"
    and "sup c = Sup_attempt start" and "start \<le> clock (backed c)" and "\<not> owner_gone c"
    and "\<forall>net \<in> set nets. \<forall>now. retried (fst (handshake_request rt net (sup_endpoint c) (sup_id c) now))"
    and "n = length nets * (RECONNECT_DELAY + HANDSHAKE_TIMEOUT) + HANDSHAKE_TIMEOUT"
    and "\<forall>now. \<exists>t. handshake_request rt net' (sup_endpoint c) (sup_id c) now = (Ok (Returning (st\<lparr>t_now := t\<rparr>)), t)"
    and "can_resend sb rt (backed c) (length (accepted b))" and "can_resend sb rt b (length (accepted (backed c)))"
    and "joins sb rt RECOVER_STEP_IDLE RECOVER_ABSOLUTE (later n (backed c)) b r st"
  shows "let c' = client_run sb rt c (concat (map failed_attempt nets) @
        [Actor (Elapse HANDSHAKE_TIMEOUT), Sup_poll net', Sup_poll net']) in
    sup c' = Sup_select \<and> live (backed c') = Some \<lparr>write_q = [], write_closed = False, read_half = r\<rparr> \<and>
    recoveries (backed c') = Suc (recoveries (backed c)) \<and> client_events c' = client_events c"
proof -
  let ?m = "length nets * (RECONNECT_DELAY + HANDSHAKE_TIMEOUT)"
  from failed_attempts_run [OF assms(5-8)] obtain start' where
    run: "client_run sb rt c (concat (map failed_attempt nets)) = c\<lparr>backed := later ?m (backed c), sup := Sup_attempt start'\<rparr>"
    and start': "start' \<le> clock (backed c) + ?m"
    by blast
  let ?a = "later n (backed c)"
  from assms(10) obtain t where
    h: "handshake_request rt net' (sup_endpoint c) (sup_id c) start' = (Ok (Returning (st\<lparr>t_now := t\<rparr>)), t)"
    by blast
  have t: "t \<le> clock (backed c) + n"
    using handshake_within_timeout [of start' rt net' "sup_endpoint c" "sup_id c"] start' assms(9) by (simp add: h)
  have inv: "backed_inv sb ?a" "pc ?a = AtSelect"
    using assms(2,4)
    by (simp_all add: later_def client_inv_def backed_inv_def reader_inv_def opened_inv_def delivery_inv_def running_def
        parked_def ledger_inv_def)
  have resend: "can_resend sb rt ?a (length (accepted b))" "can_resend sb rt b (length (accepted ?a))"
    using assms(11,12) by (simp_all add: later_def can_resend_def missing_def history_def)
  have "joins sb rt RECOVER_STEP_IDLE RECOVER_ABSOLUTE ?a b r (st\<lparr>t_now := t\<rparr>)"
    using assms(13) by (simp add: joins_def)
  note rec = recover_joined [OF assms(1) inv(1) assms(3) resend this]
  note handle = recover_handle [OF inv rec(1)]
  have "client_run sb rt c (concat (map failed_attempt nets) @ [Actor (Elapse HANDSHAKE_TIMEOUT), Sup_poll net']) =
      c\<lparr>backed := ?a, sup := Sup_recover (st\<lparr>t_now := t\<rparr>)\<rparr>"
    using run assms(7,9) h t
    by (simp add: client_step_def actor_step_def elapse_step sup_step_def sup_attempt_def add.commute add.left_commute)
  then have "client_run sb rt c (concat (map failed_attempt nets) @ [Actor (Elapse HANDSHAKE_TIMEOUT), Sup_poll net', Sup_poll net']) =
      sup_recover sb rt (st\<lparr>t_now := t\<rparr>) (c\<lparr>backed := ?a, sup := Sup_recover (st\<lparr>t_now := t\<rparr>)\<rparr>)"
    by (simp add: client_step_def sup_step_def)
  with handle rec(3) inv(2) show ?thesis
    by (simp add: sup_recover_def case_prod_unfold Let_def) (simp add: later_def)
qed

theorem reconnect_resumes_witness:
  "let c' = client_run sum_box wire offline_client (failed_attempt silent_net @
      [Actor (Elapse HANDSHAKE_TIMEOUT), Sup_poll return_net, Sup_poll return_net]) in
    sup c' = Sup_select \<and> live (backed c') \<noteq> None \<and> client_events c' = []"
proof -
  let ?st = "answered wire ''id'' 0 return_delays \<lparr>rd_data = return_bytes, rd_end = UnexpectedEof\<rparr>
    (case return_net ''h:2022'' of Some (d, Inr st) \<Rightarrow> st | _ \<Rightarrow> undefined)"
  let ?n = "length [silent_net] * (RECONNECT_DELAY + HANDSHAKE_TIMEOUT) + HANDSHAKE_TIMEOUT"
  have c: "backed offline_client = client_end" "sup offline_client = Sup_attempt 0" "\<not> owner_gone offline_client"
    "sup_endpoint offline_client = ''h:2022''" "sup_id offline_client = ''id''" "client_events offline_client = []"
    by (simp_all add: offline_client_def)
  have "\<forall>net \<in> set [silent_net]. \<forall>now. retried (fst (handshake_request wire net (sup_endpoint offline_client) (sup_id offline_client) now))"
    by (simp add: silent_net_def handshake_request_def retried_def Let_def)
  moreover have "\<forall>now. \<exists>t. handshake_request wire return_net (sup_endpoint offline_client) (sup_id offline_client) now =
      (Ok (Returning (?st\<lparr>t_now := t\<rparr>)), t)"
    by (simp add: return_net_def serving_request handshake_result_answer [OF buffa_ok_wire status_response_ok(1)] c)
      (simp add: status_response_def answered_def)
  moreover have "joins sum_box wire RECOVER_STEP_IDLE RECOVER_ABSOLUTE (later ?n client_end) server_end
      \<lparr>rd_data = [], rd_end = UnexpectedEof\<rparr> ?st"
    by (rule return_joins)
  ultimately show ?thesis
    using reconnect_resumes [OF buffa_ok_wire offline_client_inv server_end_inv, where nets = "[silent_net]" and start = 0
        and net' = return_net and st = ?st and r = "\<lparr>rd_data = [], rd_end = UnexpectedEof\<rparr>", OF _ _ _ _ _ refl] ends_can_resend
    by (simp add: c client_end_simps server_end_simps Let_def del: client_run_simps)
qed

text \<open>C28. The handshake on every answer of the server: within the time limit, and after sending the
  request with the client's id and the protocol version, the outcome is the one the status asks for.\<close>

theorem handshake_outcome:
  assumes "buffa_ok rt" and "wf_ConnectResponse rt resp"
    and "proto_frame_ok MAX_HANDSHAKE_PROTO_LENGTH (write_to_ConnectResponse rt resp)"
    and "net ep = Some (d, Ok st)" and "answering rt resp d1 d2 ds rest st" and "d + d1 + d2 \<le> HANDSHAKE_TIMEOUT"
  shows "let t = now + d + d1 + d2; st' = answered rt i t ds rest st in
    handshake_request rt net ep i now =
      ((case ConnectResponse_status resp of
          Some NEW_CLIENT \<Rightarrow> Ok (NewClient st')
        | Some RETURNING_CLIENT \<Rightarrow> Ok (Returning st')
        | Some status \<Rightarrow> Err (CF_Rejected status (case ConnectResponse_error resp of None \<Rightarrow> [] | Some e \<Rightarrow> e))
        | None \<Rightarrow> Err (CF_Protocol (Missing_status resp))), t)"
  by (simp add: handshake_answered [where net = net and ep = ep, OF assms] handshake_result_answer [OF assms(1,2)])

theorem handshake_outcome_witness:
  "fst (handshake_request wire (serving INVALID_KEY [] []) ''h:2022'' ''id'' 0) = Err (CF_Rejected INVALID_KEY [])"
  using handshake_outcome [OF buffa_ok_wire status_response_ok(1) status_response_ok(2) _ serving_answers [of INVALID_KEY "[]" "[]" "''h:2022''"],
      of "serving INVALID_KEY [] []" "''h:2022''" 0 0 "''id''"]
  by (simp add: serving_def status_response_def ConnectResponse_default_def Let_def)

end
