(* ===== verification/Writes.thy ===== *)
theory Writes
  imports Client_Spec
begin

text \<open>
  What a connection has written only grows, in every run of the connection and of the client, and a
  write that is accepted is the next thing written.
\<close>

section \<open>What a connection has written\<close>

lemma replies_frame:
  "replies (after_select sb s) = replies s" "replies (send_event_done sb ev ok s) = replies s"
  "replies (environment_step e s) = replies s"
proof -
  have r: "replies (run_end s) = replies s" "replies (run_loop s) = replies s" for s
    by (simp_all add: run_loop_def run_end_def Let_def)
  moreover have "replies (deliver_inbox sb s) = replies s" for s
    by (simp add: deliver_inbox_def r die_crypto_mismatch_def Let_def split: list.split option.split sum.split)
  ultimately show "replies (after_select sb s) = replies s" "replies (send_event_done sb ev ok s) = replies s"
    by (simp_all add: after_select_def send_event_done_def split: BackedEvent.split)
  show "replies (environment_step e s) = replies s"
    by (simp add: environment_step_def split: stimulus.split)
qed

lemma written_frame:
  "written (run_end s) = written s" "written (run_loop s) = written s" "written (deliver_inbox sb s) = written s"
  "written (after_select sb s) = written s" "written (send_event_done sb ev ok s) = written s"
  "written (environment_step e s) = written s"
proof -
  have r: "written (run_end s) = written s" "written (run_loop s) = written s" for s
    by (simp_all add: run_loop_def run_end_def Let_def)
  moreover have d: "written (deliver_inbox sb s) = written s" for s
    by (simp add: deliver_inbox_def r die_crypto_mismatch_def Let_def split: list.split option.split sum.split)
  ultimately show "written (run_end s) = written s" "written (run_loop s) = written s" "written (deliver_inbox sb s) = written s"
    "written (after_select sb s) = written s" "written (send_event_done sb ev ok s) = written s"
    by (simp_all add: after_select_def send_event_done_def split: BackedEvent.split)
  show "written (environment_step e s) = written s"
    by (simp add: environment_step_def split: stimulus.split)
qed

lemma backed_write_written: "\<exists>out. written (snd (backed_write sb h p s)) = written s @ out"
  by (auto simp: backed_write_def Let_def case_prod_unfold ledger_add_def backed_frame split: option.split sum.split)

lemma handle_cmd_written: "\<exists>out. written (handle_cmd sb rt c s) = written s @ out"
  using backed_write_written
  by (auto simp: handle_cmd_def case_prod_unfold backed_frame split: option.split Cmd.split)

lemma keepalive_written: "\<exists>out. written (keepalive_tick sb s) = written s @ out"
  using backed_write_written [of sb KEEP_ALIVE "[]" "s\<lparr>waiting_on_keepalive := True, last_activity := clock s\<rparr>"]
  by (auto simp: keepalive_tick_def backed_frame split: option.split)

lemma backed_step_written: "\<exists>out. written (backed_step sb rt s e) = written s @ out"
  using handle_cmd_written keepalive_written
  by (auto simp: backed_step_def written_frame select_step_def sending_step_def dying_step_def log_event_def backed_frame Let_def
      split: pc.split stimulus.split option.split sum.split)

interpretation writes: logging_machine "backed_step sb rt" "\<lambda>_. True" written for sb rt
  by unfold_locales (auto intro: backed_step_written)

lemma client_run_written: "\<exists>out. written (backed (client_run sb rt c es)) = written (backed c) @ out"
proof -
  obtain es' where "backed (client_run sb rt c es) = backed_run sb rt (backed c) es'"
    using backed_client_run [of sb rt c es] by blast
  with writes.log_run [where sb = sb and rt = rt and s = "backed c" and es = es'] show ?thesis by (simp add: backed_run_def)
qed

text \<open>A task that serves the write writes it and answers; one that has ended does neither.\<close>

lemma write_served:
  assumes "s' = backed_step sb rt s (Cmd_recv (Some (Cmd_Write h p)))"
  shows "replies s' = replies s @ [Write_reply (fst (backed_write sb h p s))] \<and> written s' = written (snd (backed_write sb h p s)) \<or>
    replies s' = replies s"
  by (cases "pc s")
    (simp_all add: assms backed_step_def select_step_def sending_step_def dying_step_def handle_cmd_split written_frame replies_frame
      backed_frame Let_def)

lemma backed_write_Ok: "fst (backed_write sb h p s) = Ok () \<Longrightarrow> written (snd (backed_write sb h p s)) = written s @ [(h, p)]"
  by (auto simp: backed_write_def Let_def case_prod_unfold ledger_add_def backed_frame split: option.splits sum.splits if_splits)

lemma EtClient_write_Ok:
  assumes "fst (EtClient_write sb rt h p c) = Ok ()"
  shows "written (backed (snd (EtClient_write sb rt h p c))) = written (backed c) @ [(h, p)]"
proof -
  let ?s' = "backed_step sb rt (backed c) (Cmd_recv (Some (Cmd_Write h p)))"
  have "length (replies ?s') = Suc (length (replies (backed c)))" "last (replies ?s') = Write_reply (Ok ())"
    using assms by (auto simp: EtClient_write_def BackedHandle_write_def Let_def case_prod_unfold split: if_splits reply.splits)
  with write_served [OF refl, of sb rt "backed c" h p] have "written ?s' = written (backed c) @ [(h, p)]"
    by (auto simp: backed_write_Ok)
  then show ?thesis by (simp add: EtClient_write_def case_prod_unfold client_frame)
qed

end
