(* ===== verification/Reconnect.thy ===== *)
theory Reconnect
  imports Writes
begin

text \<open>
  When the supervisor reconnects. The notice of a lost socket passes from the backed connection
  (\<^verbatim>\<open>socket_down_pending\<close>, then \<^verbatim>\<open>send_event\<close>) through the event queue to the supervisor, and while it is on its
  way, and while the supervisor reconnects, the connection has no socket and receives nothing.
  So a recovery never meets frames that wait in the inbox, where it would make the peer send them a
  second time.
\<close>

section \<open>Steps of the connection\<close>

lemma deliver_inbox_running:
  assumes "running (deliver_inbox sb s)"
  shows "live (deliver_inbox sb s) = live s" "socket_down_pending (deliver_inbox sb s) = socket_down_pending s"
    and "(case inbox s of [] \<Rightarrow> pc (deliver_inbox sb s) = AtSelect \<and> inbox (deliver_inbox sb s) = []
      | f # fs \<Rightarrow> \<exists>p. pc (deliver_inbox sb s) = Sending (Ev_Packet p))"
  using assms
  by (auto simp: deliver_inbox_def run_loop_def run_end_def die_crypto_mismatch_def running_def Let_def
      split: list.splits option.splits if_splits sum.splits prod.splits)

lemma after_select_running:
  assumes "running (after_select sb s)"
  shows "live (after_select sb s) = live s" "\<not> socket_down_pending (after_select sb s)"
    and "socket_down_pending s \<Longrightarrow> pc (after_select sb s) = Sending Ev_SocketDown \<and> inbox (after_select sb s) = inbox s"
    and "\<not> socket_down_pending s \<Longrightarrow>
      (case inbox s of [] \<Rightarrow> pc (after_select sb s) = AtSelect \<and> inbox (after_select sb s) = []
        | f # fs \<Rightarrow> \<exists>p. pc (after_select sb s) = Sending (Ev_Packet p))"
  using assms deliver_inbox_running [of sb s]
  by (cases "inbox s"; auto simp: after_select_def run_end_def running_def Let_def split: if_splits)+

lemma close_down:
  "socket_down_pending (close_current_socket s) \<longleftrightarrow> socket_down_pending s \<or> live s \<noteq> None"
  by (simp add: close_current_socket_def Let_def split: option.split)

text \<open>What a write, and the keepalive tick, can do to the socket: keep it, or close it.\<close>

definition kept_or_closed :: "BackedActor \<Rightarrow> BackedActor \<Rightarrow> bool" where
  "kept_or_closed s s' \<longleftrightarrow> inbox s' = inbox s \<and>
     ((live s' = None \<longleftrightarrow> live s = None) \<and> socket_down_pending s' = socket_down_pending s \<or>
      live s \<noteq> None \<and> live s' = None \<and> socket_down_pending s')"

lemma kept_or_closed_refl [simp]: "kept_or_closed s s"
  by (simp add: kept_or_closed_def)

lemma kept_or_closed_close [simp]: "kept_or_closed s (close_current_socket s)"
  by (auto simp: kept_or_closed_def backed_frame close_down)

lemma kept_or_closed_write: "kept_or_closed s (snd (backed_write sb h p s))"
proof -
  obtain c h' where "Packet_encrypt sb (Packet_new h p) (writer_crypto s) =
      Ok (\<lparr>encrypted = True, header = h, payload = c\<rparr>, h')"
    using Packet_encrypt_new_Inr by blast
  then show ?thesis
    by (auto simp: kept_or_closed_def backed_write_def ledger_add_def close_down backed_frame Let_def
        split: option.split prod.split)
qed

lemma kept_or_closed_tick: "kept_or_closed s (keepalive_tick sb s)"
proof -
  have "kept_or_closed s (snd (backed_write sb KEEP_ALIVE [] (s\<lparr>waiting_on_keepalive := True, last_activity := clock s\<rparr>)))"
    using kept_or_closed_write [of "s\<lparr>waiting_on_keepalive := True, last_activity := clock s\<rparr>" sb KEEP_ALIVE "[]"]
    by (simp add: kept_or_closed_def)
  then show ?thesis
    by (simp add: keepalive_tick_def split: option.split)
qed

lemma kept_or_closed_cmd:
  assumes "\<And>st i a. c \<noteq> Some (Cmd_Recover st i a)"
  shows "kept_or_closed s (handle_cmd sb rt c s)"
proof (cases c)
  case (Some cmd)
  with assms kept_or_closed_write [of s sb] show ?thesis
    by (cases cmd) (auto simp: handle_cmd_def kept_or_closed_def case_prod_unfold close_down backed_frame)
qed (simp add: handle_cmd_def kept_or_closed_def)

section \<open>Where the notice is\<close>

text \<open>The supervisor has been told that the socket is down, and is at work on a new one.\<close>

definition reconnecting :: "EtClient \<Rightarrow> bool" where
  "reconnecting c \<longleftrightarrow> (case sup c of Sup_attempt t \<Rightarrow> True | Sup_recover st \<Rightarrow> True | Sup_sleep t \<Rightarrow> True | _ \<Rightarrow> False)"

text \<open>
  A connection that owes no notice, one that owes it, one that is handing it over, and one that has
  handed it over and rests.
\<close>

definition owes_none :: "BackedActor \<Rightarrow> bool" where
  "owes_none s \<longleftrightarrow> \<not> socket_down_pending s \<and> pc s \<noteq> Sending Ev_SocketDown"

definition owes_notice :: "BackedActor \<Rightarrow> bool" where
  "owes_notice s \<longleftrightarrow> socket_down_pending s \<and> pc s \<noteq> Sending Ev_SocketDown \<and> live s = None"

definition giving_notice :: "BackedActor \<Rightarrow> bool" where
  "giving_notice s \<longleftrightarrow> \<not> socket_down_pending s \<and> pc s = Sending Ev_SocketDown \<and> live s = None \<and> inbox s = []"

definition resting :: "BackedActor \<Rightarrow> bool" where
  "resting s \<longleftrightarrow> \<not> socket_down_pending s \<and> pc s = AtSelect \<and> live s = None \<and> inbox s = []"

definition unread :: "EtClient \<Rightarrow> BackedEvent list" where
  "unread c = drop (taken c) (events (backed c))"

section \<open>The invariant\<close>

definition notice :: "BackedActor \<Rightarrow> bool" where
  "notice s \<longleftrightarrow> owes_none s \<or> owes_notice s \<or> giving_notice s"

definition delivered_first :: "BackedActor \<Rightarrow> bool" where
  "delivered_first s \<longleftrightarrow> (pc s = AtSelect \<longrightarrow> inbox s = [])"

lemmas notice_defs = notice_def owes_none_def owes_notice_def giving_notice_def resting_def delivered_first_def

lemma notice_environment [simp]:
  "running (environment_step e s) = running s" "notice (environment_step e s) = notice s"
  "resting (environment_step e s) = resting s" "delivered_first (environment_step e s) = delivered_first s"
  by (simp_all add: environment_step_def running_def notice_defs split: stimulus.split)

text \<open>What the \<^verbatim>\<open>select!\<close> makes of a connection with nothing in its inbox, or with one frame.\<close>

lemma after_select_notice:
  assumes "running (after_select sb s)" and "socket_down_pending s \<Longrightarrow> live s = None \<and> inbox s = []"
  shows "notice (after_select sb s)" "delivered_first (after_select sb s)"
    and "\<not> socket_down_pending s \<Longrightarrow> inbox s = [] \<Longrightarrow> live s = None \<Longrightarrow> resting (after_select sb s)"
  using after_select_running [OF assms(1)] assms(2)
  by (cases "socket_down_pending s"; cases "inbox s"; auto simp: notice_defs)+

lemma select_notice:
  assumes "running (select_step sb rt e s)" and "pc s = AtSelect" and "notice s" and "delivered_first s"
    and "\<And>st i a. e \<noteq> Cmd_recv (Some (Cmd_Recover st i a))"
  shows "notice (select_step sb rt e s)" "delivered_first (select_step sb rt e s)"
    and "resting s \<Longrightarrow> resting (select_step sb rt e s)"
proof -
  have inbox: "inbox s = []" and pend: "socket_down_pending s \<Longrightarrow> live s = None"
    using assms(2-4) by (auto simp: notice_defs)
  have close: "notice (after_select sb s')" "delivered_first (after_select sb s')" "resting s \<Longrightarrow> resting (after_select sb s')"
    if "kept_or_closed s s'" "running (after_select sb s')" for s'
    using after_select_notice [OF that(2)] that(1) inbox pend by (auto simp: kept_or_closed_def resting_def)
  have frame: "notice (after_select sb (s\<lparr>inbox := [f]\<rparr>))" "delivered_first (after_select sb (s\<lparr>inbox := [f]\<rparr>))"
    if "running (after_select sb (s\<lparr>inbox := [f]\<rparr>))" "live s \<noteq> None" for f
  proof -
    from that(2) pend have "\<not> socket_down_pending s" by auto
    then show "notice (after_select sb (s\<lparr>inbox := [f]\<rparr>))" "delivered_first (after_select sb (s\<lparr>inbox := [f]\<rparr>))"
      using after_select_notice(1,2) [OF that(1)] by simp_all
  qed
  have cmd: "kept_or_closed s (handle_cmd sb rt c s)" if "e = Cmd_recv c" for c
    using assms(5) that by (intro kept_or_closed_cmd) auto
  have "notice (select_step sb rt e s) \<and> delivered_first (select_step sb rt e s) \<and> (resting s \<longrightarrow> resting (select_step sb rt e s))"
  proof (cases e)
    case (Cmd_recv c)
    with close [OF cmd [OF Cmd_recv]] assms(1) show ?thesis by (simp add: select_step_def)
  next
    case (Frame_recv f)
    show ?thesis
    proof (cases "live s = None \<or> (\<exists>bs. f = Some (Inr bs))")
      case True
      with Frame_recv assms(1,3,4) inbox frame show ?thesis
        by (auto simp: select_step_def resting_def split: if_splits)
    next
      case False
      then have "select_step sb rt e s = after_select sb (close_current_socket s)"
        using Frame_recv by (auto simp: select_step_def split: option.split sum.split)
      with close [OF kept_or_closed_close] assms(1) show ?thesis by simp
    qed
  next
    case Tick
    with close [OF kept_or_closed_tick] assms(1) show ?thesis by (simp add: select_step_def)
  qed (use assms(3,4) in \<open>simp_all add: select_step_def\<close>)
  then show "notice (select_step sb rt e s)" "delivered_first (select_step sb rt e s)"
    "resting s \<Longrightarrow> resting (select_step sb rt e s)" by simp_all
qed


text \<open>While an event is being sent, the inbox does not grow, and a command can close the socket.\<close>

lemma sending_notice:
  assumes "running (sending_step sb rt ev e s)" and "pc s = Sending ev" and "notice s" and "\<not> shutting_down s"
    and "\<And>st i a. e \<noteq> Cmd_recv (Some (Cmd_Recover st i a))" and "e \<noteq> Event_sent False" and "\<not> consumer_gone s"
  shows "delivered_first (sending_step sb rt ev e s)"
    and "events (sending_step sb rt ev e s) = events s \<and> notice (sending_step sb rt ev e s) \<or>
      events (sending_step sb rt ev e s) = events s @ [ev] \<and>
        (if ev = Ev_SocketDown then resting (sending_step sb rt ev e s) else notice (sending_step sb rt ev e s))"
proof -
  have cmd: "kept_or_closed s (handle_cmd sb rt c s)" "pc (handle_cmd sb rt c s) = Sending ev"
      "events (handle_cmd sb rt c s) = events s" if "e = Cmd_recv c" for c
    using assms(2,5) that by (auto intro!: kept_or_closed_cmd simp: backed_frame)
  have stop: "\<not> running (send_event_done sb ev False s')" if "shutting_down s'" for s'
    using that by (auto simp: send_event_done_def run_loop_def run_end_def running_def Let_def split: BackedEvent.split)
  have sent: "send_event_done sb ev' True s' = deliver_inbox sb s'" for ev' s'
    by (simp add: send_event_done_def split: BackedEvent.split)
  let ?d = "deliver_inbox sb (log_event ev s)"
  show "delivered_first (sending_step sb rt ev e s)"
    using assms(1,2,6,7) cmd(2) stop deliver_inbox_running [of sb "log_event ev s"]
    by (cases e; cases "inbox s") (auto simp: sending_step_def sent delivered_first_def log_event_def Let_def split: if_splits)
  have kept: "notice (handle_cmd sb rt c s)" if "e = Cmd_recv c" for c
    using cmd [OF that] assms(2,3) by (auto simp: notice_defs kept_or_closed_def)
  have del: "if ev = Ev_SocketDown then resting ?d else notice ?d" if "running ?d"
    using deliver_inbox_running [OF that] assms(2,3)
    by (cases "inbox s") (auto simp: notice_defs log_event_def)
  show "events (sending_step sb rt ev e s) = events s \<and> notice (sending_step sb rt ev e s) \<or>
      events (sending_step sb rt ev e s) = events s @ [ev] \<and>
        (if ev = Ev_SocketDown then resting (sending_step sb rt ev e s) else notice (sending_step sb rt ev e s))"
    using assms(1,3,6,7) cmd(3) kept stop del
    by (cases e) (auto simp: sending_step_def sent log_event_def backed_frame Let_def split: if_splits)
qed


text \<open>One step of the connection, other than a recovery, and a recovery.\<close>

lemma notice_step:
  assumes "running (backed_step sb rt s e)" and "notice s" and "delivered_first s" and "backed_inv sb s"
    and "\<And>st i a. e \<noteq> Cmd_recv (Some (Cmd_Recover st i a))" and "e \<noteq> Event_sent False" and "\<not> consumer_gone s"
  shows "delivered_first (backed_step sb rt s e)" and "resting s \<Longrightarrow> resting (backed_step sb rt s e) \<and> events (backed_step sb rt s e) = events s"
    and "events (backed_step sb rt s e) = events s \<and> notice (backed_step sb rt s e) \<or>
      (\<exists>ev. events (backed_step sb rt s e) = events s @ [ev] \<and>
        (if ev = Ev_SocketDown then resting (backed_step sb rt s e) else notice (backed_step sb rt s e)))"
proof -
  have "delivered_first (backed_step sb rt s e) \<and>
    (resting s \<longrightarrow> resting (backed_step sb rt s e) \<and> events (backed_step sb rt s e) = events s) \<and>
    (events (backed_step sb rt s e) = events s \<and> notice (backed_step sb rt s e) \<or>
      (\<exists>ev. events (backed_step sb rt s e) = events s @ [ev] \<and>
        (if ev = Ev_SocketDown then resting (backed_step sb rt s e) else notice (backed_step sb rt s e))))"
  proof (cases "pc s")
    case AtSelect
    then have ev: "events (backed_step sb rt s e) = events s"
      by (cases e) (auto simp: backed_step_def select_step_def backed_frame split: option.split sum.split)
    from AtSelect assms(1) have "running (select_step sb rt e s)" by (simp add: backed_step_def)
    from select_notice [OF this AtSelect assms(2,3,5)] ev AtSelect show ?thesis
      by (simp add: backed_step_def)
  next
    case (Sending ev)
    then have "running s" by (simp add: running_def)
    then have "\<not> shutting_down s" using assms(4) by (simp add: backed_inv_def)
    moreover from Sending assms(1) have "running (sending_step sb rt ev e s)" by (simp add: backed_step_def)
    ultimately have n: "delivered_first (sending_step sb rt ev e s)"
      "events (sending_step sb rt ev e s) = events s \<and> notice (sending_step sb rt ev e s) \<or>
        events (sending_step sb rt ev e s) = events s @ [ev] \<and>
          (if ev = Ev_SocketDown then resting (sending_step sb rt ev e s) else notice (sending_step sb rt ev e s))"
      using sending_notice [of sb rt ev e s] Sending assms(2,5-7) by simp_all
    have eq: "backed_step sb rt s e = environment_step e (sending_step sb rt ev e s)" and nr: "\<not> resting s"
      using Sending by (simp_all add: backed_step_def resting_def)
    from n(2) show ?thesis
    proof (elim disjE conjE)
      assume "events (sending_step sb rt ev e s) = events s @ [ev]"
        and "if ev = Ev_SocketDown then resting (sending_step sb rt ev e s) else notice (sending_step sb rt ev e s)"
      with n(1) nr show ?thesis
        by (intro conjI disjI2 exI [of _ ev]) (simp_all add: eq backed_frame split: if_splits)
    qed (use n(1) nr in \<open>simp add: eq backed_frame\<close>)
  qed (use assms(1) stopped_step [of s sb rt e] in \<open>auto simp: running_def\<close>)
  then show "delivered_first (backed_step sb rt s e)"
    and "resting s \<Longrightarrow> resting (backed_step sb rt s e) \<and> events (backed_step sb rt s e) = events s"
    and "events (backed_step sb rt s e) = events s \<and> notice (backed_step sb rt s e) \<or>
      (\<exists>ev. events (backed_step sb rt s e) = events s @ [ev] \<and>
        (if ev = Ev_SocketDown then resting (backed_step sb rt s e) else notice (backed_step sb rt s e)))"
    by blast+
qed

lemma recover_notice:
  assumes "resting s" and "s' = backed_step sb rt s (Cmd_recv (Some (Cmd_Recover st i a)))" and "running s'"
  shows "delivered_first s'" "events s' = events s"
    and "if fst (recover_timed_actor rt st i a s) then notice s' else resting s'"
proof -
  let ?r = "recover_timed_actor rt st i a s"
  let ?s = "(snd ?r)\<lparr>replies := replies s @ [Recover_reply (fst ?r)]\<rparr>"
  have s': "s' = after_select sb ?s"
    using assms(1,2) by (simp add: backed_step_def select_step_def environment_step_def handle_cmd_def resting_def backed_frame case_prod_unfold)
  have down: "\<not> socket_down_pending ?s" "\<not> fst ?r \<Longrightarrow> live ?s = None \<and> inbox ?s = []"
    using assms(1) by (auto simp: resting_def recover_timed_actor_def Let_def split: prod.splits sum.splits)
  have "running (after_select sb ?s)" using assms(3) by (simp add: s')
  from after_select_notice [OF this] down show "delivered_first s'" "if fst ?r then notice s' else resting s'"
    by (auto simp: s')
  show "events s' = events s" by (simp add: s' backed_frame)
qed


text \<open>
  As long as the supervisor runs, the notice of a lost socket is in one place: with the connection,
  last in the queue, or with the supervisor.
\<close>

definition notice_inv :: "EtClient \<Rightarrow> bool" where
  "notice_inv c \<longleftrightarrow> sup c = Sup_done \<or> \<not> consumer_gone (backed c) \<and> taken c \<le> length (events (backed c)) \<and>
     (running (backed c) \<longrightarrow> delivered_first (backed c) \<and>
        (if reconnecting c then resting (backed c) \<and> unread c = []
         else if Ev_SocketDown \<in> set (unread c)
         then resting (backed c) \<and> last (unread c) = Ev_SocketDown \<and> Ev_SocketDown \<notin> set (butlast (unread c))
         else notice (backed c)))"

lemma resting_notice: "resting s \<Longrightarrow> notice s"
  by (simp add: notice_defs)

lemma consumer_step: "e \<noteq> Event_sent False \<Longrightarrow> consumer_gone (backed_step sb rt s e) \<Longrightarrow> consumer_gone s"
proof -
  have "consumer_gone (deliver_inbox sb s) = consumer_gone s" for s
    by (simp add: deliver_inbox_def run_loop_def run_end_def die_crypto_mismatch_def Let_def
        split: list.split option.split sum.split prod.split)
  then have del: "consumer_gone (after_select sb s) = consumer_gone s" "consumer_gone (send_event_done sb ev ok s) = consumer_gone s" for s ev ok
    by (simp_all add: after_select_def send_event_done_def run_loop_def run_end_def Let_def split: BackedEvent.split)
  show "e \<noteq> Event_sent False \<Longrightarrow> consumer_gone (backed_step sb rt s e) \<Longrightarrow> consumer_gone s"
    by (cases "pc s"; cases e)
      (auto simp: backed_step_def environment_step_def select_step_def sending_step_def dying_step_def log_event_def del backed_frame Let_def
        split: if_splits option.splits sum.splits)
qed

text \<open>A step of the connection that the supervisor has no part in.\<close>

lemma notice_inv_backed:
  assumes "notice_inv c" and "backed_inv sb (backed c)"
    and "\<And>st i a. e \<noteq> Cmd_recv (Some (Cmd_Recover st i a))" and "e = Event_sent False \<Longrightarrow> sup c = Sup_done"
  shows "notice_inv (c\<lparr>backed := backed_step sb rt (backed c) e\<rparr>)"
proof (cases "sup c = Sup_done")
  case False
  let ?b = "backed c" and ?b' = "backed_step sb rt (backed c) e"
  have e: "e \<noteq> Event_sent False" and gone: "\<not> consumer_gone ?b" using False assms(1,4) by (auto simp: notice_inv_def)
  obtain out where out: "events ?b' = events ?b @ out" using events_grow by blast
  have t: "taken c \<le> length (events ?b)" using False assms(1) by (simp add: notice_inv_def)
  have "delivered_first ?b' \<and>
      (if reconnecting c then resting ?b' \<and> unread (c\<lparr>backed := ?b'\<rparr>) = []
       else if Ev_SocketDown \<in> set (unread (c\<lparr>backed := ?b'\<rparr>))
       then resting ?b' \<and> last (unread (c\<lparr>backed := ?b'\<rparr>)) = Ev_SocketDown \<and> Ev_SocketDown \<notin> set (butlast (unread (c\<lparr>backed := ?b'\<rparr>)))
       else notice ?b')" if r: "running ?b'"
  proof -
    have "running ?b" using r stopped_step by blast
    with False assms(1) have inv: "delivered_first ?b" "notice ?b"
      "reconnecting c \<Longrightarrow> resting ?b \<and> unread c = []"
      "\<not> reconnecting c \<Longrightarrow> Ev_SocketDown \<in> set (unread c) \<Longrightarrow>
        resting ?b \<and> last (unread c) = Ev_SocketDown \<and> Ev_SocketDown \<notin> set (butlast (unread c))"
      by (auto simp: notice_inv_def intro: resting_notice split: if_splits)
    note st = notice_step [OF r inv(2,1) assms(2,3) e gone]
    show ?thesis
    proof (cases "resting ?b")
      case True
      with st(1,2) inv t show ?thesis by (auto simp: unread_def intro: resting_notice)
    next
      case nr: False
      with inv(3,4) have no: "\<not> reconnecting c" "Ev_SocketDown \<notin> set (unread c)" by auto
      from st(3) show ?thesis
      proof (elim disjE conjE exE)
        fix ev
        assume "events ?b' = events ?b @ [ev]" and "if ev = Ev_SocketDown then resting ?b' else notice ?b'"
        with st(1) no t show ?thesis by (cases "ev = Ev_SocketDown") (auto simp: unread_def butlast_append)
      qed (use st(1) no in \<open>simp add: unread_def\<close>)
    qed
  qed
  moreover have "reconnecting (c\<lparr>backed := ?b'\<rparr>) = reconnecting c" by (simp add: reconnecting_def)
  ultimately show ?thesis
    using False t out gone consumer_step [OF e] by (auto simp: notice_inv_def)
qed (simp add: notice_inv_def)


text \<open>The supervisor's steps.\<close>

lemma notice_inv_select:
  assumes "notice_inv c" and "sup c = Sup_select"
  shows "notice_inv (sup_select c)"
proof (cases "\<not> owner_gone c \<and> taken c < length (events (backed c))")
  case True
  then obtain rest where u: "unread c = events (backed c) ! taken c # rest" and rest: "drop (Suc (taken c)) (events (backed c)) = rest"
    by (simp add: unread_def Cons_nth_drop_Suc [symmetric])
  let ?ev = "events (backed c) ! taken c"
  have c': "sup_select c = c\<lparr>taken := Suc (taken c), sup := (case ?ev of Ev_Packet p \<Rightarrow> Sup_packet p
      | Ev_SocketDown \<Rightarrow> Sup_attempt (clock (backed c)) | Ev_Dead r \<Rightarrow> Sup_dead (Other r) False)\<rparr>"
    using True by (simp add: sup_select_def backed_recv_def)
  show ?thesis
    using True assms u rest
    by (cases ?ev; cases "rest = []")
      (auto simp: c' notice_inv_def reconnecting_def unread_def intro: resting_notice split: if_splits)
qed (use assms in \<open>auto simp: sup_select_def backed_recv_def notice_inv_def reconnecting_def unread_def split: if_splits\<close>)

lemma notice_inv_move:
  assumes "notice_inv c" and "backed c' = backed c" and "taken c' = taken c"
    and "sup c = Sup_done \<Longrightarrow> sup c' = Sup_done" and "reconnecting c' \<Longrightarrow> reconnecting c"
  shows "notice_inv c'"
  using assms by (auto simp: notice_inv_def unread_def intro: resting_notice split: if_splits)

lemma recover_reply:
  assumes "pc s = AtSelect"
  shows "fst (BackedHandle_recover sb rt st s) = fst (recover_timed_actor rt st RECOVER_STEP_IDLE RECOVER_ABSOLUTE s)"
proof -
  show ?thesis
    using assms by (simp add: BackedHandle_recover_def BackedHandle_recover_timed_def backed_step_def select_step_def environment_step_def
        handle_cmd_def replies_frame backed_frame case_prod_unfold Let_def)
qed

lemma notice_inv_recover:
  assumes "notice_inv c" and "sup c = Sup_recover st"
  shows "notice_inv (sup_recover sb rt st c)"
proof -
  let ?b = "backed c" and ?r = "BackedHandle_recover sb rt st (backed c)"
  let ?c = "c\<lparr>backed := snd ?r, sup := (if fst ?r then Sup_select else Sup_sleep (clock (snd ?r) + RECONNECT_DELAY))\<rparr>"
  have inv: "\<not> consumer_gone ?b" "taken c \<le> length (events ?b)" "running ?b \<Longrightarrow> resting ?b \<and> unread c = []"
    using assms by (auto simp: notice_inv_def reconnecting_def)
  have ev: "events (snd ?r) = events ?b" and gone: "\<not> consumer_gone (snd ?r)"
    using events_step [of sb rt ?b] consumer_step [of _ sb rt ?b] inv(1) unfolding client_frame by blast+
  have "delivered_first (snd ?r) \<and> (if fst ?r then notice (snd ?r) else resting (snd ?r)) \<and> unread c = []" if "running (snd ?r)"
  proof -
    have "running ?b" using that stopped_step unfolding client_frame by blast
    with inv have rest: "resting ?b" "unread c = []" by auto
    with recover_notice [OF rest(1) refl, of sb rt st RECOVER_STEP_IDLE RECOVER_ABSOLUTE] that recover_reply [of ?b sb rt st]
    show ?thesis unfolding client_frame by (simp add: resting_def)
  qed
  with inv ev gone have "notice_inv ?c"
    by (auto simp: notice_inv_def reconnecting_def unread_def split: if_splits)
  with assms(1) show ?thesis
    by (auto simp: sup_recover_def case_prod_unfold split: pc.split)
qed

lemma notice_inv_sup:
  assumes "notice_inv c"
  shows "notice_inv (sup_step sb rt net c)"
proof (cases "sup c")
  case (Sup_attempt start)
  with assms show ?thesis
    by (intro notice_inv_move [OF assms])
      (auto simp: sup_step_def sup_attempt_def reconnecting_def split: prod.split)
next
  case Sup_shutdown
  then show ?thesis by (simp add: sup_step_def notice_inv_def)
qed (use assms notice_inv_select notice_inv_recover in
    \<open>auto simp: sup_step_def sup_send_def reconnecting_def Let_def intro: notice_inv_move\<close>)


lemma notice_inv_client:
  assumes "client_inv sb c \<and> notice_inv c"
  shows "client_inv sb (client_step sb rt c e) \<and> notice_inv (client_step sb rt c e)"
proof -
  have b: "backed_inv sb (backed c)" using assms by (simp add: client_inv_def)
  have cmd: "notice_inv (c\<lparr>backed := backed_step sb rt (backed c) (Cmd_recv cmd)\<rparr>)"
    if "\<And>st i a. cmd \<noteq> Some (Cmd_Recover st i a)" for cmd
    using assms b that by (intro notice_inv_backed) auto
  have "notice_inv (client_step sb rt c e)"
  proof (cases e)
    case (Actor a)
    with assms b cmd show ?thesis
      by (cases a) (auto simp: client_step_def actor_step_def intro: notice_inv_backed)
  next
    case Owner_next_event
    have "sup (snd (EtClient_next_event c)) = sup c" "backed (snd (EtClient_next_event c)) = backed c"
      "taken (snd (EtClient_next_event c)) = taken c"
      by (simp_all add: EtClient_next_event_def)
    then have "notice_inv (snd (EtClient_next_event c))"
      using assms by (auto simp: notice_inv_def reconnecting_def unread_def)
    with assms Owner_next_event show ?thesis by (simp add: client_step_def)
  next
    case Owner_drop
    show ?thesis
      by (rule notice_inv_move [of c]; use assms Owner_drop in \<open>simp add: client_step_def reconnecting_def\<close>)
  qed (use assms cmd notice_inv_sup in \<open>simp_all add: client_step_def EtClient_write_def EtClient_kill_socket_def EtClient_shutdown_def
      BackedHandle_kill_socket_def BackedHandle_shutdown_def case_prod_unfold client_frame\<close>)
  with assms show ?thesis by (simp add: client_step_inv)
qed

interpretation reconnect: invariant_machine "client_step sb rt" "\<lambda>c. client_inv sb c \<and> notice_inv c" for sb rt
  by unfold_locales (rule notice_inv_client)

lemma connect_with_notice:
  assumes "connect_with rt net ep i passkey ka now = (Ok c, t)"
  shows "client_inv sb c \<and> notice_inv c"
proof
  show "notice_inv c"
    by (rule connect_with_Ok [OF assms])
      (simp add: notice_inv_def unread_def reconnecting_def notice_defs backed_spawn_def BackedActor_new_def)
qed (rule connect_with_inv [OF assms])

section \<open>Property\<close>

text \<open>C10. A recovery finds the connection at rest: in every run of a client, from the moment its supervisor learns
  that the socket is down until it has a new one, the connection, unless it is ending, has no
  socket, waits for commands, has delivered every frame it received and every event it sent has been
  taken. So a recovery never asks the server again for a frame that is still to be delivered.\<close>

theorem recovery_meets_rest:
  assumes "connect_with rt net ep i passkey ka now = (Ok c, t)" and "c' = client_run sb rt c es"
    and "reconnecting c'" and "running (backed c')"
  shows "pc (backed c') = AtSelect \<and> live (backed c') = None \<and> inbox (backed c') = [] \<and>
    \<not> socket_down_pending (backed c') \<and> taken c' = length (events (backed c'))"
proof -
  have "client_inv sb c' \<and> notice_inv c'"
    unfolding assms(2) client_run_def by (rule reconnect.inv_run [OF connect_with_notice [OF assms(1)]])
  moreover have "sup c' \<noteq> Sup_done" using assms(3) by (auto simp: reconnecting_def)
  ultimately show ?thesis
    using assms(3,4) by (auto simp: notice_inv_def resting_def unread_def)
qed

theorem recovery_meets_rest_witness:
  "\<exists>c. connect_with wire (serving NEW_CLIENT [] []) ''h:2022'' ''id'' (replicate 32 CHR ''k'') (Some 5000) 0 = (Ok c, 0) \<and>
    live (backed (client_run sum_box wire c [Actor (Frame_recv None), Actor (Event_sent True), Sup_poll (\<lambda>ep. None)])) = None"
proof -
  from connect_with_serving obtain c where
    c: "connect_with wire (serving NEW_CLIENT [] []) ''h:2022'' ''id'' (replicate 32 CHR ''k'') (Some 5000) 0 = (Ok c, 0)"
    by blast
  let ?c = "client_run sum_box wire c [Actor (Frame_recv None), Actor (Event_sent True), Sup_poll (\<lambda>ep. None)]"
  have "reconnecting ?c \<and> running (backed ?c)"
    by (rule connect_with_Ok [OF c]; simp add: client_run_def client_step_def actor_step_def backed_step_def select_step_def
        environment_step_def after_select_def sending_step_def send_event_done_def log_event_def close_current_socket_def
        deliver_inbox_def run_loop_def sup_step_def sup_select_def backed_recv_def spawn_socket_tasks_def reconnecting_def running_def
        backed_spawn_def BackedActor_new_def EVENT_QUEUE_DEPTH_def)
  with recovery_meets_rest [OF c refl, of sum_box "[Actor (Frame_recv None), Actor (Event_sent True), Sup_poll (\<lambda>ep. None)]"] c
  show ?thesis by blast
qed

end
