(* ===== verification/Link.thy ===== *)
theory Link
  imports Reconnect
begin

text \<open>
  Two ends of a session and the network between them. Both ends run the backed connection of
  \<^verbatim>\<open>backed.rs\<close>; the network carries what the writer task of one end takes from its queue to the reader task of
  the other, in order, loses what is in flight when a socket fails, lets each end notice that at its
  own time, and lets the ends recover over a new socket, both or only one of them. The task serves a
  recovery whenever it is running, also while it is parked on an event with frames still in its inbox: an end
  that has served one so early is marked hasty. The client's supervisor never asks for that
  (\<open>Reconnect\<close>). What an end that is not hasty has still to accept is exactly what is under way to it; of one
  that is hasty, what it accepts is still the next packet of its peer, or it ends.
\<close>

section \<open>Frames on their way\<close>

lemma packet_frame_inject [simp]: "packet_frame f = packet_frame g \<longleftrightarrow> f = g"
proof
  assume "packet_frame f = packet_frame g"
  then have "drop 4 (packet_frame f) = drop 4 (packet_frame g)" by simp
  then show "f = g" by (simp add: packet_frame_def)
qed simp

text \<open>
  The reading end \<open>s\<close> has accepted the first packets of \<open>ps\<close>, which were sealed in order under \<open>h\<close>; the
  ciphertexts of the rest are its inbox, followed by \<open>tail\<close>.
\<close>

definition feeds :: "secretbox \<Rightarrow> CryptoHandler \<Rightarrow> (u8 \<times> bytes) list \<Rightarrow> BackedActor \<Rightarrow> bytes list \<Rightarrow> bool" where
  "feeds sb h ps s tail \<longleftrightarrow>
     \<not> dead_sent s \<and> reader_crypto s = advanced h (length (accepted s)) \<and>
     map plain (take (length (accepted s)) ps) = accepted s \<and>
     drop (length (accepted s)) (sealed_all sb h ps) = inbox s @ tail"

lemma feeds_upd [simp]:
  "feeds sb h ps (s\<lparr>live := l\<rparr>) tail = feeds sb h ps s tail"
  "feeds sb h ps (s\<lparr>clock := t\<rparr>) tail = feeds sb h ps s tail"
  "feeds sb h ps (s\<lparr>pc := q\<rparr>) tail = feeds sb h ps s tail"
  "feeds sb h ps (s\<lparr>events := es\<rparr>) tail = feeds sb h ps s tail"
  "feeds sb h ps (s\<lparr>consumer_gone := b\<rparr>) tail = feeds sb h ps s tail"
  "feeds sb h ps (s\<lparr>replies := rs\<rparr>) tail = feeds sb h ps s tail"
  "feeds sb h ps (s\<lparr>socket_down_pending := b\<rparr>) tail = feeds sb h ps s tail"
  by (simp_all add: feeds_def)

lemma feeds_run [simp]:
  "feeds sb h ps (run_end s) tail = feeds sb h ps s tail" "feeds sb h ps (run_loop s) tail = feeds sb h ps s tail"
  by (simp_all add: run_loop_def run_end_def Let_def)

lemma feeds_next:
  assumes "secretbox_ok sb" and "feeds sb h ps s tail" and "inbox s = f # fs" and "k = length (accepted s)"
  shows "k < length ps" "drop (Suc k) (sealed_all sb h ps) = fs @ tail"
    and "deliver_inbox sb s = s\<lparr>inbox := fs, reader_crypto := advanced h (Suc k), last_activity := clock s,
      waiting_on_keepalive := waiting_on_keepalive s \<and> fst (ps ! k) \<noteq> KEEP_ALIVE,
      reader_seq := reader_seq s + 1, accepted := accepted s @ [plain (ps ! k)],
      opened := opened s @ [f], pc := Sending (Ev_Packet (plain (ps ! k)))\<rparr>"
proof -
  from assms(2-) have d: "drop k (sealed_all sb h ps) = f # fs @ tail" by (simp add: feeds_def)
  then show k: "k < length ps" by (metis drop_eq_Nil length_sealed_all list.distinct(1) not_le)
  with d show "drop (Suc k) (sealed_all sb h ps) = fs @ tail" by (simp add: drop_sealed_all)
  from d k have f: "f = sealed_packet sb h k (ps ! k)" by (simp add: drop_sealed_all)
  from assms(2,4) have "reader_crypto s = advanced h k" by (simp add: feeds_def)
  from deliver_sealed [OF assms(1) this] assms(3) f show "deliver_inbox sb s = s\<lparr>inbox := fs, reader_crypto := advanced h (Suc k), last_activity := clock s,
      waiting_on_keepalive := waiting_on_keepalive s \<and> fst (ps ! k) \<noteq> KEEP_ALIVE,
      reader_seq := reader_seq s + 1, accepted := accepted s @ [plain (ps ! k)],
      opened := opened s @ [f], pc := Sending (Ev_Packet (plain (ps ! k)))\<rparr>"
    by simp
qed

lemma feeds_deliver:
  assumes "secretbox_ok sb" and "feeds sb h ps s tail"
  shows "feeds sb h ps (deliver_inbox sb s) tail"
proof (cases "inbox s")
  case Nil
  with assms(2) show ?thesis by (simp add: deliver_inbox_def)
next
  case (Cons f fs)
  note n = feeds_next [OF assms Cons refl]
  from take_Suc_conv_app_nth [OF n(1)] assms(2) n(2) show ?thesis
    by (simp add: n(3) feeds_def)
qed

lemma feeds_length: "feeds sb h ps s tail \<Longrightarrow> length (accepted s) \<le> length ps"
  unfolding feeds_def by (metis length_map length_take min.cobounded1)

lemma feeds_grow: "feeds sb h ps s tail \<Longrightarrow> feeds sb h (ps @ [x]) s (tail @ [sealed_packet sb h (length ps) x])"
  using feeds_length [of sb h ps s tail] by (simp add: feeds_def)

text \<open>Any stimulus but data from the network leaves the rest of the stream where it is.\<close>

definition quiet :: "stimulus \<Rightarrow> bool" where
  "quiet e \<longleftrightarrow>
     (case e of
        Cmd_recv (Some (Cmd_Recover st i a)) \<Rightarrow> False
      | Frame_recv (Some (Inr f)) \<Rightarrow> False
      | Drain n \<Rightarrow> False
      | _ \<Rightarrow> True)"


lemma cmd_inbox:
  assumes "\<And>st i a. c \<noteq> Some (Cmd_Recover st i a)"
  shows "inbox (handle_cmd sb rt c s) = inbox s"
  using kept_or_closed_cmd [OF assms] by (simp add: kept_or_closed_def)

lemma tick_inbox: "inbox (keepalive_tick sb s) = inbox s"
  using kept_or_closed_tick by (simp add: kept_or_closed_def)

text \<open>
  What is known of a reading end depends on its inbox, what it has accepted, its handler and whether it
  has been told to die, and is kept when the next frame of the inbox is delivered. It is then kept by
  every step.
\<close>

locale reading =
  fixes sb :: secretbox and known :: "BackedActor \<Rightarrow> bool"
  assumes known_frame: "known s \<Longrightarrow> inbox s' = inbox s \<Longrightarrow> accepted s' = accepted s \<Longrightarrow> reader_crypto s' = reader_crypto s \<Longrightarrow>
      dead_sent s' = dead_sent s \<Longrightarrow> known s'"
    and known_deliver: "known s \<Longrightarrow> \<not> dead_sent s \<Longrightarrow> known (deliver_inbox sb s)"
begin

lemma known_upd:
  assumes "known s"
  shows "known (s\<lparr>live := l\<rparr>)" "known (s\<lparr>clock := t\<rparr>)" "known (s\<lparr>pc := q\<rparr>)" "known (s\<lparr>events := es\<rparr>)"
    "known (s\<lparr>consumer_gone := b\<rparr>)" "known (s\<lparr>socket_down_pending := b, pc := q\<rparr>)" "known (s\<lparr>live := l, pc := q\<rparr>)"
    "known (s\<lparr>events := es, live := l, pc := q\<rparr>)" "known (s\<lparr>consumer_gone := b, live := l, pc := q\<rparr>)"
    "known (close_current_socket s)" "known (run_end s)" "known (run_loop s)" "known (environment_step e s)"
  by (rule known_frame [OF assms];
      simp add: backed_frame run_loop_def run_end_def environment_step_def Let_def split: stimulus.split)+

lemma known_after:
  assumes "known s" and "\<not> dead_sent s"
  shows "known (after_select sb s)" "known (send_event_done sb ev ok s)"
  using known_deliver [OF assms] known_upd [OF assms(1)]
  by (simp_all add: after_select_def send_event_done_def split: BackedEvent.split)

lemma known_step:
  assumes "known s" and "running s \<Longrightarrow> \<not> dead_sent s" and "quiet e \<or> (\<exists>n. e = Drain n)"
  shows "known (backed_step sb rt s e)"
proof -
  have cmd: "known (handle_cmd sb rt c s)" if "e = Cmd_recv c" for c
  proof (rule known_frame [OF assms(1)])
    show "inbox (handle_cmd sb rt c s) = inbox s"
      using assms(3) that by (intro cmd_inbox) (auto simp: quiet_def)
  qed (simp_all add: backed_frame)
  have tick: "known (keepalive_tick sb s)"
    by (rule known_frame [OF assms(1)]) (simp_all add: tick_inbox backed_frame)
  note upd = known_upd [OF assms(1)]
  have env: "known (environment_step e s')" if "known s'" for s' by (rule known_upd(13) [OF that])
  show ?thesis
  proof (cases "pc s")
    case AtSelect
    then have alive: "\<not> dead_sent s" using assms(2) by (simp add: running_def)
    have "known (select_step sb rt e s)"
      using assms(1,3) cmd tick upd alive
      by (cases e) (auto simp: select_step_def quiet_def backed_frame intro!: known_after(1) split: option.splits sum.splits)
    with AtSelect env show ?thesis by (simp add: backed_step_def)
  next
    case (Sending ev)
    then have alive: "\<not> dead_sent s" using assms(2) by (simp add: running_def)
    have "known (sending_step sb rt ev e s)"
      using assms(1,3) cmd upd alive
      by (cases e) (auto simp: sending_step_def log_event_def backed_frame Let_def intro!: known_after(2))
    with Sending env show ?thesis by (simp add: backed_step_def)
  next
    case (Dying r)
    have "known (dying_step r e s)"
      using assms(1) upd by (cases e) (auto simp: dying_step_def log_event_def Let_def)
    with Dying env show ?thesis by (simp add: backed_step_def)
  qed (use assms(1) env in \<open>simp add: backed_step_def\<close>)
qed

text \<open>A frame that arrives, and a recovery.\<close>

lemma known_arrive:
  assumes "known (s\<lparr>inbox := inbox s @ [f]\<rparr>)" and "pc s = AtSelect" and "live s \<noteq> None" and "\<not> dead_sent s"
  shows "known (backed_step sb rt s (Frame_recv (Some (Inr f))))"
  using known_after(1) [OF assms(1)] assms(2-) known_upd(13)
  by (auto simp: backed_step_def select_step_def)

lemma known_recover:
  assumes "known (snd (recover_timed_actor rt st i a s))" and "running s" and "\<not> dead_sent s"
  shows "known (backed_step sb rt s (Cmd_recv (Some (Cmd_Recover st i a))))"
proof -
  let ?h = "handle_cmd sb rt (Some (Cmd_Recover st i a)) s"
  have "known ?h" by (rule known_frame [OF assms(1)]) (simp_all add: handle_cmd_split)
  moreover have "\<not> dead_sent ?h" using assms(3) by (simp add: backed_frame)
  ultimately have "known (select_step sb rt (Cmd_recv (Some (Cmd_Recover st i a))) s)"
      "known (sending_step sb rt ev (Cmd_recv (Some (Cmd_Recover st i a))) s)" for ev
    using known_after by (simp_all add: select_step_def sending_step_def Let_def)
  with assms(2) known_upd(13) show ?thesis by (auto simp: running_def backed_step_def)
qed

end

lemma failed_recover_parts:
  assumes "\<not> fst (recover_timed_actor rt st i a s)"
  shows "live (snd (recover_timed_actor rt st i a s)) = live s" "inbox (snd (recover_timed_actor rt st i a s)) = inbox s"
  using assms by (simp_all add: recover_timed_actor_def Let_def split: prod.splits sum.splits)

context reading
begin

lemma known_failed:
  assumes "known s" and "running s" and "\<not> dead_sent s" and "\<not> fst (recover_timed_actor rt st i a s)"
  shows "known (backed_step sb rt s (Cmd_recv (Some (Cmd_Recover st i a))))"
proof (rule known_recover [OF _ assms(2,3)])
  show "known (snd (recover_timed_actor rt st i a s))"
    by (rule known_frame [OF assms(1)]) (simp_all add: failed_recover_parts [OF assms(4)] backed_frame)
qed

end

interpretation fed: reading sb "\<lambda>s. secretbox_ok sb \<and> feeds sb h ps s tail" for sb h ps tail
  by unfold_locales (simp add: feeds_def, simp add: feeds_deliver)


section \<open>A hasty reader\<close>

text \<open>No frame made for one packet opens under the nonce of another. Primitives with a sound MAC are so.\<close>

definition unconfused :: "secretbox \<Rightarrow> CryptoHandler \<Rightarrow> (u8 \<times> bytes) list \<Rightarrow> bool" where
  "unconfused sb h ps \<longleftrightarrow>
     (\<forall>j < length ps. \<forall>k \<le> length ps.
        unseal sb (cipher h) (nonce_at h (Suc k)) (seal sb (cipher h) (nonce_at h (Suc j)) (snd (ps ! j))) \<noteq> None \<longrightarrow> k = j)"

lemma unconfused_prefix: "unconfused sb h (ps @ new) \<Longrightarrow> unconfused sb h ps"
  by (auto simp: unconfused_def nth_append)

text \<open>The reading end has accepted the first packets of \<open>ps\<close>, and its inbox has frames of \<open>ps\<close>, in any order.\<close>

definition heeds :: "secretbox \<Rightarrow> CryptoHandler \<Rightarrow> (u8 \<times> bytes) list \<Rightarrow> BackedActor \<Rightarrow> bool" where
  "heeds sb h ps s \<longleftrightarrow>
     map plain (take (length (accepted s)) ps) = accepted s \<and> set (inbox s) \<subseteq> set (sealed_all sb h ps) \<and>
     (dead_sent s \<or> reader_crypto s = advanced h (length (accepted s)))"

lemma feeds_heeds: "feeds sb h ps s tail \<Longrightarrow> heeds sb h ps s"
  unfolding feeds_def heeds_def by (metis Un_iff set_append set_drop_subset subset_iff)

lemma heeds_length: "heeds sb h ps s \<Longrightarrow> length (accepted s) \<le> length ps"
  unfolding heeds_def by (metis length_map length_take min.cobounded1)

lemma heeds_deliver:
  assumes "secretbox_ok sb" and "unconfused sb h ps" and "heeds sb h ps s" and "\<not> dead_sent s"
  shows "heeds sb h ps (deliver_inbox sb s)"
proof (cases "inbox s")
  case Nil
  with assms(3,4) show ?thesis
    by (simp add: deliver_inbox_def heeds_def run_loop_def run_end_def Let_def)
next
  case (Cons f fs)
  let ?k = "length (accepted s)"
  from assms(3) Cons have "f \<in> set (sealed_all sb h ps)" and fs: "set fs \<subseteq> set (sealed_all sb h ps)"
    by (simp_all add: heeds_def)
  then obtain j where j: "j < length ps" "f = sealed_packet sb h j (ps ! j)" by (auto simp: sealed_all_def)
  have rc: "reader_crypto s = advanced h ?k" using assms(3,4) by (simp add: heeds_def)
  show ?thesis
  proof (cases "?k = j")
    case True
    have "deliver_inbox sb s = s\<lparr>inbox := fs, reader_crypto := advanced h (Suc ?k), last_activity := clock s,
      waiting_on_keepalive := waiting_on_keepalive s \<and> fst (ps ! j) \<noteq> KEEP_ALIVE,
      reader_seq := reader_seq s + 1, accepted := accepted s @ [plain (ps ! j)],
      opened := opened s @ [f], pc := Sending (Ev_Packet (plain (ps ! j)))\<rparr>"
      using deliver_sealed [OF assms(1) rc, of "ps ! j" fs] Cons j(2) True by simp
    moreover have "map plain (take (Suc ?k) ps) = accepted s @ [plain (ps ! j)]"
      using assms(3) j(1) True by (simp add: heeds_def take_Suc_conv_app_nth)
    ultimately show ?thesis using fs by (simp add: heeds_def)
  next
    case False
    then have no: "unseal sb (cipher h) (nonce_at h (Suc ?k)) (seal sb (cipher h) (nonce_at h (Suc j)) (snd (ps ! j))) = None"
      using assms(2) j(1) heeds_length [OF assms(3)] unfolding unconfused_def by blast
    then have "crypto_decrypt sb (reader_crypto s) (seal sb (cipher h) (nonce_at h (Suc j)) (snd (ps ! j))) =
        (advanced h (Suc ?k), Err DecryptFailed)"
      using assms(1) by (simp add: rc crypto_decrypt_def secretbox_ok_def nonce_at_def Let_def)
    then show ?thesis
      using assms(3) Cons fs by (simp add: deliver_inbox_def j(2) Packet_decrypt_def die_crypto_mismatch_def heeds_def Let_def)
  qed
qed

interpretation heeded: reading sb "\<lambda>s. secretbox_ok sb \<and> unconfused sb h ps \<and> heeds sb h ps s" for sb h ps
  by unfold_locales (simp add: heeds_def, simp add: heeds_deliver)


section \<open>Frames put on their way\<close>

text \<open>From \<open>s\<close> to \<open>s'\<close> an end writes packets, and if it has kept its socket their frames are at the end of the queue.\<close>

definition sends :: "secretbox \<Rightarrow> BackedActor \<Rightarrow> BackedActor \<Rightarrow> bool" where
  "sends sb s s' \<longleftrightarrow>
     cfg s' = cfg s \<and> (\<exists>new. written s' = written s @ new) \<and>
     (\<forall>l'. live s' = Some l' \<longrightarrow>
        (\<exists>l. live s = Some l \<and> write_q l' = write_q l @ map packet_frame (drop (length (written s)) (history sb s'))))"

lemma sends_same:
  assumes "cfg s' = cfg s" and "written s' = written s"
    and "\<And>l'. live s' = Some l' \<Longrightarrow> \<exists>l. live s = Some l \<and> write_q l' = write_q l"
  shows "sends sb s s'"
  using assms by (fastforce simp: sends_def history_def)

lemma sends_then:
  assumes "sends sb s s'" and "cfg s'' = cfg s'" and "written s'' = written s'"
    and "\<And>l''. live s'' = Some l'' \<Longrightarrow> \<exists>l'. live s' = Some l' \<and> write_q l'' = write_q l'"
  shows "sends sb s s''"
  using assms by (fastforce simp: sends_def history_def)

lemma sends_write:
  assumes "writer_inv sb s"
  shows "sends sb s (snd (backed_write sb h p s))"
proof -
  let ?f = "sealed_packet sb (writer0 (cfg s)) (length (written s)) (h, p)"
  show ?thesis
  proof (cases "shutting_down s \<or> over_budget p s")
    case True
    then show ?thesis by (auto simp: backed_write_eq [OF assms] intro: sends_same)
  next
    case False
    show ?thesis
    proof (cases "live s")
      case None
      with False show ?thesis
        by (simp add: backed_write_eq [OF assms] sends_def ledger_add_def backed_frame Let_def)
    next
      case (Some l)
      show ?thesis
      proof (cases "try_send l (packet_frame ?f)")
        case None
        with False Some show ?thesis
          by (simp add: backed_write_eq [OF assms] sends_def ledger_add_def backed_frame Let_def)
      next
        case (Some l')
        then have "write_q l' = write_q l @ [packet_frame ?f]"
          by (auto simp: try_send_def split: if_splits)
        with False \<open>live s = Some l\<close> Some show ?thesis
          by (simp add: backed_write_eq [OF assms] sends_def history_def backed_frame Let_def)
      qed
    qed
  qed
qed

lemma sends_cmd:
  assumes "writer_inv sb s" and "\<And>st i a. c \<noteq> Some (Cmd_Recover st i a)"
  shows "sends sb s (handle_cmd sb rt c s)"
proof (cases c)
  case None
  then show ?thesis by (intro sends_same) (simp_all add: handle_cmd_split)
next
  case (Some cmd)
  show ?thesis
  proof (cases cmd)
    case (Cmd_Write h p)
    with Some show ?thesis
      by (intro sends_then [OF sends_write [OF assms(1), of h p]]) (simp_all add: handle_cmd_split)
  qed (use Some assms(2) in \<open>auto intro!: sends_same simp: handle_cmd_split backed_frame\<close>)
qed

lemma sends_tick:
  assumes "writer_inv sb s"
  shows "sends sb s (keepalive_tick sb s)"
proof -
  let ?s = "s\<lparr>waiting_on_keepalive := True, last_activity := clock s\<rparr>"
  have "sends sb ?s (snd (backed_write sb KEEP_ALIVE [] ?s))" using assms by (intro sends_write) simp
  then have "sends sb s (snd (backed_write sb KEEP_ALIVE [] ?s))" by (simp add: sends_def)
  moreover have "sends sb s s" "sends sb s (close_current_socket s)"
    by (auto intro: sends_same simp: backed_frame)
  ultimately show ?thesis by (simp add: keepalive_tick_def split: option.split)
qed

lemma live_after:
  "live (after_select sb s) = Some l \<Longrightarrow> live s = Some l" "live (send_event_done sb ev ok s) = Some l \<Longrightarrow> live s = Some l"
proof -
  have d: "live (deliver_inbox sb s) = live s \<or> live (deliver_inbox sb s) = None" for s
    by (simp add: deliver_inbox_def die_crypto_mismatch_def run_loop_def run_end_def Let_def
        split: list.split option.split sum.split prod.split)
  show "live (after_select sb s) = Some l \<Longrightarrow> live s = Some l" "live (send_event_done sb ev ok s) = Some l \<Longrightarrow> live s = Some l"
    using d [of s]
    by (auto simp: after_select_def send_event_done_def run_loop_def run_end_def Let_def split: if_splits BackedEvent.splits)
qed


lemma sends_step:
  assumes "backed_inv sb s" and "quiet e"
  shows "sends sb s (backed_step sb rt s e)"
proof -
  have w: "writer_inv sb s" using assms(1) by (simp add: backed_inv_def)
  have cmd: "sends sb s (handle_cmd sb rt c s)" if "e = Cmd_recv c" for c
    using assms(2) that by (intro sends_cmd [OF w]) (auto simp: quiet_def)
  have env: "sends sb s (environment_step e s')" if "sends sb s s'" for s'
    using that assms(2) by (intro sends_then [OF that]) (auto simp: environment_step_def quiet_def split: stimulus.splits)
  have after: "sends sb s (after_select sb s')" "sends sb s (send_event_done sb ev ok s')" if "sends sb s s'" for s' ev ok
    by (rule sends_then [OF that]; (simp add: backed_frame written_frame; fail | blast dest: live_after))+
  have same: "sends sb s (s\<lparr>inbox := i\<rparr>)" "sends sb s (s\<lparr>events := es\<rparr>)" "sends sb s (s\<lparr>consumer_gone := b\<rparr>)"
    "sends sb s (close_current_socket s)" "sends sb s s" for i es b
    by (auto intro: sends_same simp: backed_frame)
  have stop: "sends sb s (s\<lparr>live := None, pc := q\<rparr>)" "sends sb s (s\<lparr>events := es, live := None, pc := q\<rparr>)"
    "sends sb s (s\<lparr>consumer_gone := b, live := None, pc := q\<rparr>)" for q es b
    by (auto intro: sends_same)
  have "sends sb s (select_step sb rt e s)"
    using cmd same sends_tick [OF w]
    by (cases e) (auto simp: select_step_def intro!: after split: option.split sum.split)
  moreover have "sends sb s (sending_step sb rt ev e s)" for ev
    using cmd same by (cases e) (auto simp: sending_step_def log_event_def Let_def intro!: after)
  moreover have "sends sb s (dying_step r e s)" for r
    using same stop by (cases e) (auto simp: dying_step_def log_event_def Let_def)
  ultimately show ?thesis
    unfolding backed_step_def using same(5) by (intro env) (simp split: pc.split)
qed

section \<open>One direction\<close>

text \<open>
  What \<open>r\<close> has still to accept of what \<open>w\<close> has written is its inbox, then the frames on the way, then, if the
  way leads from the socket that \<open>w\<close> holds, the frames in its queue.
\<close>

definition flows :: "secretbox \<Rightarrow> bool \<Rightarrow> BackedActor \<Rightarrow> BackedActor \<Rightarrow> bytes list \<Rightarrow> bool" where
  "flows sb joined w r pipe \<longleftrightarrow>
     (\<exists>way rest. pipe = map packet_frame way \<and> feeds sb (writer0 (cfg w)) (written w) r (way @ rest) \<and>
        (joined \<longrightarrow> (\<forall>l. live w = Some l \<longrightarrow> write_q l = map packet_frame rest)))"

lemma feeds_more:
  "feeds sb h ps s tail \<Longrightarrow> feeds sb h (ps @ new) s (tail @ drop (length ps) (sealed_all sb h (ps @ new)))"
proof (induction new rule: rev_induct)
  case (snoc x new)
  have "sealed_all sb h (ps @ new @ [x]) = sealed_all sb h (ps @ new) @ [sealed_packet sb h (length ps + length new) x]"
    using sealed_all_snoc [of sb h "ps @ new" x] by simp
  with feeds_grow [OF snoc.IH [OF snoc.prems], of x] show ?case by simp
qed simp

lemma flows_writer:
  assumes "flows sb j w r pipe" and "sends sb w w'"
  shows "flows sb j w' r pipe"
proof -
  from assms(1) obtain way rest where f: "pipe = map packet_frame way" "feeds sb (writer0 (cfg w)) (written w) r (way @ rest)"
    "j \<Longrightarrow> live w = Some l \<Longrightarrow> write_q l = map packet_frame rest" for l
    by (auto simp: flows_def)
  from assms(2) obtain new where new: "cfg w' = cfg w" "written w' = written w @ new"
    by (auto simp: sends_def)
  let ?more = "drop (length (written w)) (history sb w')"
  have "feeds sb (writer0 (cfg w')) (written w') r (way @ rest @ ?more)"
    using feeds_more [OF f(2), of new] new by (simp add: history_def)
  moreover have "write_q l = map packet_frame (rest @ ?more)" if "j" "live w' = Some l" for l
    using assms(2) that f(3) by (force simp: sends_def)
  ultimately show ?thesis
    using f(1) unfolding flows_def by blast
qed

lemma flows_reader:
  assumes "flows sb j w r pipe" and "\<And>tail. feeds sb (writer0 (cfg w)) (written w) r tail \<Longrightarrow> feeds sb (writer0 (cfg w)) (written w) r' tail"
  shows "flows sb j w r' pipe"
  using assms unfolding flows_def by blast

lemma drain_step: "backed_step sb rt s (Drain n) = s\<lparr>live := map_option (\<lambda>l. l\<lparr>write_q := drop n (write_q l)\<rparr>) (live s)\<rparr>"
  by (simp add: backed_step_def select_step_def sending_step_def dying_step_def environment_step_def Let_def split: pc.split)

lemma flows_drain:
  assumes "flows sb j w r pipe" and "live w = Some l"
  shows "flows sb j (backed_step sb rt w (Drain n)) r (if j then pipe @ take n (write_q l) else pipe)"
proof -
  from assms(1) obtain way rest where f: "pipe = map packet_frame way" "feeds sb (writer0 (cfg w)) (written w) r (way @ rest)"
    "j \<Longrightarrow> write_q l = map packet_frame rest"
    using assms(2) by (auto simp: flows_def)
  show ?thesis
  proof (cases j)
    case True
    show ?thesis
      unfolding flows_def
      by (rule exI [of _ "way @ take n rest"], rule exI [of _ "drop n rest"])
        (use True f assms(2) in \<open>simp add: drain_step take_map drop_map\<close>)
  next
    case False
    with f show ?thesis by (auto simp: flows_def drain_step)
  qed
qed

lemma flows_arrive:
  assumes "flows sb j w r (packet_frame f # pipe)" and "secretbox_ok sb" and "pc r = AtSelect" and "live r \<noteq> None"
  shows "flows sb j w (backed_step sb rt r (Frame_recv (Some (Inr f)))) pipe"
proof -
  from assms(1) obtain way rest where f: "pipe = map packet_frame way" "feeds sb (writer0 (cfg w)) (written w) r (f # way @ rest)"
    "j \<Longrightarrow> live w = Some l \<Longrightarrow> write_q l = map packet_frame rest" for l
    by (auto simp: flows_def Cons_eq_map_conv)
  have "feeds sb (writer0 (cfg w)) (written w) (r\<lparr>inbox := inbox r @ [f]\<rparr>) (way @ rest)" "\<not> dead_sent r"
    using f(2) by (simp_all add: feeds_def)
  with fed.known_arrive [of sb _ _ r f _ rt] assms(2-) have "feeds sb (writer0 (cfg w)) (written w) (backed_step sb rt r (Frame_recv (Some (Inr f)))) (way @ rest)"
    by blast
  with f show ?thesis unfolding flows_def by blast
qed


section \<open>Recoveries\<close>

lemma recover_step_parts:
  assumes "s' = backed_step sb rt s (Cmd_recv (Some (Cmd_Recover st i a)))"
  shows "cfg s' = cfg s" "written s' = written s"
    and "running s \<Longrightarrow> live s' = Some l \<Longrightarrow> live (snd (recover_timed_actor rt st i a s)) = Some l"
proof -
  let ?h = "handle_cmd sb rt (Some (Cmd_Recover st i a)) s"
  have h: "written ?h = written s" "live ?h = live (snd (recover_timed_actor rt st i a s))"
    by (simp_all add: handle_cmd_split backed_frame)
  show "cfg s' = cfg s" by (simp add: assms cfg_step)
  show "written s' = written s"
    by (cases "pc s")
      (simp_all add: assms backed_step_def select_step_def sending_step_def dying_step_def h written_frame Let_def)
  show "live (snd (recover_timed_actor rt st i a s)) = Some l" if "running s" "live s' = Some l"
  proof -
    have "live ?h = Some l"
      using that unfolding assms running_def
      by (auto simp: backed_step_def select_step_def sending_step_def environment_step_def Let_def dest: live_after split: if_splits)
    then show ?thesis by (simp add: h)
  qed
qed

text \<open>A running end and its peer, with a socket on which each can send what the other misses.\<close>

definition meets ::
    "secretbox \<Rightarrow> buffa \<Rightarrow> nat \<Rightarrow> nat \<Rightarrow> BackedActor \<Rightarrow> BackedActor \<Rightarrow> reader \<Rightarrow> tstream \<Rightarrow> bool" where
  "meets sb rt i a s peer r st \<longleftrightarrow>
     running s \<and> can_resend sb rt s (length (accepted peer)) \<and> can_resend sb rt peer (length (accepted s)) \<and>
     joins sb rt i a s peer r st"

text \<open>The same of an end that has delivered its inbox.\<close>

definition recovers ::
    "secretbox \<Rightarrow> buffa \<Rightarrow> nat \<Rightarrow> nat \<Rightarrow> BackedActor \<Rightarrow> BackedActor \<Rightarrow> reader \<Rightarrow> tstream \<Rightarrow> bool" where
  "recovers sb rt i a s peer r st \<longleftrightarrow>
     running s \<and> inbox s = [] \<and>
     can_resend sb rt s (length (accepted peer)) \<and> can_resend sb rt peer (length (accepted s)) \<and>
     joins sb rt i a s peer r st"

lemma recovers_meets: "recovers sb rt i a s peer r st \<longleftrightarrow> meets sb rt i a s peer r st \<and> inbox s = []"
  by (auto simp: recovers_def meets_def)

lemma running_alive: "backed_inv sb s \<Longrightarrow> running s \<Longrightarrow> \<not> dead_sent s"
  by (simp add: backed_inv_def)

lemma meets_inbox:
  assumes "buffa_ok rt" and "backed_inv sb s" and "backed_inv sb peer" and "meets sb rt i a s peer r st"
  shows "inbox (snd (recover_timed_actor rt st i a s)) = inbox s @ drop (length (accepted s)) (sealed_all sb (writer0 (cfg peer)) (written peer))"
  using assms(4) by (auto simp: meets_def missing_def history_def recover_joined(2) [OF assms(1-3)])

lemma recovered_feeds:
  assumes "secretbox_ok sb" and "buffa_ok rt" and "backed_inv sb s" and "backed_inv sb peer"
    and "recovers sb rt i a s peer r st" and "feeds sb (writer0 (cfg peer)) (written peer) s tail"
  shows "feeds sb (writer0 (cfg peer)) (written peer) (backed_step sb rt s (Cmd_recv (Some (Cmd_Recover st i a)))) []"
proof -
  from assms(5) have m: "meets sb rt i a s peer r st" "running s" "inbox s = []"
    by (simp_all add: recovers_meets meets_def)
  from meets_inbox [OF assms(2-4) m(1)] m(3) assms(6)
  have "feeds sb (writer0 (cfg peer)) (written peer) (snd (recover_timed_actor rt st i a s)) []"
    by (simp add: feeds_def backed_frame)
  with fed.known_recover [of sb _ _ rt st i a s] assms(1) m(2) running_alive [OF assms(3) m(2)] show ?thesis by blast
qed

lemma recovered_heeds:
  assumes "secretbox_ok sb" and "buffa_ok rt" and "backed_inv sb s" and "backed_inv sb peer"
    and "meets sb rt i a s peer r st" and "heeds sb (writer0 (cfg peer)) (written peer) s"
    and "unconfused sb (writer0 (cfg peer)) (written peer)"
  shows "heeds sb (writer0 (cfg peer)) (written peer) (backed_step sb rt s (Cmd_recv (Some (Cmd_Recover st i a))))"
proof -
  have run: "running s" using assms(5) by (simp add: meets_def)
  have "heeds sb (writer0 (cfg peer)) (written peer) (snd (recover_timed_actor rt st i a s))"
    using assms(6) set_drop_subset by (fastforce simp: heeds_def meets_inbox [OF assms(2-5)] backed_frame)
  with heeded.known_recover [of sb _ _ rt st i a s] assms(1,7) run running_alive [OF assms(3) run] show ?thesis by blast
qed

lemma recovered_queue:
  assumes "buffa_ok rt" and "backed_inv sb s" and "backed_inv sb peer" and "meets sb rt i a s peer r st"
    and "live (backed_step sb rt s (Cmd_recv (Some (Cmd_Recover st i a)))) = Some l"
  shows "write_q l = []"
proof -
  have j: "running s" "can_resend sb rt s (length (accepted peer))" "can_resend sb rt peer (length (accepted s))"
      "joins sb rt i a s peer r st"
    using assms(4) by (simp_all add: meets_def)
  from recover_step_parts(3) [OF refl j(1) assms(5)] recover_joined(3) [OF assms(1-3) j(2-4)] show ?thesis by auto
qed


section \<open>Lanes\<close>

text \<open>One direction towards a reader that may be hasty: then every frame on the way is one that \<open>w\<close> has made.\<close>

definition made :: "secretbox \<Rightarrow> BackedActor \<Rightarrow> bytes list \<Rightarrow> bool" where
  "made sb w xs \<longleftrightarrow> set xs \<subseteq> packet_frame ` set (history sb w)"

lemma made_simps [simp]:
  "made sb w []" "made sb w (packet_frame f # xs) \<longleftrightarrow> f \<in> set (history sb w) \<and> made sb w xs"
  "made sb w (xs @ ys) \<longleftrightarrow> made sb w xs \<and> made sb w ys"
  "made sb w (map packet_frame fs) \<longleftrightarrow> set fs \<subseteq> set (history sb w)"
  by (auto simp: made_def)

lemma made_part: "made sb w xs \<Longrightarrow> made sb w (take n xs)" "made sb w xs \<Longrightarrow> made sb w (drop n xs)"
  by (auto simp: made_def dest: in_set_takeD in_set_dropD)

definition honest :: "secretbox \<Rightarrow> bool \<Rightarrow> BackedActor \<Rightarrow> BackedActor \<Rightarrow> bytes list \<Rightarrow> bool" where
  "honest sb joined w r pipe \<longleftrightarrow>
     made sb w pipe \<and> heeds sb (writer0 (cfg w)) (written w) r \<and>
     (joined \<longrightarrow> (\<forall>l. live w = Some l \<longrightarrow> made sb w (write_q l)))"

definition lane :: "secretbox \<Rightarrow> bool \<Rightarrow> bool \<Rightarrow> BackedActor \<Rightarrow> BackedActor \<Rightarrow> bytes list \<Rightarrow> bool" where
  "lane sb hasty joined w r pipe \<longleftrightarrow> (if hasty then honest sb joined w r pipe else flows sb joined w r pipe)"

lemma flows_honest: "flows sb j w r pipe \<Longrightarrow> honest sb j w r pipe"
proof -
  assume "flows sb j w r pipe"
  then obtain way rest where f: "pipe = map packet_frame way" "feeds sb (writer0 (cfg w)) (written w) r (way @ rest)"
    "j \<Longrightarrow> live w = Some l \<Longrightarrow> write_q l = map packet_frame rest" for l
    by (auto simp: flows_def)
  then have "set (way @ rest) \<subseteq> set (history sb w)"
    unfolding feeds_def history_def by (metis le_supE set_append set_drop_subset)
  with f feeds_heeds [OF f(2)] show ?thesis by (auto simp: honest_def)
qed

lemma lane_honest: "lane sb hb j w r pipe \<Longrightarrow> honest sb j w r pipe"
  by (auto simp: lane_def flows_honest split: if_splits)

lemma sealed_grow: "set (sealed_all sb h ps) \<subseteq> set (sealed_all sb h (ps @ new))"
proof (induction new rule: rev_induct)
  case (snoc x new)
  have "sealed_all sb h (ps @ new @ [x]) = sealed_all sb h (ps @ new) @ [sealed_packet sb h (length (ps @ new)) x]"
    using sealed_all_snoc [of sb h "ps @ new" x] by simp
  with snoc show ?case by auto
qed simp

lemma made_grow: "cfg w' = cfg w \<Longrightarrow> written w' = written w @ new \<Longrightarrow> made sb w xs \<Longrightarrow> made sb w' xs"
  using sealed_grow [of sb "writer0 (cfg w)" "written w" new] by (auto simp: made_def history_def)

lemma heeds_grow: "heeds sb h ps s \<Longrightarrow> heeds sb h (ps @ new) s"
  using heeds_length [of sb h ps s] sealed_grow [of sb h ps new] by (auto simp: heeds_def)

lemma lane_writer:
  assumes "lane sb hb j w r pipe" and "sends sb w w'"
  shows "lane sb hb j w' r pipe"
proof (cases hb)
  case True
  with assms(1) have h: "honest sb j w r pipe" by (simp add: lane_def)
  from assms(2) obtain new where new: "cfg w' = cfg w" "written w' = written w @ new" by (auto simp: sends_def)
  have "made sb w' (write_q l')" if "j" "live w' = Some l'" for l'
  proof -
    from assms(2) that(2) obtain l where l: "live w = Some l"
      "write_q l' = write_q l @ map packet_frame (drop (length (written w)) (history sb w'))"
      by (auto simp: sends_def)
    moreover from h l(1) that(1) have "made sb w (write_q l)" by (simp add: honest_def)
    ultimately show ?thesis using made_grow [OF new, of sb "write_q l"] by (simp add: set_drop_subset)
  qed
  with h made_grow [OF new, of sb] heeds_grow [of sb "writer0 (cfg w)" "written w" r new] True show ?thesis
    by (auto simp: lane_def honest_def new)
qed (use assms in \<open>simp add: lane_def flows_writer\<close>)

lemma lane_reader:
  assumes "lane sb hb j w r pipe"
    and "\<And>tail. \<not> hb \<Longrightarrow> feeds sb (writer0 (cfg w)) (written w) r tail \<Longrightarrow> feeds sb (writer0 (cfg w)) (written w) r' tail"
    and "hb \<Longrightarrow> heeds sb (writer0 (cfg w)) (written w) r \<Longrightarrow> heeds sb (writer0 (cfg w)) (written w) r'"
  shows "lane sb hb j w r' pipe"
  using assms by (cases hb) (auto simp: lane_def honest_def intro: flows_reader)

lemma lane_drain:
  assumes "lane sb hb j w r pipe" and "live w = Some l"
  shows "lane sb hb j (backed_step sb rt w (Drain n)) r (if j then pipe @ take n (write_q l) else pipe)"
proof (cases hb)
  case True
  with assms(1) have h: "honest sb j w r pipe" by (simp add: lane_def)
  have same: "made sb (backed_step sb rt w (Drain n)) xs = made sb w xs" for xs by (simp add: drain_step made_def history_def)
  from h assms(2) made_part [of sb w "write_q l" n] True show ?thesis
    by (auto simp: lane_def honest_def same) (auto simp: drain_step)
qed (use assms flows_drain in \<open>simp add: lane_def\<close>)

lemma lane_arrive:
  assumes "lane sb hb j w r (packet_frame f # pipe)" and "secretbox_ok sb" and "hb \<Longrightarrow> unconfused sb (writer0 (cfg w)) (written w)"
    and "backed_inv sb r" and "pc r = AtSelect" and "live r \<noteq> None"
  shows "lane sb hb j w (backed_step sb rt r (Frame_recv (Some (Inr f)))) pipe"
proof (cases hb)
  case True
  let ?h = "writer0 (cfg w)" and ?ps = "written w"
  from assms(1) True have h: "honest sb j w r (packet_frame f # pipe)" by (simp add: lane_def)
  have alive: "\<not> dead_sent r" by (rule running_alive [OF assms(4)]) (simp add: running_def assms(5))
  have "heeds sb ?h ?ps (r\<lparr>inbox := inbox r @ [f]\<rparr>)"
    using h by (simp add: honest_def heeds_def history_def)
  with heeded.known_arrive [of sb ?h ?ps r f rt] assms(2,3,5,6) True alive
  have "heeds sb ?h ?ps (backed_step sb rt r (Frame_recv (Some (Inr f))))" by blast
  with h True show ?thesis by (simp add: lane_def honest_def)
qed (use assms flows_arrive in \<open>simp add: lane_def\<close>)

lemma lane_step:
  assumes "lane sb hb j w r pipe" and "secretbox_ok sb" and "hb \<Longrightarrow> unconfused sb (writer0 (cfg w)) (written w)"
    and "backed_inv sb r" and "quiet e \<or> (\<exists>n. e = Drain n)"
  shows "lane sb hb j w (backed_step sb rt r e) pipe"
  by (rule lane_reader [OF assms(1)])
    (use fed.known_step [of sb _ _ r _ e rt] heeded.known_step [of sb _ _ r e rt] assms(2-5) running_alive in blast)+

lemma lane_failed:
  assumes "lane sb hb j w r pipe" and "secretbox_ok sb" and "hb \<Longrightarrow> unconfused sb (writer0 (cfg w)) (written w)"
    and "backed_inv sb r" and "running r" and "\<not> fst (recover_timed_actor rt st i a r)"
  shows "lane sb hb j w (backed_step sb rt r (Cmd_recv (Some (Cmd_Recover st i a)))) pipe"
  by (rule lane_reader [OF assms(1)])
    (use fed.known_failed [of sb _ _ r _ rt st i a] heeded.known_failed [of sb _ _ r rt st i a] assms(2-6) running_alive in blast)+

lemma sends_failed:
  assumes "running w" and "\<not> fst (recover_timed_actor rt st i a w)"
  shows "sends sb w (backed_step sb rt w (Cmd_recv (Some (Cmd_Recover st i a))))"
proof (rule sends_same)
  fix l'
  assume "live (backed_step sb rt w (Cmd_recv (Some (Cmd_Recover st i a)))) = Some l'"
  from recover_step_parts(3) [OF refl assms(1) this] failed_recover_parts(1) [OF assms(2)]
  show "\<exists>l. live w = Some l \<and> write_q l' = write_q l" by auto
qed (rule recover_step_parts [OF refl])+

text \<open>The lanes after a recovery, of the reader, of the writer, and of both.\<close>

lemma lane_recovered:
  assumes "secretbox_ok sb" and "buffa_ok rt" and "backed_inv sb w" and "backed_inv sb r" and "lane sb hb j w r pipe"
    and "meets sb rt i a r w r1 st" and "hb' = (hb \<or> inbox r \<noteq> [])" and "hb' \<Longrightarrow> unconfused sb (writer0 (cfg w)) (written w)"
    and "cfg w' = cfg w" and "written w' = written w" and "\<And>l. j' \<Longrightarrow> live w' = Some l \<Longrightarrow> write_q l = []"
  shows "lane sb hb' j' w' (backed_step sb rt r (Cmd_recv (Some (Cmd_Recover st i a)))) []"
proof (cases hb')
  case True
  have "heeds sb (writer0 (cfg w)) (written w) r" using lane_honest [OF assms(5)] by (simp add: honest_def)
  with recovered_heeds [OF assms(1,2,4,3,6) this assms(8)] True assms(9-) show ?thesis
    by (simp add: lane_def honest_def)
next
  case False
  with assms(5,7) obtain tail where "feeds sb (writer0 (cfg w)) (written w) r tail" by (auto simp: lane_def flows_def)
  moreover have "recovers sb rt i a r w r1 st" using assms(6,7) False by (simp add: recovers_meets)
  ultimately show ?thesis
    using recovered_feeds [OF assms(1,2,4,3)] False assms(9-) by (auto simp: lane_def flows_def intro!: exI [of _ "[]"])
qed

lemma lane_unjoined:
  assumes "lane sb hb j w r pipe" and "cfg w' = cfg w" and "written w' = written w"
  shows "lane sb hb False w' r []"
  using assms by (auto simp: lane_def honest_def flows_def)


section \<open>The link\<close>

record link =
  left :: BackedActor
  right :: BackedActor
  to_right :: "bytes list"
  to_left :: "bytes list"
  joined :: bool
  hasty_left :: bool
  hasty_right :: bool

text \<open>The same link, seen from the other end.\<close>

definition mirror :: "link \<Rightarrow> link" where
  "mirror n = \<lparr>left = right n, right = left n, to_right = to_left n, to_left = to_right n, joined = joined n,
     hasty_left = hasty_right n, hasty_right = hasty_left n\<rparr>"

lemma mirror_mirror [simp]: "mirror (mirror n) = n"
  by (simp add: mirror_def)

abbreviation "recovering st i a \<equiv> Cmd_recv (Some (Cmd_Recover st i a))"

inductive link_step :: "secretbox \<Rightarrow> buffa \<Rightarrow> link \<Rightarrow> link \<Rightarrow> bool" for sb rt where
  local: "quiet e \<Longrightarrow> link_step sb rt n (n\<lparr>left := backed_step sb rt (left n) e\<rparr>)"
| depart: "live (left n) = Some l \<Longrightarrow>
    link_step sb rt n (n\<lparr>left := backed_step sb rt (left n) (Drain k),
      to_right := (if joined n then to_right n @ take k (write_q l) else to_right n)\<rparr>)"
| arrive: "joined n \<Longrightarrow> to_left n = packet_frame f # fs \<Longrightarrow> pc (left n) = AtSelect \<Longrightarrow> live (left n) \<noteq> None \<Longrightarrow>
    link_step sb rt n (n\<lparr>left := backed_step sb rt (left n) (Frame_recv (Some (Inr f))), to_left := fs\<rparr>)"
| fail: "running (left n) \<Longrightarrow> \<not> fst (recover_timed_actor rt st i a (left n)) \<Longrightarrow>
    link_step sb rt n (n\<lparr>left := backed_step sb rt (left n) (recovering st i a)\<rparr>)"
| half: "meets sb rt i a (left n) (right n) r st \<Longrightarrow>
    link_step sb rt n (n\<lparr>left := backed_step sb rt (left n) (recovering st i a),
      to_right := [], to_left := [], joined := False, hasty_left := (hasty_left n \<or> inbox (left n) \<noteq> [])\<rparr>)"
| rejoin: "meets sb rt i a (left n) (right n) r st \<Longrightarrow> meets sb rt i' a' (right n) (left n) r' st' \<Longrightarrow>
    link_step sb rt n \<lparr>left = backed_step sb rt (left n) (recovering st i a),
      right = backed_step sb rt (right n) (recovering st' i' a'), to_right = [], to_left = [], joined = True,
      hasty_left = (hasty_left n \<or> inbox (left n) \<noteq> []), hasty_right = (hasty_right n \<or> inbox (right n) \<noteq> [])\<rparr>"
| other: "link_step sb rt (mirror n) (mirror n') \<Longrightarrow> link_step sb rt n n'"

text \<open>What a hasty end is sent cannot be confused.\<close>

definition credible :: "secretbox \<Rightarrow> link \<Rightarrow> bool" where
  "credible sb n \<longleftrightarrow>
     (hasty_left n \<longrightarrow> unconfused sb (writer0 (cfg (right n))) (written (right n))) \<and>
     (hasty_right n \<longrightarrow> unconfused sb (writer0 (cfg (left n))) (written (left n)))"

definition link_inv :: "secretbox \<Rightarrow> link \<Rightarrow> bool" where
  "link_inv sb n \<longleftrightarrow>
     backed_inv sb (left n) \<and> backed_inv sb (right n) \<and>
     lane sb (hasty_right n) (joined n) (left n) (right n) (to_right n) \<and>
     lane sb (hasty_left n) (joined n) (right n) (left n) (to_left n)"

lemma mirror_simps [simp]:
  "link_inv sb (mirror n) = link_inv sb n" "credible sb (mirror n) = credible sb n"
  by (auto simp: link_inv_def credible_def mirror_def)

text \<open>Ends keep their configuration and what they have written, and stay hasty.\<close>

definition later_link :: "link \<Rightarrow> link \<Rightarrow> bool" where
  "later_link n n' \<longleftrightarrow>
     cfg (left n') = cfg (left n) \<and> prefix (written (left n)) (written (left n')) \<and> (hasty_left n \<longrightarrow> hasty_left n') \<and>
     cfg (right n') = cfg (right n) \<and> prefix (written (right n)) (written (right n')) \<and> (hasty_right n \<longrightarrow> hasty_right n')"

lemma link_step_later: "link_step sb rt n n' \<Longrightarrow> later_link n n'"
proof (induction rule: link_step.induct)
  case (other n n')
  then show ?case by (simp add: later_link_def mirror_def)
qed (use backed_step_written in \<open>auto simp: later_link_def cfg_step prefix_def\<close>)

lemma credible_before:
  assumes "credible sb n'" and "later_link n n'"
  shows "credible sb n"
  using assms unconfused_prefix by (auto simp: credible_def later_link_def prefix_def)

lemma link_step_inv:
  assumes "link_step sb rt n n'" and "secretbox_ok sb" and "buffa_ok rt" and "link_inv sb n" and "credible sb n'"
  shows "link_inv sb n'"
  using assms(1,4,5)
proof (induction rule: link_step.induct)
  case (local e n)
  then have inv: "backed_inv sb (left n)" "lane sb (hasty_right n) (joined n) (left n) (right n) (to_right n)"
      "lane sb (hasty_left n) (joined n) (right n) (left n) (to_left n)"
    by (simp_all add: link_inv_def)
  have "lane sb (hasty_left n) (joined n) (right n) (backed_step sb rt (left n) e) (to_left n)"
    by (rule lane_step [OF inv(3) assms(2) _ inv(1)]) (use local in \<open>auto simp: credible_def\<close>)
  with local lane_writer [OF inv(2) sends_step [OF inv(1) local(1)]] show ?case
    by (simp add: link_inv_def backed_step_inv)
next
  case (depart n l k)
  then have inv: "backed_inv sb (left n)" "lane sb (hasty_right n) (joined n) (left n) (right n) (to_right n)"
      "lane sb (hasty_left n) (joined n) (right n) (left n) (to_left n)"
    by (simp_all add: link_inv_def)
  have "lane sb (hasty_left n) (joined n) (right n) (backed_step sb rt (left n) (Drain k)) (to_left n)"
    by (rule lane_step [OF inv(3) assms(2) _ inv(1)]) (use depart in \<open>auto simp: credible_def\<close>)
  with depart lane_drain [OF inv(2) depart(1), of rt k] show ?case
    by (simp add: link_inv_def backed_step_inv)
next
  case (arrive n f fs)
  then have inv: "backed_inv sb (left n)" "lane sb (hasty_right n) (joined n) (left n) (right n) (to_right n)"
      "lane sb (hasty_left n) (joined n) (right n) (left n) (packet_frame f # fs)"
    by (simp_all add: link_inv_def)
  have "sends sb (left n) (backed_step sb rt (left n) (Frame_recv (Some (Inr f))))"
    by (rule sends_same)
      (use arrive(3,4) in \<open>auto simp: backed_step_def select_step_def environment_step_def backed_frame written_frame dest: live_after\<close>)
  moreover have "lane sb (hasty_left n) (joined n) (right n) (backed_step sb rt (left n) (Frame_recv (Some (Inr f)))) fs"
    by (rule lane_arrive [OF inv(3) assms(2) _ inv(1) arrive(3,4)]) (use arrive in \<open>simp add: credible_def\<close>)
  ultimately show ?case
    using arrive lane_writer [OF inv(2)] by (simp add: link_inv_def backed_step_inv)
next
  case (fail n st i a)
  then show ?case
    using lane_writer [OF _ sends_failed [OF fail(1,2), of sb]] lane_failed [OF _ assms(2) _ _ fail(1,2)]
    by (simp add: link_inv_def credible_def backed_step_inv)
next
  case (half i a n r st)
  let ?s = "backed_step sb rt (left n) (recovering st i a)"
  have "lane sb (hasty_left n \<or> inbox (left n) \<noteq> []) False (right n) ?s []"
    by (rule lane_recovered [OF assms(2,3) _ _ _ half(1) refl]) (use half in \<open>auto simp: link_inv_def credible_def\<close>)
  moreover have "lane sb (hasty_right n) False ?s (right n) []"
    by (rule lane_unjoined) (use half in \<open>auto simp: link_inv_def recover_step_parts [OF refl]\<close>)
  ultimately show ?case using half by (simp add: link_inv_def backed_step_inv)
next
  case (rejoin i a n r st i' a' r' st')
  let ?s = "backed_step sb rt (left n) (recovering st i a)" and ?s' = "backed_step sb rt (right n) (recovering st' i' a')"
  have inv: "backed_inv sb (left n)" "backed_inv sb (right n)" using rejoin by (simp_all add: link_inv_def)
  have "lane sb (hasty_left n \<or> inbox (left n) \<noteq> []) True ?s' ?s []"
    by (rule lane_recovered [OF assms(2,3) inv(2,1) _ rejoin(1) refl])
      (use rejoin in \<open>auto simp: link_inv_def credible_def recover_step_parts [OF refl] dest: recovered_queue [OF assms(3) inv(2,1) rejoin(2)]\<close>)
  moreover have "lane sb (hasty_right n \<or> inbox (right n) \<noteq> []) True ?s ?s' []"
    by (rule lane_recovered [OF assms(2,3) inv _ rejoin(2) refl])
      (use rejoin in \<open>auto simp: link_inv_def credible_def recover_step_parts [OF refl] dest: recovered_queue [OF assms(3) inv rejoin(1)]\<close>)
  ultimately show ?case using inv by (simp add: link_inv_def backed_step_inv)
qed simp

end
