(* ===== verification/Link_Spec.thy ===== *)
theory Link_Spec
  imports Link
begin

text \<open>
  The properties of two ends and the network between them: every step is a step of two reliable
  channels, no end that is not hasty takes the other's packets for forgeries, and as long as no end has
  been hasty and the backups reach far enough, whatever has happened can be made good.
\<close>

section \<open>Reliable channels\<close>

text \<open>What was put in and what was got out, and two of these, one for each direction.\<close>

inductive chan_step :: "'a list \<times> 'a list \<Rightarrow> 'a list \<times> 'a list \<Rightarrow> bool" where
  put: "chan_step (xs, ys) (xs @ [x], ys)"
| get: "length ys < length xs \<Longrightarrow> chan_step (xs, ys) (xs, ys @ [xs ! length ys])"

inductive duplex_step :: "('a list \<times> 'a list) \<times> ('b list \<times> 'b list) \<Rightarrow> ('a list \<times> 'a list) \<times> ('b list \<times> 'b list) \<Rightarrow> bool" where
  rightward: "chan_step c c' \<Longrightarrow> duplex_step (c, d) (c', d)"
| leftward: "chan_step d d' \<Longrightarrow> duplex_step (c, d) (c, d')"

lemma chan_puts: "chan_step\<^sup>*\<^sup>* (xs, ys) (xs @ zs, ys)"
proof (induction zs rule: rev_induct)
  case (snoc z zs)
  with chan_step.put [of "xs @ zs" ys z] show ?case by simp
qed simp

lemma chan_gets: "prefix (ys @ zs) xs \<Longrightarrow> chan_step\<^sup>*\<^sup>* (xs, ys) (xs, ys @ zs)"
proof (induction zs rule: rev_induct)
  case (snoc z zs)
  from snoc.prems obtain ws where ws: "xs = ys @ zs @ [z] @ ws" by (auto simp: prefix_def)
  then have "prefix (ys @ zs) xs" and "length (ys @ zs) < length xs" and "xs ! length (ys @ zs) = z"
    by (simp_all add: prefix_def nth_append)
  with snoc.IH chan_step.get [of "ys @ zs" xs] show ?case by simp
qed simp

lemma chan_steps: "prefix (ys @ ys') (xs @ xs') \<Longrightarrow> chan_step\<^sup>*\<^sup>* (xs, ys) (xs @ xs', ys @ ys')"
  using chan_puts chan_gets by (rule rtranclp_trans)

lemma duplex_steps: "chan_step\<^sup>*\<^sup>* c c' \<Longrightarrow> chan_step\<^sup>*\<^sup>* d d' \<Longrightarrow> duplex_step\<^sup>*\<^sup>* (c, d) (c', d')"
proof -
  have "duplex_step\<^sup>*\<^sup>* (c, d) (c', d)" if "chan_step\<^sup>*\<^sup>* c c'" for c c' :: "'a list \<times> 'a list" and d :: "'b list \<times> 'b list"
    using that by (induction rule: rtranclp_induct) (auto intro: rtranclp.rtrancl_into_rtrancl rightward)
  moreover have "duplex_step\<^sup>*\<^sup>* (c, d) (c, d')" if "chan_step\<^sup>*\<^sup>* d d'" for c :: "'a list \<times> 'a list" and d d' :: "'b list \<times> 'b list"
    using that by (induction rule: rtranclp_induct) (auto intro: rtranclp.rtrancl_into_rtrancl leftward)
  ultimately show "chan_step\<^sup>*\<^sup>* c c' \<Longrightarrow> chan_step\<^sup>*\<^sup>* d d' \<Longrightarrow> duplex_step\<^sup>*\<^sup>* (c, d) (c', d')"
    by (rule rtranclp_trans)
qed

text \<open>A channel never gives out what was not put in, nor in another order.\<close>

lemma chan_prefix: "chan_step\<^sup>*\<^sup>* ([], []) c \<Longrightarrow> prefix (snd c) (fst c)"
proof (induction rule: rtranclp_induct)
  case (step c c')
  from step.hyps(2) step.IH show ?case
    by cases (auto simp: prefix_def nth_append neq_Nil_conv)
qed simp

section \<open>What a link carries\<close>

definition carried :: "link \<Rightarrow> (Packet list \<times> Packet list) \<times> (Packet list \<times> Packet list)" where
  "carried n =
     ((map plain (written (left n)), packets_of (events (right n))),
      (map plain (written (right n)), packets_of (events (left n))))"

lemma lane_prefix:
  assumes "lane sb hb j w r pipe" and "backed_inv sb r"
  shows "prefix (packets_of (events r)) (map plain (written w))"
proof -
  from lane_honest [OF assms(1)] have "map plain (take (length (accepted r)) (written w)) = accepted r"
    by (simp add: honest_def heeds_def)
  then have "prefix (accepted r) (map plain (written w))" by (metis take_is_prefix take_map)
  moreover from assms(2) have "prefix (packets_of (events r)) (accepted r)"
    by (auto simp: backed_inv_def delivery_inv_def)
  ultimately show ?thesis by (rule prefix_order.trans [rotated])
qed

text \<open>Each end moves by one step of its task, or stays.\<close>

definition end_moves :: "BackedActor \<Rightarrow> BackedActor \<Rightarrow> bool" where
  "end_moves s s' \<longleftrightarrow> (\<exists>new out. written s' = written s @ new \<and> events s' = events s @ out)"

lemma end_moves_step: "end_moves s (backed_step sb rt s e)" "end_moves s s"
  using backed_step_written [of sb rt s e] events_grow [of sb rt s e] by (auto simp: end_moves_def)

lemma link_step_moves:
  "link_step sb rt n n' \<Longrightarrow> end_moves (left n) (left n') \<and> end_moves (right n) (right n')"
  by (induction rule: link_step.induct) (simp_all add: end_moves_step mirror_def)

lemma link_step_carried:
  assumes "link_step sb rt n n'" and "link_inv sb n'"
  shows "duplex_step\<^sup>*\<^sup>* (carried n) (carried n')"
proof -
  from link_step_moves [OF assms(1)] obtain xs xs' ys ys' where
    "written (left n') = written (left n) @ xs" "events (left n') = events (left n) @ xs'"
    "written (right n') = written (right n) @ ys" "events (right n') = events (right n) @ ys'"
    by (auto simp: end_moves_def)
  moreover have "prefix (packets_of (events (right n'))) (map plain (written (left n')))"
    "prefix (packets_of (events (left n'))) (map plain (written (right n')))"
    using assms(2) by (auto simp: link_inv_def intro: lane_prefix)
  ultimately show ?thesis
    unfolding carried_def by (auto intro!: duplex_steps chan_steps)
qed

text \<open>
  An end that ends for a packet it could not open says so in \<^verbatim>\<open>dead_sent\<close>, and a task at its \<^verbatim>\<open>select!\<close> has
  delivered its inbox, unless its consumer is gone.
\<close>

definition task_inv :: "BackedActor \<Rightarrow> bool" where
  "task_inv s \<longleftrightarrow>
     (pc s = Dying DR_CryptoMismatch \<or> Ev_Dead DR_CryptoMismatch \<in> set (events s) \<longrightarrow> dead_sent s) \<and>
     (pc s = AtSelect \<longrightarrow> inbox s = [] \<or> consumer_gone s)"

definition no_mismatch :: "BackedActor \<Rightarrow> bool" where
  "no_mismatch s \<longleftrightarrow> (Ev_Dead DR_CryptoMismatch \<in> set (events s) \<longrightarrow> dead_sent s)"

lemma task_inv_deliver: "no_mismatch s \<Longrightarrow> task_inv (deliver_inbox sb s)"
  by (auto simp: no_mismatch_def task_inv_def deliver_inbox_def run_loop_def run_end_def die_crypto_mismatch_def Let_def
      split: list.split option.split sum.split prod.split)

lemma task_inv_after: "no_mismatch s \<Longrightarrow> task_inv (after_select sb s)"
  using task_inv_deliver by (auto simp: after_select_def run_end_def Let_def no_mismatch_def task_inv_def)

lemma task_inv_done:
  assumes "no_mismatch s" and "ok \<or> shutting_down s \<or> consumer_gone s"
  shows "task_inv (send_event_done sb ev ok s)"
  using assms task_inv_deliver [OF assms(1)]
  by (auto simp: send_event_done_def run_loop_def run_end_def Let_def no_mismatch_def task_inv_def split: BackedEvent.split)

lemma task_inv_environment [simp]: "task_inv (environment_step e s) = task_inv s"
  by (simp add: task_inv_def environment_step_def split: stimulus.split)

lemma task_inv_step:
  assumes "task_inv s" and "dead_inv s"
  shows "task_inv (backed_step sb rt s e)"
proof -
  have nm: "no_mismatch s" using assms(1) by (simp add: task_inv_def no_mismatch_def)
  then have frame: "no_mismatch (handle_cmd sb rt c s)" "no_mismatch (keepalive_tick sb s)" "no_mismatch (close_current_socket s)"
      "no_mismatch (s\<lparr>inbox := i\<rparr>)" "no_mismatch (s\<lparr>consumer_gone := b\<rparr>)" for c i b
    by (simp_all add: no_mismatch_def backed_frame)
  show ?thesis
  proof (cases "pc s")
    case AtSelect
    with assms(1) frame show ?thesis
      by (cases e) (auto simp: backed_step_def select_step_def intro!: task_inv_after split: option.split sum.split)
  next
    case (Sending ev)
    then have sent: "task_inv (handle_cmd sb rt c s)" if "\<not> shutting_down (handle_cmd sb rt c s)" for c
      using assms(1) by (auto simp: task_inv_def backed_frame)
    have "no_mismatch (s\<lparr>events := events s @ [ev]\<rparr>)" using nm assms(2) Sending by (auto simp: no_mismatch_def dead_inv_def)
    with Sending assms(1) frame sent show ?thesis
      by (cases e) (auto simp: backed_step_def sending_step_def log_event_def Let_def intro!: task_inv_done)
  next
    case (Dying r)
    with assms(1) have "task_inv (dying_step r e s)"
      by (cases e) (auto simp: dying_step_def log_event_def task_inv_def Let_def)
    with Dying show ?thesis by (simp add: backed_step_def)
  qed (use assms(1) in \<open>simp add: backed_step_def\<close>)
qed


definition linked :: "secretbox \<Rightarrow> buffa \<Rightarrow> link \<Rightarrow> bool" where
  "linked sb rt n \<longleftrightarrow>
     secretbox_ok sb \<and> buffa_ok rt \<and> link_inv sb n \<and>
     task_inv (left n) \<and> dead_inv (left n) \<and> task_inv (right n) \<and> dead_inv (right n)"

lemma link_step_tasks:
  "link_step sb rt n n' \<Longrightarrow> task_inv (left n) \<Longrightarrow> dead_inv (left n) \<Longrightarrow> task_inv (right n) \<Longrightarrow> dead_inv (right n) \<Longrightarrow>
    task_inv (left n') \<and> dead_inv (left n') \<and> task_inv (right n') \<and> dead_inv (right n')"
  by (induction rule: link_step.induct) (simp_all add: task_inv_step dead_inv_step mirror_def)

lemma linked_step: "link_step sb rt n n' \<Longrightarrow> credible sb n' \<Longrightarrow> linked sb rt n \<Longrightarrow> linked sb rt n'"
  using link_step_inv link_step_tasks unfolding linked_def by blast

text \<open>The steps of a link that stays credible; a run to a credible link has only these.\<close>

definition link_moves :: "secretbox \<Rightarrow> buffa \<Rightarrow> link \<Rightarrow> link \<Rightarrow> bool" where
  "link_moves sb rt n n' \<longleftrightarrow> link_step sb rt n n' \<and> credible sb n'"

lemma credible_run:
  assumes "(link_step sb rt)\<^sup>*\<^sup>* n n'" and "credible sb n'"
  shows "(link_moves sb rt)\<^sup>*\<^sup>* n n'"
  using assms
proof (induction rule: rtranclp_induct)
  case (step n1 n2)
  then have "credible sb n1" by (blast intro: credible_before link_step_later)
  with step show ?case by (meson link_moves_def rtranclp.rtrancl_into_rtrancl)
qed simp

lemma link_run_cfg:
  assumes "(link_step sb rt)\<^sup>*\<^sup>* n n'" and "cfg (left n) = c" and "cfg (right n) = d"
  shows "cfg (left n') = c \<and> cfg (right n') = d"
  using assms by (induction rule: rtranclp_induct) (auto dest!: link_step_later simp: later_link_def)

interpretation carries: simulation "link_moves sb rt" duplex_step "linked sb rt" carried for sb rt
proof
  fix sb rt n n'
  assume step: "link_moves sb rt n n'" and "linked sb rt n"
  then show "linked sb rt n'" by (auto simp: link_moves_def intro: linked_step)
  then show "duplex_step\<^sup>*\<^sup>* (carried n) (carried n')"
    using step by (intro link_step_carried) (auto simp: linked_def link_moves_def)
qed

text \<open>No end has been hasty.\<close>

definition steady :: "link \<Rightarrow> bool" where
  "steady n \<longleftrightarrow> \<not> hasty_left n \<and> \<not> hasty_right n"

lemma steady_credible: "steady n \<Longrightarrow> credible sb n"
  by (simp add: steady_def credible_def)

lemma steady_mirror [simp]: "steady (mirror n) = steady n"
  by (auto simp: steady_def mirror_def)

lemma steady_flows:
  assumes "linked sb rt n" and "steady n"
  shows "flows sb (joined n) (left n) (right n) (to_right n)" "flows sb (joined n) (right n) (left n) (to_left n)"
  using assms by (auto simp: linked_def link_inv_def lane_def steady_def)

lemma linked_run:
  assumes "(link_step sb rt)\<^sup>*\<^sup>* n n'" and "steady n'" and "linked sb rt n"
  shows "linked sb rt n'"
  by (rule carries.inv_steps [OF credible_run [OF assms(1) steady_credible [OF assms(2)]] assms(3)])

text \<open>Two new ends that share a key and write where the other reads.\<close>

definition matched :: "BackedConfig \<Rightarrow> BackedConfig \<Rightarrow> bool" where
  "matched c d \<longleftrightarrow> key c = key d \<and> reader_msb c = writer_msb d \<and> writer_msb c = reader_msb d"

definition fresh_link :: "BackedConfig \<Rightarrow> BackedConfig \<Rightarrow> nat \<Rightarrow> nat \<Rightarrow> tstream \<Rightarrow> tstream \<Rightarrow> link" where
  "fresh_link c d now now' st st' =
     \<lparr>left = backed_spawn c now st, right = backed_spawn d now' st', to_right = [], to_left = [], joined = True,
       hasty_left = False, hasty_right = False\<rparr>"

lemma fresh_linked:
  assumes "secretbox_ok sb" and "buffa_ok rt" and "matched c d"
  shows "linked sb rt (fresh_link c d now now' st st')"
proof -
  have "flows sb True (backed_spawn c now st) (backed_spawn d now' st') []" if "matched c d" for c d now now' st st'
    using that
    by (auto simp: flows_def feeds_def matched_def writer0_def backed_spawn_def BackedActor_new_def spawn_socket_tasks_def advanced_def
        sealed_all_def)
  moreover have "matched d c" using assms(3) by (auto simp: matched_def)
  moreover have "task_inv (backed_spawn c now st)" for c now st
    by (simp add: task_inv_def backed_spawn_def BackedActor_new_def)
  ultimately show ?thesis
    using assms by (simp add: linked_def link_inv_def fresh_link_def backed_spawn_inv backed_spawn_dead_inv lane_def)
qed


section \<open>Making good\<close>

text \<open>What taking events leaves as it was.\<close>

definition same_writer :: "BackedActor \<Rightarrow> BackedActor \<Rightarrow> bool" where
  "same_writer s s' \<longleftrightarrow> cfg s' = cfg s \<and> written s' = written s \<and> backup s' = backup s \<and> live s' = live s \<and>
     consumer_gone s' = consumer_gone s \<and> length (accepted s) \<le> length (accepted s')"

lemma same_writer_trans: "same_writer s s' \<Longrightarrow> same_writer s' s'' \<Longrightarrow> same_writer s s''"
  by (simp add: same_writer_def)

lemma same_writer_resend: "same_writer s s' \<Longrightarrow> can_resend sb rt s' k = can_resend sb rt s k"
  by (simp add: same_writer_def can_resend_def missing_def history_def)

lemma same_writer_deliver: "running (deliver_inbox sb s) \<Longrightarrow> same_writer s (deliver_inbox sb s)"
  by (auto simp: same_writer_def deliver_inbox_def run_loop_def run_end_def die_crypto_mismatch_def running_def Let_def
      split: list.splits option.splits if_splits sum.splits prod.splits)

lemma take_event:
  assumes "pc s = Sending ev" and "\<not> consumer_gone s"
  shows "backed_step sb rt s (Event_sent True) = deliver_inbox sb (log_event ev s)"
  using assms by (simp add: backed_step_def sending_step_def environment_step_def send_event_done_def split: BackedEvent.split)

text \<open>An end whose consumer takes events comes to have delivered its inbox.\<close>

lemma drains:
  assumes "secretbox_ok sb" and "feeds sb h ps s tail" and "running s" and "\<not> consumer_gone s" and "\<not> shutting_down s"
    and "pc s = AtSelect \<Longrightarrow> inbox s = []"
  shows "\<exists>m. let s' = backed_run sb rt s (replicate m (Event_sent True)) in
    pc s' = AtSelect \<and> inbox s' = [] \<and> same_writer s s'"
  using assms(2-)
proof (induction "length (inbox s)" arbitrary: s rule: less_induct)
  case less
  show ?case
  proof (cases "pc s = AtSelect")
    case True
    with less.prems show ?thesis
      by (intro exI [of _ 0]) (simp add: backed_run_def same_writer_def)
  next
    case False
    with less.prems(2) obtain ev where ev: "pc s = Sending ev" by (auto simp: running_def)
    let ?s = "log_event ev s" and ?d = "deliver_inbox sb (log_event ev s)"
    have step: "backed_step sb rt s (Event_sent True) = ?d" using take_event [OF ev less.prems(3)] .
    have same: "same_writer s ?d" if "running ?d"
      using same_writer_deliver [OF that] by (simp add: same_writer_def log_event_def)
    show ?thesis
    proof (cases "inbox s")
      case Nil
      then have "pc ?d = AtSelect" "inbox ?d = []"
        using less.prems(4) by (simp_all add: deliver_inbox_def run_loop_def log_event_def)
      with same show ?thesis
        by (intro exI [of _ 1]) (simp add: backed_run_def step running_def)
    next
      case (Cons f fs)
      from less.prems(1) have fd: "feeds sb h ps ?d tail" by (intro feeds_deliver [OF assms(1)]) (simp add: log_event_def)
      have "feeds sb h ps ?s tail" "inbox ?s = f # fs" using less.prems(1) Cons by (simp_all add: log_event_def)
      from feeds_next(3) [OF assms(1) this refl] less.prems(4) obtain p where
        p: "pc ?d = Sending (Ev_Packet p)" "inbox ?d = fs" "\<not> shutting_down ?d" by (simp add: log_event_def)
      then have r: "running ?d" by (simp add: running_def)
      have "\<exists>m. let s' = backed_run sb rt ?d (replicate m (Event_sent True)) in pc s' = AtSelect \<and> inbox s' = [] \<and> same_writer ?d s'"
        by (rule less.hyps) (use Cons p r fd same [OF r] less.prems(3) in \<open>simp_all add: same_writer_def\<close>)
      then obtain m where "let s' = backed_run sb rt ?d (replicate m (Event_sent True)) in pc s' = AtSelect \<and> inbox s' = [] \<and> same_writer ?d s'" ..
      with same [OF r] show ?thesis
        by (intro exI [of _ "Suc m"]) (auto simp: backed_run_def step Let_def intro: same_writer_trans)
    qed
  qed
qed


text \<open>The same, in the link.\<close>

lemma link_steps_other: "(link_step sb rt)\<^sup>*\<^sup>* (mirror n) n' \<Longrightarrow> (link_step sb rt)\<^sup>*\<^sup>* n (mirror n')"
proof (induction rule: rtranclp_induct)
  case (step y z)
  have "link_step sb rt (mirror y) (mirror z)" by (rule link_step.other) (simp add: step.hyps(2))
  with step.IH show ?case by (rule rtranclp.rtrancl_into_rtrancl)
qed simp

lemma link_local_run:
  "list_all quiet es \<Longrightarrow> (link_step sb rt)\<^sup>*\<^sup>* n (n\<lparr>left := backed_run sb rt (left n) es\<rparr>)"
proof (induction es arbitrary: n)
  case (Cons e es)
  let ?n = "n\<lparr>left := backed_step sb rt (left n) e\<rparr>"
  have "link_step sb rt n ?n" by (rule link_step.local) (use Cons.prems in simp)
  moreover have "(link_step sb rt)\<^sup>*\<^sup>* ?n (n\<lparr>left := backed_run sb rt (left n) (e # es)\<rparr>)"
    using Cons.IH [of ?n] Cons.prems by (simp add: backed_run_def)
  ultimately show ?case by (rule converse_rtranclp_into_rtranclp)
qed (simp add: backed_run_def)

definition at_work :: "BackedActor \<Rightarrow> bool" where
  "at_work s \<longleftrightarrow> running s \<and> \<not> consumer_gone s"

definition caught_up :: "BackedActor \<Rightarrow> bool" where
  "caught_up s \<longleftrightarrow> pc s = AtSelect \<and> inbox s = []"

lemma link_drains_left:
  assumes "linked sb rt n" and "steady n" and "at_work (left n)"
  shows "\<exists>s. (link_step sb rt)\<^sup>*\<^sup>* n (n\<lparr>left := s\<rparr>) \<and> caught_up s \<and> same_writer (left n) s"
proof -
  from assms(1) steady_flows(2) [OF assms(1,2)] obtain tail where
    "secretbox_ok sb" "feeds sb (writer0 (cfg (right n))) (written (right n)) (left n) tail"
    by (auto simp: linked_def flows_def)
  from drains [OF this, of rt] assms obtain m where
    m: "let s = backed_run sb rt (left n) (replicate m (Event_sent True)) in pc s = AtSelect \<and> inbox s = [] \<and> same_writer (left n) s"
    by (auto simp: at_work_def linked_def link_inv_def backed_inv_def task_inv_def)
  have "list_all quiet (replicate m (Event_sent True))" by (simp add: list_all_iff quiet_def)
  from link_local_run [OF this] m show ?thesis by (auto simp: caught_up_def Let_def)
qed

lemma linked_mirror [simp]: "linked sb rt (mirror n) = linked sb rt n"
  by (auto simp: linked_def) (simp_all add: mirror_def)

lemma link_drains:
  assumes "linked sb rt n" and "steady n" and "at_work (left n)" and "at_work (right n)"
  shows "\<exists>s s'. (link_step sb rt)\<^sup>*\<^sup>* n (n\<lparr>left := s, right := s'\<rparr>) \<and>
    caught_up s \<and> same_writer (left n) s \<and> caught_up s' \<and> same_writer (right n) s'"
proof -
  from link_drains_left [OF assms(1-3)] obtain s where
    s: "(link_step sb rt)\<^sup>*\<^sup>* n (n\<lparr>left := s\<rparr>)" "caught_up s" "same_writer (left n) s" by blast
  let ?n = "n\<lparr>left := s\<rparr>"
  have st: "steady ?n" using assms(2) by (simp add: steady_def)
  then have "linked sb rt (mirror ?n)" "steady (mirror ?n)" using linked_run [OF s(1) _ assms(1)] by simp_all
  from link_drains_left [OF this] assms(4) obtain s' where
    s': "(link_step sb rt)\<^sup>*\<^sup>* (mirror ?n) (mirror ?n\<lparr>left := s'\<rparr>)" "caught_up s'" "same_writer (right n) s'"
    by (auto simp: mirror_def)
  have "mirror (mirror ?n\<lparr>left := s'\<rparr>) = n\<lparr>left := s, right := s'\<rparr>" by (simp add: mirror_def)
  with link_steps_other [OF s'(1)] s(1) have "(link_step sb rt)\<^sup>*\<^sup>* n (n\<lparr>left := s, right := s'\<rparr>)" by simp
  with s s' show ?thesis by blast
qed


text \<open>There is always a socket over which two ends can recover.\<close>

lemma joins_exists: "\<exists>st. joins sb rt i a s peer r st"
proof
  let ?st = "\<lparr>t_in = feed (exchange_bytes sb rt peer (length (accepted s))) r,
    t_out = \<lparr>wr_out = [], wr_room = None, wr_err = UnexpectedEof\<rparr>,
    t_delays = replicate (exchange_steps rt s (header_frame rt peer) (missing sb s (length (accepted peer)))
      (missing sb peer (length (accepted s)))) 0, t_now = 0\<rparr>"
  show "joins sb rt i a s peer r ?st"
    by (simp add: joins_def prompt_def list_all_iff sum_list_replicate)
qed

lemma recover_at_work:
  assumes "secretbox_ok sb" and "buffa_ok rt" and "backed_inv sb s" and "backed_inv sb peer"
    and "recovers sb rt i a s peer r st" and "feeds sb (writer0 (cfg peer)) (written peer) s tail"
    and "caught_up s" and "\<not> consumer_gone s" and "s' = backed_step sb rt s (recovering st i a)"
  shows "at_work s'" "live s' \<noteq> None"
proof -
  let ?h = "handle_cmd sb rt (Some (Cmd_Recover st i a)) s"
  have j: "running s" "can_resend sb rt s (length (accepted peer))" "can_resend sb rt peer (length (accepted s))"
      "joins sb rt i a s peer r st" "inbox s = []"
    using assms(5) by (simp_all add: recovers_def)
  note rec = recover_joined [OF assms(2-4) j(2-4)]
  have nsd: "\<not> shutting_down ?h" using assms(3) j(1) by (simp add: backed_inv_def handle_cmd_split backed_frame)
  have s': "s' = after_select sb ?h"
    using assms(7,9) by (simp add: caught_up_def backed_step_def select_step_def environment_step_def)
  have fd: "feeds sb (writer0 (cfg peer)) (written peer) ?h []"
    using assms(6) j(5) rec(2) by (simp add: feeds_def missing_def history_def handle_cmd_split backed_frame)
  have run: "running s'"
  proof (cases "inbox ?h")
    case Nil
    with nsd show ?thesis
      by (simp add: s' after_select_def deliver_inbox_def run_loop_def running_def)
  next
    case (Cons f fs)
    from feeds_next(3) [OF assms(1) fd this refl] nsd show ?thesis
      by (simp add: s' after_select_def running_def)
  qed
  moreover have "\<not> consumer_gone s'"
    using consumer_step [of "recovering st i a" sb rt s] assms(8,9) by auto
  ultimately show "at_work s'" by (simp add: at_work_def)
  show "live s' \<noteq> None"
    using after_select_running(1) [of sb ?h] run rec(3) by (simp add: s' handle_cmd_split)
qed

text \<open>With both ends caught up on a joined link with nothing on the way, everything has been delivered.\<close>

lemma feeds_complete:
  assumes "feeds sb h ps r []" and "backed_inv sb r" and "caught_up r" and "\<not> consumer_gone r"
  shows "packets_of (events r) = map plain ps"
proof -
  from assms(1,3) have "length ps \<le> length (accepted r)" by (simp add: feeds_def caught_up_def)
  with assms(1) have "map plain ps = accepted r" by (simp add: feeds_def)
  moreover from assms(2-4) have "accepted r = packets_of (events r)"
    by (auto simp: backed_inv_def delivery_inv_def running_def parked_def caught_up_def)
  ultimately show ?thesis by simp
qed

lemma flows_complete:
  assumes "flows sb True w r []" and "backed_inv sb r" and "live w = Some l" and "write_q l = []"
    and "caught_up r" and "\<not> consumer_gone r"
  shows "packets_of (events r) = map plain (written w)"
  using assms by (intro feeds_complete) (auto simp: flows_def caught_up_def)


text \<open>Whatever one end may still have to resend, it can.\<close>

definition can_make_good :: "secretbox \<Rightarrow> buffa \<Rightarrow> BackedActor \<Rightarrow> BackedActor \<Rightarrow> bool" where
  "can_make_good sb rt s peer \<longleftrightarrow>
     list_all (can_resend sb rt s) [length (accepted peer)..<Suc (length (written s))]"

lemma link_rejoins:
  assumes "linked sb rt n" and "steady n" and "caught_up (left n)" and "\<not> consumer_gone (left n)" and "caught_up (right n)" and "\<not> consumer_gone (right n)"
    and "can_make_good sb rt (left n) (right n)" and "can_make_good sb rt (right n) (left n)"
  shows "\<exists>s s' l l'. let n' = \<lparr>left = s, right = s', to_right = [], to_left = [], joined = True,
      hasty_left = False, hasty_right = False\<rparr> in
    link_step sb rt n n' \<and> at_work s \<and> at_work s' \<and> written s = written (left n) \<and> written s' = written (right n) \<and>
    live s = Some l \<and> write_q l = [] \<and> live s' = Some l' \<and> write_q l' = []"
proof -
  have ok: "secretbox_ok sb" "buffa_ok rt" and inv: "backed_inv sb (left n)" "backed_inv sb (right n)"
    using assms(1) by (auto simp: linked_def link_inv_def)
  obtain t t' where fd: "feeds sb (writer0 (cfg (left n))) (written (left n)) (right n) t"
      "feeds sb (writer0 (cfg (right n))) (written (right n)) (left n) t'"
    using steady_flows [OF assms(1,2)] by (auto simp: flows_def)
  have resend: "can_resend sb rt (left n) (length (accepted (right n)))" "can_resend sb rt (right n) (length (accepted (left n)))"
    using assms(7,8) feeds_length [OF fd(1)] feeds_length [OF fd(2)] by (auto simp: can_make_good_def list_all_iff)
  obtain st st' where "joins sb rt 0 0 (left n) (right n) (t_in sample_stream) st"
      "joins sb rt 0 0 (right n) (left n) (t_in sample_stream) st'"
    using joins_exists by meson
  with resend assms(3,5) have rec: "recovers sb rt 0 0 (left n) (right n) (t_in sample_stream) st"
      "recovers sb rt 0 0 (right n) (left n) (t_in sample_stream) st'"
    by (simp_all add: recovers_def caught_up_def running_def)
  let ?s = "backed_step sb rt (left n) (recovering st 0 0)" and ?s' = "backed_step sb rt (right n) (recovering st' 0 0)"
  note w = recover_at_work [OF ok inv rec(1) fd(2) assms(3,4) refl] and w' = recover_at_work [OF ok inv(2,1) rec(2) fd(1) assms(5,6) refl]
  from w(2) w'(2) obtain l l' where l: "live ?s = Some l" "live ?s' = Some l'" by auto
  have meets: "meets sb rt 0 0 (left n) (right n) (t_in sample_stream) st" "meets sb rt 0 0 (right n) (left n) (t_in sample_stream) st'"
    and inbox: "inbox (left n) = []" "inbox (right n) = []"
    using rec by (simp_all add: recovers_meets)
  have "write_q l = []" "write_q l' = []"
    using recovered_queue [OF ok(2) inv meets(1) l(1)] recovered_queue [OF ok(2) inv(2,1) meets(2) l(2)] by simp_all
  moreover have "link_step sb rt n \<lparr>left = ?s, right = ?s', to_right = [], to_left = [], joined = True, hasty_left = False, hasty_right = False\<rparr>"
    using link_step.rejoin [OF meets] inbox assms(2) by (simp add: steady_def)
  ultimately show ?thesis using w(1) w'(1) l recover_step_parts(2) [OF refl]
    by (intro exI [of _ ?s] exI [of _ ?s'] exI [of _ l] exI [of _ l']) (simp add: Let_def)
qed

lemma link_makes_good:
  assumes "linked sb rt n" and "steady n" and "at_work (left n)" and "at_work (right n)"
    and "can_make_good sb rt (left n) (right n)" and "can_make_good sb rt (right n) (left n)"
  shows "\<exists>n'. (link_step sb rt)\<^sup>*\<^sup>* n n' \<and> joined n' \<and> steady n' \<and> live (left n') \<noteq> None \<and> live (right n') \<noteq> None \<and>
    carried n' = ((map plain (written (left n)), map plain (written (left n))), (map plain (written (right n)), map plain (written (right n))))"
proof -
  from link_drains [OF assms(1-4)] obtain a b where
    1: "(link_step sb rt)\<^sup>*\<^sup>* n (n\<lparr>left := a, right := b\<rparr>)" "caught_up a" "same_writer (left n) a" "caught_up b" "same_writer (right n) b"
    by blast
  let ?n1 = "n\<lparr>left := a, right := b\<rparr>"
  have good: "can_make_good sb rt a b" "can_make_good sb rt b a"
    using assms(5,6) 1(3,5) same_writer_resend [OF 1(3), of sb rt] same_writer_resend [OF 1(5), of sb rt]
    by (auto simp: can_make_good_def list_all_iff same_writer_def)
  have s1: "steady ?n1" using assms(2) by (simp add: steady_def)
  have l1: "linked sb rt ?n1" by (rule linked_run [OF 1(1) s1 assms(1)])
  have gone: "\<not> consumer_gone a" "\<not> consumer_gone b" using assms(3,4) 1(3,5) by (simp_all add: at_work_def same_writer_def)
  from link_rejoins [OF l1 s1] 1(2,4) gone good obtain s s' l l' where
    2: "link_step sb rt ?n1 \<lparr>left = s, right = s', to_right = [], to_left = [], joined = True, hasty_left = False, hasty_right = False\<rparr>"
      "at_work s" "at_work s'" "written s = written a" "written s' = written b"
      "live s = Some l" "write_q l = []" "live s' = Some l'" "write_q l' = []"
    by (auto simp: Let_def)
  let ?n2 = "\<lparr>left = s, right = s', to_right = [], to_left = [], joined = True, hasty_left = False, hasty_right = False\<rparr>"
  have s2: "steady ?n2" by (simp add: steady_def)
  have l2: "linked sb rt ?n2" by (rule linked_step [OF 2(1) steady_credible [OF s2] l1])
  from link_drains [OF l2 s2] 2(2,3) obtain c d where
    3: "(link_step sb rt)\<^sup>*\<^sup>* ?n2 (?n2\<lparr>left := c, right := d\<rparr>)" "caught_up c" "same_writer s c" "caught_up d" "same_writer s' d"
    by auto
  let ?n3 = "?n2\<lparr>left := c, right := d\<rparr>"
  have s3: "steady ?n3" by (simp add: steady_def)
  have l3: "linked sb rt ?n3" by (rule linked_run [OF 3(1) s3 l2])
  then have f: "flows sb True c d []" "flows sb True d c []" "backed_inv sb c" "backed_inv sb d"
    using steady_flows [OF l3 s3] by (simp_all add: linked_def link_inv_def)
  have cd: "live c = Some l" "live d = Some l'" "\<not> consumer_gone c" "\<not> consumer_gone d"
    using 2 3(3,5) by (auto simp: same_writer_def at_work_def)
  note all = flows_complete [OF f(1,4) cd(1) 2(7) 3(4) cd(4)] flows_complete [OF f(2,3) cd(2) 2(9) 3(2) cd(3)]
  have "(link_step sb rt)\<^sup>*\<^sup>* n ?n3" using 1(1) 2(1) 3(1) by (meson rtranclp.rtrancl_into_rtrancl rtranclp_trans)
  moreover have "written c = written (left n)" "written d = written (right n)"
    using 1(3,5) 2 3(3,5) by (simp_all add: same_writer_def)
  ultimately show ?thesis
    using all cd s3 by (intro exI [of _ ?n3]) (simp add: carried_def)
qed


section \<open>Properties\<close>

definition sample_link :: link where
  "sample_link = (let n = fresh_link server_cfg sample_cfg 0 0 sample_stream sample_stream in
     n\<lparr>left := backed_step sum_box wire (left n) (Cmd_recv (Some (Cmd_Write 1 [5])))\<rparr>)"

lemma sample_matched: "matched server_cfg sample_cfg"
  by (simp add: matched_def server_cfg_def sample_cfg_def)

lemma sample_link_reached:
  "(link_step sum_box wire)\<^sup>*\<^sup>* (fresh_link server_cfg sample_cfg 0 0 sample_stream sample_stream) sample_link"
  unfolding sample_link_def Let_def by (rule r_into_rtranclp, rule link_step.local) (simp add: quiet_def)

lemma sample_link_steady: "steady sample_link"
  by (simp add: steady_def sample_link_def fresh_link_def Let_def)

lemma sample_link_left:
  "written (left sample_link) = [(1, [5])]" "backup (left sample_link) = [server_packet]" "at_work (left sample_link)"
  "cfg (left sample_link) = server_cfg" "accepted (left sample_link) = []" "inbox (left sample_link) = []"
proof -
  let ?s = "backed_spawn server_cfg 0 sample_stream"
  have w: "writer_inv sum_box ?s" using backed_spawn_inv [of sum_box server_cfg 0 sample_stream] by (simp add: backed_inv_def)
  have len: "length server_packet = 19" by (simp add: length_sealed_packet_18 [OF secretbox_ok_sum_box])
  have q: "try_send (spawn_socket_tasks sample_stream) f \<noteq> None" for f
    by (simp add: try_send_def spawn_socket_tasks_def WRITE_QUEUE_DEPTH_def)
  have t: "trim_backup [server_packet] 19 = ([server_packet], 19)"
    by (subst trim_backup.simps) (simp add: MAX_BACKUP_BYTES_def)
  have eq: "left sample_link = after_select sum_box (handle_cmd sum_box wire (Some (Cmd_Write 1 [5])) ?s)"
    by (simp add: sample_link_def fresh_link_def backed_step_def select_step_def environment_step_def backed_spawn_def BackedActor_new_def)
  have f: "live ?s = Some (spawn_socket_tasks sample_stream)" "disconnected_bytes ?s = None" "\<not> shutting_down ?s" "written ?s = []"
    "cfg ?s = server_cfg" "backup ?s = []" "backup_size ?s = 0" "inbox ?s = []" "pc ?s = AtSelect" "accepted ?s = []"
    "\<not> consumer_gone ?s" "\<not> socket_down_pending ?s"
    by (simp_all add: backed_spawn_def BackedActor_new_def)
  from q obtain l where "try_send (spawn_socket_tasks sample_stream) (packet_frame server_packet) = Some l" by blast
  with f have "backed_write sum_box 1 [5] ?s =
      (Ok (), (trimmed (pushed sum_box 1 [5] ?s))\<lparr>live := Some l, last_activity := clock ?s\<rparr>)"
    by (simp add: backed_write_eq [OF w] over_budget_def Let_def)
  moreover have "trimmed (pushed sum_box 1 [5] ?s) = pushed sum_box 1 [5] ?s"
    using f t len by (simp add: trimmed_def pushed_def Let_def)
  ultimately have h: "handle_cmd sum_box wire (Some (Cmd_Write 1 [5])) ?s =
      (pushed sum_box 1 [5] ?s)\<lparr>live := Some l, last_activity := clock ?s, replies := replies ?s @ [Write_reply (Ok ())]\<rparr>"
    by (simp add: handle_cmd_split)
  show "written (left sample_link) = [(1, [5])]" "backup (left sample_link) = [server_packet]" "at_work (left sample_link)"
    "cfg (left sample_link) = server_cfg" "accepted (left sample_link) = []" "inbox (left sample_link) = []"
    unfolding eq h using f
    by (simp_all add: pushed_def after_select_def deliver_inbox_def run_loop_def at_work_def running_def Let_def)
qed


lemma sample_link_right:
  "written (right sample_link) = []" "accepted (right sample_link) = []"
  "at_work (right sample_link)"
  by (simp_all add: sample_link_def fresh_link_def backed_spawn_def BackedActor_new_def at_work_def running_def Let_def)

lemma sample_good:
  "can_make_good sum_box wire (left sample_link) (right sample_link)" "can_make_good sum_box wire (right sample_link) (left sample_link)"
proof -
  have len: "length server_packet = 19"
    by (simp add: length_sealed_packet_18 [OF secretbox_ok_sum_box])
  have u: "unknown_write_to wire [] = []"
    by (rule unknown_write_to_Nil [OF buffa_ok_wire])
  have c: "catchup_frame wire [] = []"
    by (simp add: catchup_frame_def write_to_CatchupBuffer_def CatchupBuffer_default_def u)
  have d: "length (catchup_frame wire [server_packet]) = 21"
    by (simp add: catchup_frame_def write_to_CatchupBuffer_def CatchupBuffer_default_def u wire_fields len
        put_delimited_def put_varint_small small_field_def)
  have m: "missing sum_box (left sample_link) 0 = [server_packet]" "missing sum_box (left sample_link) (Suc 0) = []"
    "missing sum_box (right sample_link) 0 = []"
    by (simp_all add: missing_def history_def sample_link_left sample_link_right sealed_all_def)
  show "can_make_good sum_box wire (left sample_link) (right sample_link)" "can_make_good sum_box wire (right sample_link) (left sample_link)"
    by (simp_all add: can_make_good_def can_resend_def m c d sample_link_left sample_link_right len wire_bytes_def wire_fields
        wire_limit_def proto_frame_ok_def DEFAULT_MAX_PROTO_LENGTH_def)
qed

text \<open>C5. A link is two reliable channels: whatever two ends with a common key do over a network that loses
  sockets and what is on them, but does not forge, with recoveries at both ends or at one and at any moment,
  every step of theirs is a sequence of steps of two channels, each of which gives out what was put in,
  once and in order, headers included. An end that has recovered only with its inbox delivered never takes a
  packet of the other for a forgery; one that has been hasty, with frames received but not yet
  delivered when it served a recovery, may end for that reason, and for what it accepts the primitive must
  not open a frame under the nonce of another packet.\<close>

theorem link_refines_channels:
  assumes "secretbox_ok sb" and "buffa_ok rt" and "matched c d"
    and "(link_step sb rt)\<^sup>*\<^sup>* (fresh_link c d now now' st st') n"
    and "hasty_left n \<Longrightarrow> unconfused sb (writer0 d) (written (right n))"
    and "hasty_right n \<Longrightarrow> unconfused sb (writer0 c) (written (left n))"
  shows "duplex_step\<^sup>*\<^sup>* (([], []), ([], [])) (carried n) \<and>
    (\<forall>n'. link_step sb rt n n' \<and> credible sb n' \<longrightarrow> duplex_step\<^sup>*\<^sup>* (carried n) (carried n')) \<and>
    (hasty_left n \<or> pc (left n) \<noteq> Dying DR_CryptoMismatch \<and> Ev_Dead DR_CryptoMismatch \<notin> set (events (left n))) \<and>
    (hasty_right n \<or> pc (right n) \<noteq> Dying DR_CryptoMismatch \<and> Ev_Dead DR_CryptoMismatch \<notin> set (events (right n)))"
proof -
  note fresh = fresh_linked [OF assms(1-3), of now now' st st']
  have "cfg (left n) = c \<and> cfg (right n) = d"
    using assms(4) by (rule link_run_cfg) (simp_all add: fresh_link_def)
  with assms(5,6) have "credible sb n" by (simp add: credible_def)
  note run = credible_run [OF assms(4) this]
  have l: "linked sb rt n" by (rule carries.inv_steps [OF run fresh])
  have "carried (fresh_link c d now now' st st') = (([], []), ([], []))"
    by (simp add: carried_def fresh_link_def backed_spawn_def BackedActor_new_def)
  with carries.simulates_steps [OF run fresh] have "duplex_step\<^sup>*\<^sup>* (([], []), ([], [])) (carried n)" by simp
  moreover have "hasty_left n \<or> \<not> dead_sent (left n)" "hasty_right n \<or> \<not> dead_sent (right n)" "task_inv (left n)" "task_inv (right n)"
    using l by (auto simp: linked_def link_inv_def lane_def flows_def feeds_def split: if_splits)
  ultimately show ?thesis
    using carries.simulates [OF _ l] by (auto simp: task_inv_def link_moves_def)
qed

theorem link_refines_channels_witness:
  "duplex_step\<^sup>*\<^sup>* (([], []), ([], [])) (carried sample_link) \<and> written (left sample_link) = [(1, [5])] \<and>
    pc (right sample_link) \<noteq> Dying DR_CryptoMismatch"
  using link_refines_channels [OF secretbox_ok_sum_box buffa_ok_wire sample_matched sample_link_reached] sample_link_left(1) sample_link_steady
  by (simp add: steady_def)

text \<open>C4. Whatever has happened can be made good: from every state that two ends and the network between them can
  reach in which both have recovered only with their inbox delivered (as the client's supervisor
  does; neither has been hasty), as long as both ends run, both consumers are there and the backups hold
  what is missing, there is a way on after which the ends are joined and each has delivered exactly what
  the other has written.\<close>

theorem link_always_recovers:
  assumes "secretbox_ok sb" and "buffa_ok rt" and "matched c d"
    and "(link_step sb rt)\<^sup>*\<^sup>* (fresh_link c d now now' st st') n" and "\<not> hasty_left n" and "\<not> hasty_right n"
    and "at_work (left n)" and "at_work (right n)"
    and "can_make_good sb rt (left n) (right n)" and "can_make_good sb rt (right n) (left n)"
  shows "\<exists>n'. (link_step sb rt)\<^sup>*\<^sup>* n n' \<and> joined n' \<and> steady n' \<and> live (left n') \<noteq> None \<and> live (right n') \<noteq> None \<and>
    carried n' = ((map plain (written (left n)), map plain (written (left n))), (map plain (written (right n)), map plain (written (right n))))"
proof -
  have "steady n" using assms(5,6) by (simp add: steady_def)
  with linked_run [OF assms(4) this fresh_linked [OF assms(1-3)]] assms(7-) show ?thesis by (intro link_makes_good)
qed

theorem link_always_recovers_witness:
  "\<exists>n'. (link_step sum_box wire)\<^sup>*\<^sup>* sample_link n' \<and> joined n' \<and> packets_of (events (right n')) = [Packet_new 1 [5]]"
  using link_always_recovers [OF secretbox_ok_sum_box buffa_ok_wire sample_matched sample_link_reached _ _ sample_link_left(3)
      sample_link_right(3) sample_good] sample_link_steady
  by (auto simp: sample_link_left carried_def plain_def steady_def)

end
