(* ===== verification/Client_Link.thy ===== *)
theory Client_Link
  imports Link_Spec
begin

text \<open>
  A client of \<^verbatim>\<open>client.rs\<close>, with its supervisor and its owner, and the server's end of its session, over the
  network of \<open>Link\<close>. Here it is the supervisor that recovers, over the socket its handshake gave it,
  and what it finds is an inbox that has been delivered: so the client and the server are a link,
  and the link is two reliable channels.
\<close>

section \<open>The system\<close>

record client_link =
  cl_client :: EtClient
  cl_server :: BackedActor
  cl_to_server :: "bytes list"
  cl_to_client :: "bytes list"
  cl_joined :: bool

definition link_of :: "client_link \<Rightarrow> link" where
  "link_of n = \<lparr>left = backed (cl_client n), right = cl_server n, to_right = cl_to_server n, to_left = cl_to_client n,
     joined = cl_joined n, hasty_left = False, hasty_right = False\<rparr>"

lemma steady_link_of [simp]: "steady (link_of n)"
  by (simp add: steady_def link_of_def)

text \<open>Whatever the client does by itself: no data comes from the network or goes to it, and no recovery is served.\<close>

definition calm :: "EtClient \<Rightarrow> client_stimulus \<Rightarrow> bool" where
  "calm c e \<longleftrightarrow>
     (case e of
        Actor (Frame_recv (Some (Inr f))) \<Rightarrow> False
      | Actor (Drain k) \<Rightarrow> False
      | Sup_poll net \<Rightarrow> (\<forall>st. sup c \<noteq> Sup_recover st)
      | _ \<Rightarrow> True)"

abbreviation "client_meets sb rt c s r st \<equiv> joins sb rt RECOVER_STEP_IDLE RECOVER_ABSOLUTE (backed c) s r st"

inductive client_link_step :: "secretbox \<Rightarrow> buffa \<Rightarrow> client_link \<Rightarrow> client_link \<Rightarrow> bool" for sb rt where
  client_acts: "calm (cl_client n) e \<Longrightarrow>
    client_link_step sb rt n (n\<lparr>cl_client := client_step sb rt (cl_client n) e\<rparr>)"
| client_departs: "live (backed (cl_client n)) = Some l \<Longrightarrow>
    client_link_step sb rt n (n\<lparr>cl_client := client_step sb rt (cl_client n) (Actor (Drain k)),
      cl_to_server := (if cl_joined n then cl_to_server n @ take k (write_q l) else cl_to_server n)\<rparr>)"
| client_arrives: "cl_joined n \<Longrightarrow> cl_to_client n = packet_frame f # fs \<Longrightarrow> pc (backed (cl_client n)) = AtSelect \<Longrightarrow>
    live (backed (cl_client n)) \<noteq> None \<Longrightarrow>
    client_link_step sb rt n (n\<lparr>cl_client := client_step sb rt (cl_client n) (Actor (Frame_recv (Some (Inr f)))), cl_to_client := fs\<rparr>)"
| client_fails: "sup (cl_client n) = Sup_recover st \<Longrightarrow>
    \<not> fst (recover_timed_actor rt st RECOVER_STEP_IDLE RECOVER_ABSOLUTE (backed (cl_client n))) \<Longrightarrow>
    client_link_step sb rt n (n\<lparr>cl_client := client_step sb rt (cl_client n) (Sup_poll net)\<rparr>)"
| client_recovers: "sup (cl_client n) = Sup_recover st \<Longrightarrow> running (backed (cl_client n)) \<Longrightarrow>
    can_resend sb rt (backed (cl_client n)) (length (accepted (cl_server n))) \<Longrightarrow>
    can_resend sb rt (cl_server n) (length (accepted (backed (cl_client n)))) \<Longrightarrow>
    client_meets sb rt (cl_client n) (cl_server n) r st \<Longrightarrow>
    client_link_step sb rt n (n\<lparr>cl_client := client_step sb rt (cl_client n) (Sup_poll net),
      cl_to_server := [], cl_to_client := [], cl_joined := False\<rparr>)"
| both_recover: "sup (cl_client n) = Sup_recover st \<Longrightarrow> running (backed (cl_client n)) \<Longrightarrow>
    client_meets sb rt (cl_client n) (cl_server n) r st \<Longrightarrow>
    recovers sb rt i a (cl_server n) (backed (cl_client n)) r' st' \<Longrightarrow>
    client_link_step sb rt n \<lparr>cl_client = client_step sb rt (cl_client n) (Sup_poll net),
      cl_server = backed_step sb rt (cl_server n) (recovering st' i a), cl_to_server = [], cl_to_client = [], cl_joined = True\<rparr>"
| server_acts: "quiet e \<Longrightarrow> client_link_step sb rt n (n\<lparr>cl_server := backed_step sb rt (cl_server n) e\<rparr>)"
| server_departs: "live (cl_server n) = Some l \<Longrightarrow>
    client_link_step sb rt n (n\<lparr>cl_server := backed_step sb rt (cl_server n) (Drain k),
      cl_to_client := (if cl_joined n then cl_to_client n @ take k (write_q l) else cl_to_client n)\<rparr>)"
| server_arrives: "cl_joined n \<Longrightarrow> cl_to_server n = packet_frame f # fs \<Longrightarrow> pc (cl_server n) = AtSelect \<Longrightarrow> live (cl_server n) \<noteq> None \<Longrightarrow>
    client_link_step sb rt n (n\<lparr>cl_server := backed_step sb rt (cl_server n) (Frame_recv (Some (Inr f))), cl_to_server := fs\<rparr>)"
| server_fails: "running (cl_server n) \<Longrightarrow> \<not> fst (recover_timed_actor rt st i a (cl_server n)) \<Longrightarrow>
    client_link_step sb rt n (n\<lparr>cl_server := backed_step sb rt (cl_server n) (recovering st i a)\<rparr>)"
| server_recovers: "recovers sb rt i a (cl_server n) (backed (cl_client n)) r st \<Longrightarrow>
    client_link_step sb rt n (n\<lparr>cl_server := backed_step sb rt (cl_server n) (recovering st i a),
      cl_to_server := [], cl_to_client := [], cl_joined := False\<rparr>)"

section \<open>Why a client ends\<close>

text \<open>A client says that its connection ended only if the connection said so, with the same reason.\<close>

definition cause_inv :: "EtClient \<Rightarrow> bool" where
  "cause_inv c \<longleftrightarrow>
     (\<forall>r. Event_Dead (Other r) \<in> set (client_events c) \<or> (\<exists>b. sup c = Sup_dead (Other r) b) \<longrightarrow> Ev_Dead r \<in> set (events (backed c)))"

lemma cause_inv_step:
  assumes "cause_inv c"
  shows "cause_inv (client_step sb rt c e)"
proof -
  have grow: "set (events s) \<subseteq> set (events (backed_step sb rt s e))" for s e
    using events_grow [of sb rt s e] by auto
  have step: "cause_inv (c\<lparr>backed := backed_step sb rt (backed c) e\<rparr>)" for e
    using assms grow [of "backed c" e] by (auto simp: cause_inv_def)
  have move: "cause_inv (c\<lparr>backed := backed_step sb rt (backed c) e, sup := p\<rparr>)" if "\<And>r b. p \<noteq> Sup_dead r b" for e p
    using assms grow [of "backed c" e] that by (auto simp: cause_inv_def)
  show ?thesis
  proof (cases e)
    case (Actor a)
    with assms step show ?thesis by (cases a) (simp_all add: client_step_def actor_step_def)
  next
    case (Sup_poll net)
    have "cause_inv (sup_step sb rt net c)"
    proof (cases "sup c")
      case Sup_select
      with assms show ?thesis
        by (auto simp: sup_step_def sup_select_def backed_recv_def cause_inv_def split: BackedEvent.splits) (metis nth_mem)+
    next
      case (Sup_attempt start)
      with assms show ?thesis
        by (auto simp: sup_step_def sup_attempt_def cause_inv_def split: prod.split sum.splits Handshake.splits ConnectFailure.splits ConnectStatus.splits)
    next
      case (Sup_recover st)
      with assms show ?thesis
        by (auto simp: sup_step_def sup_recover_def case_prod_unfold client_frame intro!: move split: pc.split)
    next
      case Sup_shutdown
      then show ?thesis by (simp add: sup_step_def BackedHandle_shutdown_def move)
    qed (use assms in \<open>auto simp: sup_step_def sup_send_def cause_inv_def Let_def\<close>)
    with Sup_poll show ?thesis by (simp add: client_step_def)
  next
    case Owner_next_event
    with assms show ?thesis
      by (auto simp: client_step_def EtClient_next_event_def cause_inv_def)
  qed (use assms step in \<open>simp_all add: client_step_def EtClient_write_def EtClient_kill_socket_def EtClient_shutdown_def
      BackedHandle_kill_socket_def BackedHandle_shutdown_def case_prod_unfold client_frame cause_inv_def\<close>)
qed

interpretation cause: invariant_machine "client_step sb rt" cause_inv for sb rt
  by unfold_locales (rule cause_inv_step)

section \<open>It is a link\<close>

definition quietly :: "secretbox \<Rightarrow> buffa \<Rightarrow> BackedActor \<Rightarrow> BackedActor \<Rightarrow> bool" where
  "quietly sb rt s s' \<longleftrightarrow> s' = s \<or> (\<exists>e. quiet e \<and> s' = backed_step sb rt s e)"

lemma quietly_simps: "quietly sb rt s s" "quiet e \<Longrightarrow> quietly sb rt s (backed_step sb rt s e)"
  by (auto simp: quietly_def)

lemma calm_step:
  assumes "calm c e"
  shows "quietly sb rt (backed c) (backed (client_step sb rt c e))"
proof (cases e)
  case (Actor a)
  with assms show ?thesis
    by (cases a) (auto simp: client_step_def actor_step_def calm_def quiet_def quietly_simps split: option.splits sum.splits)
next
  case (Sup_poll net)
  with assms show ?thesis
    by (cases "sup c")
      (auto simp: client_step_def sup_step_def sup_select_def sup_send_def sup_attempt_def calm_def quiet_def BackedHandle_shutdown_def
        case_prod_unfold quietly_simps Let_def split: poll.split option.split)
qed (auto simp: client_step_def EtClient_write_def EtClient_kill_socket_def EtClient_shutdown_def EtClient_next_event_def
    BackedHandle_kill_socket_def BackedHandle_shutdown_def quiet_def case_prod_unfold quietly_simps client_frame)

text \<open>The step in which the supervisor recovers.\<close>

lemma recover_poll:
  assumes "sup c = Sup_recover st" and "running (backed c)"
  shows "backed (client_step sb rt c (Sup_poll net)) =
    backed_step sb rt (backed c) (recovering st RECOVER_STEP_IDLE RECOVER_ABSOLUTE)"
  using assms
  by (auto simp: client_step_def sup_step_def sup_recover_def running_def case_prod_unfold client_frame split: pc.split)

definition client_linked :: "secretbox \<Rightarrow> buffa \<Rightarrow> client_link \<Rightarrow> bool" where
  "client_linked sb rt n \<longleftrightarrow> linked sb rt (link_of n) \<and> client_inv sb (cl_client n) \<and> notice_inv (cl_client n) \<and>
     cause_inv (cl_client n) \<and> received (cl_client n) \<le> length (client_events (cl_client n))"

lemma recovering_inbox:
  assumes "notice_inv c" and "sup c = Sup_recover st" and "running (backed c)"
  shows "inbox (backed c) = []"
  using assms by (auto simp: notice_inv_def reconnecting_def resting_def)


lemma client_meets_recovers:
  assumes "notice_inv (cl_client n)" and "sup (cl_client n) = Sup_recover st" and "running (backed (cl_client n))"
    and "can_resend sb rt (backed (cl_client n)) (length (accepted (cl_server n)))"
    and "can_resend sb rt (cl_server n) (length (accepted (backed (cl_client n))))"
    and "client_meets sb rt (cl_client n) (cl_server n) r st"
  shows "recovers sb rt RECOVER_STEP_IDLE RECOVER_ABSOLUTE (left (link_of n)) (right (link_of n)) r st"
  using assms recovering_inbox [OF assms(1-3)] by (simp add: recovers_def link_of_def)

text \<open>A step of the client's end is a step of the link, and so is one of the server's, seen from there.\<close>

lemma one_link_step:
  assumes "link_step sb rt (link_of n) n''" and "n'' = link_of n'"
  shows "(link_step sb rt)\<^sup>*\<^sup>* (link_of n) (link_of n')"
  using assms by (simp add: r_into_rtranclp)

lemma server_link_step:
  assumes "link_step sb rt (mirror (link_of n)) n''" and "n'' = mirror (link_of n')"
  shows "(link_step sb rt)\<^sup>*\<^sup>* (link_of n) (link_of n')"
  by (rule r_into_rtranclp, rule link_step.other) (use assms in simp)

lemma client_step_network:
  "backed (client_step sb rt c (Actor (Drain k))) = backed_step sb rt (backed c) (Drain k)"
  "backed (client_step sb rt c (Actor (Frame_recv f))) = backed_step sb rt (backed c) (Frame_recv f)"
  by (simp_all add: client_step_def actor_step_def)

lemma failed_poll:
  assumes "sup c = Sup_recover st" and "\<not> running (backed c)"
  shows "backed (client_step sb rt c (Sup_poll net)) = backed c"
  using assms
  by (cases "pc (backed c)")
    (auto simp: client_step_def sup_step_def sup_recover_def running_def case_prod_unfold client_frame backed_step_def environment_step_def)

lemma client_link_is_link:
  assumes "client_link_step sb rt n n'" and "notice_inv (cl_client n)"
  shows "(link_step sb rt)\<^sup>*\<^sup>* (link_of n) (link_of n')"
  using assms
proof (induction rule: client_link_step.induct)
  case (client_acts n e)
  let ?n = "n\<lparr>cl_client := client_step sb rt (cl_client n) e\<rparr>"
  have "quietly sb rt (left (link_of n)) (backed (client_step sb rt (cl_client n) e))"
    using client_acts by (simp add: calm_step link_of_def)
  then consider "link_of ?n = link_of n" | e' where "quiet e'" "link_of ?n = (link_of n)\<lparr>left := backed_step sb rt (left (link_of n)) e'\<rparr>"
    by (auto simp: quietly_def link_of_def)
  then show ?case by cases (auto intro: link_step.local)
next
  case (client_departs n l k)
  then have "live (left (link_of n)) = Some l" by (simp add: link_of_def)
  from link_step.depart [OF this, where k = k] show ?case
    by (rule one_link_step) (simp add: link_of_def client_step_network)
next
  case (client_arrives n f fs)
  then have "joined (link_of n)" "to_left (link_of n) = packet_frame f # fs" "pc (left (link_of n)) = AtSelect"
      "live (left (link_of n)) \<noteq> None"
    by (simp_all add: link_of_def)
  from link_step.arrive [OF this] show ?case
    by (rule one_link_step) (simp add: link_of_def client_step_network)
next
  case (client_fails n st net)
  show ?case
  proof (cases "running (backed (cl_client n))")
    case True
    with client_fails have "running (left (link_of n))"
        "\<not> fst (recover_timed_actor rt st RECOVER_STEP_IDLE RECOVER_ABSOLUTE (left (link_of n)))"
      by (simp_all add: link_of_def)
    from link_step.fail [OF this] show ?thesis
      by (rule one_link_step) (simp add: link_of_def recover_poll [OF client_fails(1) True])
  next
    case False
    then show ?thesis by (simp add: link_of_def failed_poll [OF client_fails(1)])
  qed
next
  case (client_recovers n st r net)
  have m: "meets sb rt RECOVER_STEP_IDLE RECOVER_ABSOLUTE (left (link_of n)) (right (link_of n)) r st" "inbox (backed (cl_client n)) = []"
    using client_meets_recovers [OF client_recovers(6,1-5)] by (simp_all add: recovers_meets link_of_def)
  from link_step.half [OF m(1)] show ?case
    by (rule one_link_step) (simp add: link_of_def recover_poll [OF client_recovers(1,2)] m(2))
next
  case (both_recover n st r i a r' st' net)
  then have "can_resend sb rt (backed (cl_client n)) (length (accepted (cl_server n)))"
      "can_resend sb rt (cl_server n) (length (accepted (backed (cl_client n))))"
    by (simp_all add: recovers_def)
  from client_meets_recovers [OF both_recover(5,1,2) this both_recover(3)] both_recover(4)
  have m: "meets sb rt RECOVER_STEP_IDLE RECOVER_ABSOLUTE (left (link_of n)) (right (link_of n)) r st"
      "meets sb rt i a (right (link_of n)) (left (link_of n)) r' st'" "inbox (backed (cl_client n)) = []" "inbox (cl_server n) = []"
    by (simp_all add: recovers_meets link_of_def)
  from link_step.rejoin [OF m(1,2)] show ?case
    by (rule one_link_step) (simp add: link_of_def recover_poll [OF both_recover(1,2)] m(3,4))
next
  case (server_acts e n)
  show ?case
    by (rule server_link_step [OF link_step.local [OF server_acts(1)]]) (simp add: link_of_def mirror_def)
next
  case (server_departs n l k)
  then have "live (left (mirror (link_of n))) = Some l" by (simp add: link_of_def mirror_def)
  from link_step.depart [OF this, where k = k] show ?case
    by (rule server_link_step) (simp add: link_of_def mirror_def)
next
  case (server_arrives n f fs)
  then have "joined (mirror (link_of n))" "to_left (mirror (link_of n)) = packet_frame f # fs"
      "pc (left (mirror (link_of n))) = AtSelect" "live (left (mirror (link_of n))) \<noteq> None"
    by (simp_all add: link_of_def mirror_def)
  from link_step.arrive [OF this] show ?case
    by (rule server_link_step) (simp add: link_of_def mirror_def)
next
  case (server_fails n st i a)
  then have "running (left (mirror (link_of n)))" "\<not> fst (recover_timed_actor rt st i a (left (mirror (link_of n))))"
    by (simp_all add: link_of_def mirror_def)
  from link_step.fail [OF this] show ?case
    by (rule server_link_step) (simp add: link_of_def mirror_def)
next
  case (server_recovers i a n r st)
  then have m: "meets sb rt i a (left (mirror (link_of n))) (right (mirror (link_of n))) r st" "inbox (cl_server n) = []"
    by (simp_all add: link_of_def mirror_def recovers_meets)
  from link_step.half [OF m(1)] show ?case
    by (rule server_link_step) (simp add: link_of_def mirror_def m(2))
qed

lemma received_step:
  assumes "received c \<le> length (client_events c)"
  shows "received (client_step sb rt c e) \<le> length (client_events (client_step sb rt c e))"
proof (cases e)
  case (Actor a)
  with assms show ?thesis by (cases a) (simp_all add: client_step_def actor_step_def)
next
  case (Sup_poll net)
  with assms show ?thesis
    by (cases "sup c")
      (auto simp: client_step_def sup_step_def sup_select_def sup_send_def sup_attempt_def sup_recover_def case_prod_unfold Let_def
        split: poll.split option.split pc.split)
qed (use assms in \<open>auto simp: client_step_def EtClient_write_def EtClient_kill_socket_def EtClient_shutdown_def EtClient_next_event_def
    case_prod_unfold client_frame\<close>)

lemma client_linked_step:
  assumes "client_link_step sb rt n n'" and "client_linked sb rt n"
  shows "client_linked sb rt n'"
proof -
  have "client_inv sb (cl_client n') \<and> notice_inv (cl_client n') \<and> cause_inv (cl_client n') \<and>
      received (cl_client n') \<le> length (client_events (cl_client n'))"
    using assms notice_inv_client [of sb "cl_client n" rt] cause_inv_step [of "cl_client n" sb rt] received_step [of "cl_client n" sb rt]
    by (auto simp: client_linked_def elim!: client_link_step.cases)
  moreover have "linked sb rt (link_of n')"
    using assms client_link_is_link [OF assms(1)] by (auto simp: client_linked_def intro: linked_run steady_link_of)
  ultimately show ?thesis by (simp add: client_linked_def)
qed

interpretation served: simulation "client_link_step sb rt" "link_step sb rt" "client_linked sb rt" link_of for sb rt
proof
  fix sb rt n n'
  assume step: "client_link_step sb rt n n'" and inv: "client_linked sb rt n"
  then show "client_linked sb rt n'" by (rule client_linked_step)
  from inv have "notice_inv (cl_client n)" by (simp add: client_linked_def)
  with step show "(link_step sb rt)\<^sup>*\<^sup>* (link_of n) (link_of n')" by (rule client_link_is_link)
qed


section \<open>The owner catches up\<close>

text \<open>A client whose supervisor and owner have taken everything there is so far.\<close>

definition attentive :: "EtClient \<Rightarrow> bool" where
  "attentive c \<longleftrightarrow> sup c = Sup_select \<and> \<not> owner_gone c \<and> taken c = length (events (backed c)) \<and> received c = length (client_events c)"

fun calm_run :: "secretbox \<Rightarrow> buffa \<Rightarrow> EtClient \<Rightarrow> client_stimulus list \<Rightarrow> bool" where
  "calm_run sb rt c [] = True"
| "calm_run sb rt c (e # es) \<longleftrightarrow> calm c e \<and> calm_run sb rt (client_step sb rt c e) es"

lemma client_acts_run:
  "calm_run sb rt (cl_client n) es \<Longrightarrow>
    (client_link_step sb rt)\<^sup>*\<^sup>* n (n\<lparr>cl_client := client_run sb rt (cl_client n) es\<rparr>)"
proof (induction es arbitrary: n)
  case (Cons e es)
  let ?n = "n\<lparr>cl_client := client_step sb rt (cl_client n) e\<rparr>"
  have "client_link_step sb rt n ?n" by (rule client_link_step.client_acts) (use Cons.prems in simp)
  moreover have "(client_link_step sb rt)\<^sup>*\<^sup>* ?n (n\<lparr>cl_client := client_run sb rt (cl_client n) (e # es)\<rparr>)"
    using Cons.IH [of ?n] Cons.prems by (simp add: client_run_def)
  ultimately show ?case by (rule converse_rtranclp_into_rtranclp)
qed (simp add: client_run_def)

text \<open>One packet goes from the connection through the supervisor to the owner.\<close>

definition handover :: "client_stimulus list" where
  "handover = [Actor (Event_sent True), Sup_poll (\<lambda>ep. None), Sup_poll (\<lambda>ep. None), Owner_next_event]"

lemma handover_run:
  assumes "attentive c" and "pc (backed c) = Sending (Ev_Packet p)" and "\<not> consumer_gone (backed c)"
  shows "client_run sb rt c handover =
    c\<lparr>backed := deliver_inbox sb (log_event (Ev_Packet p) (backed c)), taken := Suc (taken c),
      client_events := client_events c @ [Event_Packet p], received := Suc (received c)\<rparr>"
    and "calm_run sb rt c handover"
proof -
  let ?b = "deliver_inbox sb (log_event (Ev_Packet p) (backed c))"
  have ev: "events ?b = events (backed c) @ [Ev_Packet p]" by (simp add: backed_frame log_event_def)
  have t: "taken c = length (events (backed c))" "received c = length (client_events c)" "sup c = Sup_select" "\<not> owner_gone c"
    using assms(1) by (simp_all add: attentive_def)
  have 1: "client_step sb rt c (Actor (Event_sent True)) = c\<lparr>backed := ?b\<rparr>"
    using t take_event [OF assms(2,3)] by (simp add: client_step_def actor_step_def EVENT_QUEUE_DEPTH_def)
  have 2: "client_step sb rt (c\<lparr>backed := ?b\<rparr>) (Sup_poll net) = c\<lparr>backed := ?b, taken := Suc (taken c), sup := Sup_packet p\<rparr>" for net
    using t ev by (simp add: client_step_def sup_step_def sup_select_def backed_recv_def)
  have 3: "client_step sb rt (c\<lparr>backed := ?b, taken := Suc (taken c), sup := Sup_packet p\<rparr>) (Sup_poll net) =
      c\<lparr>backed := ?b, taken := Suc (taken c), client_events := client_events c @ [Event_Packet p]\<rparr>" for net
    using t by (simp add: client_step_def sup_step_def sup_send_def client_queue_depth_def)
  have 4: "client_step sb rt (c\<lparr>backed := ?b, taken := Suc (taken c), client_events := client_events c @ [Event_Packet p]\<rparr>) Owner_next_event =
      c\<lparr>backed := ?b, taken := Suc (taken c), client_events := client_events c @ [Event_Packet p], received := Suc (received c)\<rparr>"
    using t by (simp add: client_step_def EtClient_next_event_def)
  show "client_run sb rt c handover = c\<lparr>backed := ?b, taken := Suc (taken c),
      client_events := client_events c @ [Event_Packet p], received := Suc (received c)\<rparr>"
    by (simp add: client_run_def handover_def 1 2 3 4)
  show "calm_run sb rt c handover"
    using t by (simp add: handover_def 1 2 3) (simp add: calm_def)
qed

lemma attentive_handover:
  assumes "attentive c" and "pc (backed c) = Sending (Ev_Packet p)" and "\<not> consumer_gone (backed c)"
  shows "attentive (client_run sb rt c handover)"
  using assms(1) by (simp add: handover_run [OF assms] attentive_def backed_frame log_event_def)

text \<open>A connection that waits with nothing left to deliver, or hands a packet over.\<close>

definition relaying :: "BackedActor \<Rightarrow> bool" where
  "relaying s \<longleftrightarrow> \<not> consumer_gone s \<and> \<not> shutting_down s \<and> (caught_up s \<or> (\<exists>p. pc s = Sending (Ev_Packet p)))"

lemma relaying_deliver:
  assumes "secretbox_ok sb" and "feeds sb h ps s tail" and "\<not> consumer_gone s" and "\<not> shutting_down s"
  shows "relaying (deliver_inbox sb s)" "inbox (deliver_inbox sb s) = tl (inbox s)"
    and "inbox s = [] \<Longrightarrow> caught_up (deliver_inbox sb s)"
proof -
  have "relaying (deliver_inbox sb s) \<and> inbox (deliver_inbox sb s) = tl (inbox s) \<and> (inbox s = [] \<longrightarrow> caught_up (deliver_inbox sb s))"
  proof (cases "inbox s")
    case Nil
    with assms(3,4) show ?thesis by (simp add: relaying_def caught_up_def deliver_inbox_def run_loop_def)
  next
    case (Cons f fs)
    from feeds_next(3) [OF assms(1,2) this refl] Cons assms(3,4) show ?thesis by (simp add: relaying_def)
  qed
  then show "relaying (deliver_inbox sb s)" "inbox (deliver_inbox sb s) = tl (inbox s)"
    "inbox s = [] \<Longrightarrow> caught_up (deliver_inbox sb s)" by simp_all
qed

lemma owner_catches_up:
  assumes "secretbox_ok sb" and "feeds sb h ps (backed (cl_client n)) tail" and "attentive (cl_client n)"
    and "relaying (backed (cl_client n))"
  shows "\<exists>c. (client_link_step sb rt)\<^sup>*\<^sup>* n (n\<lparr>cl_client := c\<rparr>) \<and> attentive c \<and> caught_up (backed c) \<and>
    \<not> consumer_gone (backed c) \<and> feeds sb h ps (backed c) tail"
  using assms(2-)
proof (induction "length (inbox (backed (cl_client n)))" arbitrary: n rule: less_induct)
  case less
  let ?c = "cl_client n" let ?b = "backed ?c"
  show ?case
  proof (cases "caught_up ?b")
    case True
    with less.prems show ?thesis by (intro exI [of _ ?c]) (simp add: relaying_def)
  next
    case False
    with less.prems(3) obtain p where p: "pc ?b = Sending (Ev_Packet p)" and gone: "\<not> consumer_gone ?b" "\<not> shutting_down ?b"
      by (auto simp: relaying_def)
    let ?l = "log_event (Ev_Packet p) ?b" let ?d = "deliver_inbox sb ?l" and ?c' = "client_run sb rt ?c handover"
    let ?n = "n\<lparr>cl_client := ?c'\<rparr>"
    note run = handover_run [OF less.prems(2) p gone(1), of sb rt]
    have l: "feeds sb h ps ?l tail" "\<not> consumer_gone ?l" "\<not> shutting_down ?l" "inbox ?l = inbox ?b"
      using less.prems(1) gone by (simp_all add: log_event_def)
    note step = client_acts_run [OF run(2)] and att = attentive_handover [OF less.prems(2) p gone(1), of sb rt]
    note del = relaying_deliver [OF assms(1) l(1-3)] feeds_deliver [OF assms(1) l(1)]
    have d: "backed ?c' = ?d" by (simp add: run(1))
    show ?thesis
    proof (cases "inbox ?b")
      case Nil
      with step att d del l(4) show ?thesis by (intro exI [of _ ?c']) (simp add: relaying_def)
    next
      case (Cons f fs)
      with del(2) l(4) d have "length (inbox (backed (cl_client ?n))) < length (inbox ?b)" by simp
      from less.hyps [OF this] del(1,4) att d obtain c where
        "(client_link_step sb rt)\<^sup>*\<^sup>* ?n (n\<lparr>cl_client := c\<rparr>)" "attentive c" "caught_up (backed c)"
        "\<not> consumer_gone (backed c)" "feeds sb h ps (backed c) tail" by auto
      with step show ?thesis by (meson rtranclp_trans)
    qed
  qed
qed

lemma owner_takes:
  assumes "\<not> owner_gone c" and "length (client_events c) = received c + k"
  shows "client_run sb rt c (replicate k Owner_next_event) = c\<lparr>received := length (client_events c)\<rparr>"
    and "calm_run sb rt c (replicate k Owner_next_event)"
proof -
  have "client_run sb rt c (replicate k Owner_next_event) = c\<lparr>received := length (client_events c)\<rparr> \<and>
      calm_run sb rt c (replicate k Owner_next_event)"
    using assms
  proof (induction k arbitrary: c)
    case (Suc k)
    let ?c = "c\<lparr>received := Suc (received c)\<rparr>"
    have "client_step sb rt c Owner_next_event = ?c" using Suc.prems by (simp add: client_step_def EtClient_next_event_def)
    with Suc.IH [of ?c] Suc.prems show ?case by (simp add: client_run_def calm_def)
  qed (simp add: client_run_def)
  then show "client_run sb rt c (replicate k Owner_next_event) = c\<lparr>received := length (client_events c)\<rparr>"
    "calm_run sb rt c (replicate k Owner_next_event)" by simp_all
qed

text \<open>The client right after a recovery.\<close>

lemma recovered_client:
  assumes "client_linked sb rt n" and "sup (cl_client n) = Sup_recover st" and "running (backed (cl_client n))"
    and "recovers sb rt RECOVER_STEP_IDLE RECOVER_ABSOLUTE (backed (cl_client n)) (cl_server n) r st"
    and "c = client_step sb rt (cl_client n) (Sup_poll net)"
  shows "sup c = Sup_select" "taken c = length (events (backed c))" "relaying (backed c)"
    and "feeds sb (writer0 (cfg (cl_server n))) (written (cl_server n)) (backed c) []"
    and "owner_gone c = owner_gone (cl_client n)" "received c = received (cl_client n)" "client_events c = client_events (cl_client n)"
proof -
  let ?c = "cl_client n" let ?b = "backed ?c" and ?i = RECOVER_STEP_IDLE and ?a = RECOVER_ABSOLUTE
  have inv: "notice_inv ?c" "backed_inv sb ?b" "backed_inv sb (cl_server n)" "secretbox_ok sb" "buffa_ok rt"
    using assms(1) by (simp_all add: client_linked_def linked_def link_inv_def link_of_def)
  obtain tail where fd: "feeds sb (writer0 (cfg (cl_server n))) (written (cl_server n)) ?b tail"
    using assms(1) by (auto simp: client_linked_def linked_def link_inv_def link_of_def lane_def flows_def)
  have rest: "pc ?b = AtSelect" "\<not> socket_down_pending ?b" "\<not> consumer_gone ?b" "taken ?c = length (events ?b)"
    using inv(1) assms(2,3) by (auto simp: notice_inv_def reconnecting_def resting_def unread_def)
  let ?h = "handle_cmd sb rt (Some (Cmd_Recover st ?i ?a)) ?b"
  have j: "can_resend sb rt ?b (length (accepted (cl_server n)))" "can_resend sb rt (cl_server n) (length (accepted ?b))"
      "joins sb rt ?i ?a ?b (cl_server n) r st" "inbox ?b = []"
    using assms(4) by (simp_all add: recovers_def)
  note rec = recover_joined [OF inv(5,2,3) j(1-3)]
  have "socket_down_pending (snd (recover_timed_actor rt st ?i ?a ?b)) = socket_down_pending ?b"
    by (simp add: recover_timed_actor_def case_prod_unfold Let_def split: sum.split)
  then have h: "\<not> shutting_down ?h" "\<not> socket_down_pending ?h" "\<not> consumer_gone ?h" "events ?h = events ?b"
    using inv(2) assms(3) rest by (simp_all add: backed_inv_def handle_cmd_split backed_frame)
  have hf: "feeds sb (writer0 (cfg (cl_server n))) (written (cl_server n)) ?h []"
    using fd j(4) rec(2) by (simp add: feeds_def missing_def history_def handle_cmd_split backed_frame)
  have b: "backed c = deliver_inbox sb ?h"
    using rest(1) h by (simp add: assms(5) recover_poll [OF assms(2,3)] backed_step_def select_step_def environment_step_def after_select_def)
  show "feeds sb (writer0 (cfg (cl_server n))) (written (cl_server n)) (backed c) []"
    unfolding b by (rule feeds_deliver [OF inv(4) hf])
  show "relaying (backed c)" unfolding b by (rule relaying_deliver(1) [OF inv(4) hf h(3,1)])
  have "fst (BackedHandle_recover sb rt st ?b)" using rec(1) recover_reply [OF rest(1), of sb rt st] by (metis fst_conv)
  with assms(2) rest(1) show "sup c = Sup_select"
    by (simp add: assms(5) client_step_def sup_step_def sup_recover_def case_prod_unfold)
  have "taken c = taken ?c"
    using assms(2) by (auto simp: assms(5) client_step_def sup_step_def sup_recover_def case_prod_unfold split: pc.split)
  then show "taken c = length (events (backed c))" using b h(4) rest(4) by (simp add: backed_frame)
  show "owner_gone c = owner_gone ?c" "received c = received ?c" "client_events c = client_events ?c"
    using assms(2) by (auto simp: assms(5) client_step_def sup_step_def sup_recover_def case_prod_unfold split: pc.split)
qed


section \<open>Properties\<close>

text \<open>A new client, and a server that shares its passkey.\<close>

definition fresh_client_link :: "EtClient \<Rightarrow> BackedConfig \<Rightarrow> nat \<Rightarrow> tstream \<Rightarrow> client_link" where
  "fresh_client_link c d now st =
     \<lparr>cl_client = c, cl_server = backed_spawn d now st, cl_to_server = [], cl_to_client = [], cl_joined = True\<rparr>"

lemma fresh_client_linked:
  assumes "secretbox_ok sb" and "buffa_ok rt" and "connect_with rt net ep i passkey ka now = (Ok c, t)"
    and "matched (cfg (backed c)) d"
  shows "client_linked sb rt (fresh_client_link c d now' st)"
proof -
  obtain stream where "backed c = backed_spawn (cfg (backed c)) t stream"
    by (rule connect_with_Ok [OF assms(3)]) simp
  then have "link_of (fresh_client_link c d now' st) = fresh_link (cfg (backed c)) d t now' stream st"
    by (simp add: link_of_def fresh_client_link_def fresh_link_def)
  moreover have "cause_inv c" "received c \<le> length (client_events c)"
    by (rule connect_with_Ok [OF assms(3)]; simp add: cause_inv_def)+
  ultimately show ?thesis
    using fresh_linked [OF assms(1,2,4)] connect_with_notice [OF assms(3)]
    by (simp add: client_linked_def fresh_client_link_def)
qed


definition sample_client_link :: "EtClient \<Rightarrow> client_link" where
  "sample_client_link c =
     (let n = fresh_client_link c \<lparr>key = replicate 32 107, reader_msb = CLIENT_SERVER_NONCE_MSB, writer_msb = SERVER_CLIENT_NONCE_MSB,
        keepalive = None\<rparr> 0 sample_stream in
      n\<lparr>cl_server := backed_step sum_box wire (cl_server n) (Cmd_recv (Some (Cmd_Write 1 [5])))\<rparr>)"

text \<open>C2. Client and server are joined by reliable channels: in every run of a client with its supervisor and owner,
  of a server that shares its passkey and recovers, as the client does, with its inbox delivered, and of a
  network that loses sockets and what is on them but does not forge, with any number of reconnects that
  succeed, fail, or succeed at one end only, the owner has
  received a prefix of what the server wrote and the server one of what the client wrote, headers
  included, and the client never ends because a packet could not be opened.\<close>

theorem client_link_reliable:
  assumes "secretbox_ok sb" and "buffa_ok rt" and "connect_with rt net ep i passkey ka now = (Ok c, t)"
    and "matched (cfg (backed c)) d" and "(client_link_step sb rt)\<^sup>*\<^sup>* (fresh_client_link c d now' st) n"
  shows "prefix (client_packets (client_events (cl_client n))) (map plain (written (cl_server n))) \<and>
    prefix (packets_of (events (cl_server n))) (map plain (written (backed (cl_client n)))) \<and>
    Event_Dead (Other DR_CryptoMismatch) \<notin> set (client_events (cl_client n)) \<and>
    (link_step sb rt)\<^sup>*\<^sup>* (link_of (fresh_client_link c d now' st)) (link_of n)"
proof -
  note fresh = fresh_client_linked [OF assms(1-4), of now' st]
  have l: "client_linked sb rt n" by (rule served.inv_steps [OF assms(5) fresh])
  let ?b = "backed (cl_client n)"
  have inv: "link_inv sb (link_of n)" "task_inv ?b" "client_inv sb (cl_client n)" "cause_inv (cl_client n)"
    using l by (simp_all add: client_linked_def linked_def link_of_def)
  then have f: "lane sb False (cl_joined n) (cl_server n) ?b (cl_to_client n)" "lane sb False (cl_joined n) ?b (cl_server n) (cl_to_server n)"
      "backed_inv sb ?b" "backed_inv sb (cl_server n)"
    by (simp_all add: link_inv_def link_of_def)
  have "prefix (client_packets (client_events (cl_client n))) (packets_of (take (taken (cl_client n)) (events ?b)))"
    using inv(3) by (auto simp: client_inv_def flow_inv_def relay_inv_def)
  also have "prefix \<dots> (packets_of (events ?b))"
    by (metis append_take_drop_id packets_of_append prefixI)
  also have "prefix \<dots> (map plain (written (cl_server n)))" by (rule lane_prefix [OF f(1,3)])
  finally have "prefix (client_packets (client_events (cl_client n))) (map plain (written (cl_server n)))" .
  moreover have "\<not> dead_sent ?b" using f(1) by (auto simp: lane_def flows_def feeds_def)
  with inv(2,4) have "Event_Dead (Other DR_CryptoMismatch) \<notin> set (client_events (cl_client n))"
    by (auto simp: cause_inv_def task_inv_def)
  ultimately show ?thesis
    using lane_prefix [OF f(2,4)] served.simulates_steps [OF assms(5) fresh] by simp
qed

theorem client_link_reliable_witness:
  "\<exists>c. connect_with wire (serving NEW_CLIENT [] []) ''h:2022'' ''id'' (replicate 32 CHR ''k'') (Some 5000) 0 = (Ok c, 0) \<and>
    prefix (client_packets (client_events (cl_client (sample_client_link c)))) (map plain (written (cl_server (sample_client_link c))))"
proof -
  from connect_with_serving obtain c where
    c: "connect_with wire (serving NEW_CLIENT [] []) ''h:2022'' ''id'' (replicate 32 CHR ''k'') (Some 5000) 0 = (Ok c, 0)"
    by blast
  let ?d = "\<lparr>key = replicate 32 107, reader_msb = CLIENT_SERVER_NONCE_MSB, writer_msb = SERVER_CLIENT_NONCE_MSB, keepalive = None\<rparr>"
  have "matched (cfg (backed c)) ?d"
    by (rule connect_with_Ok [OF c]) (simp add: matched_def str_bytes_def)
  moreover have "(client_link_step sum_box wire)\<^sup>*\<^sup>* (fresh_client_link c ?d 0 sample_stream) (sample_client_link c)"
    unfolding sample_client_link_def Let_def by (rule r_into_rtranclp, rule client_link_step.server_acts) (simp add: quiet_def)
  ultimately show ?thesis
    using client_link_reliable [OF secretbox_ok_sum_box buffa_ok_wire c] c by blast
qed


lemma connect_with_served:
  "length passkey = 32 \<Longrightarrow> \<exists>c. connect_with wire (serving NEW_CLIENT [] []) ''h:2022'' ''id'' passkey ka 0 = (Ok c, 0)"
  by (simp add: connect_with_def key_bytes_def Let_def serving_request handshake_result_answer [OF buffa_ok_wire status_response_ok(1)])
    (simp add: status_response_def)

text \<open>A client that has lost its socket, and the way on to the socket of its next handshake.\<close>

definition sample_offline :: "EtClient \<Rightarrow> EtClient" where
  "sample_offline c = client_run sum_box wire c [Actor (Frame_recv None), Actor (Event_sent True), Sup_poll silent_net]"

definition sample_delays :: "EtClient \<Rightarrow> nat list" where
  "sample_delays c = replicate (exchange_steps wire (backed (sample_offline c)) (header_frame wire (left sample_link)) [] [server_packet]) 0"

definition sample_return :: "EtClient \<Rightarrow> network" where
  "sample_return c = serving RETURNING_CLIENT (sample_delays c) (exchange_bytes sum_box wire (left sample_link) 0)"

definition sample_served :: "EtClient \<Rightarrow> client_link" where
  "sample_served c = (fresh_client_link c server_cfg 0 sample_stream)\<lparr>cl_server := left sample_link,
     cl_client := client_run sum_box wire (sample_offline c) [Sup_poll (sample_return c)]\<rparr>"

lemma sample_link_server: "running (left sample_link)" "inbox (left sample_link) = []" "can_resend sum_box wire (left sample_link) 0"
    "missing sum_box (left sample_link) 0 = [server_packet]"
  using sample_link_left(3) sample_good(1)
  by (simp_all add: at_work_def sample_link_left sample_link_right can_make_good_def missing_def history_def sealed_all_def)

lemma sample_offline_at:
  assumes "connect_with wire net ''h:2022'' ''id'' passkey (Some 5000) 0 = (Ok c, 0)"
  shows "sup (sample_offline c) = Sup_attempt 0" "\<not> owner_gone (sample_offline c)" "running (backed (sample_offline c))"
    "clock (backed (sample_offline c)) = 0" "written (backed (sample_offline c)) = []" "accepted (backed (sample_offline c)) = []"
    "sup_endpoint (sample_offline c) = ''h:2022''" "sup_id (sample_offline c) = ''id''"
  by (rule connect_with_Ok [OF assms]; simp add: sample_offline_def client_run_def client_step_def actor_step_def backed_step_def select_step_def
      environment_step_def after_select_def sending_step_def send_event_done_def log_event_def close_current_socket_def
      deliver_inbox_def run_loop_def sup_step_def sup_select_def backed_recv_def spawn_socket_tasks_def running_def
      backed_spawn_def BackedActor_new_def EVENT_QUEUE_DEPTH_def)+

lemma sample_offline_calm:
  assumes "connect_with wire net ''h:2022'' ''id'' passkey (Some 5000) 0 = (Ok c, 0)"
  shows "calm_run sum_box wire c [Actor (Frame_recv None), Actor (Event_sent True), Sup_poll silent_net]"
  by (rule connect_with_Ok [OF assms]) (auto simp: calm_def client_step_def actor_step_def)

lemma sample_served_client:
  assumes "connect_with wire net ''h:2022'' ''id'' passkey (Some 5000) 0 = (Ok c, 0)"
  obtains st where "cl_client (sample_served c) = (sample_offline c)\<lparr>sup := Sup_recover st\<rparr>"
    "client_meets sum_box wire (sample_offline c) (left sample_link) (t_in sample_stream) st"
proof -
  let ?o = "sample_offline c" and ?bs = "exchange_bytes sum_box wire (left sample_link) 0"
  let ?st = "answered wire ''id'' 0 (sample_delays c) \<lparr>rd_data = ?bs, rd_end = UnexpectedEof\<rparr>
    (case sample_return c ''h:2022'' of Some (d, Inr st) \<Rightarrow> st | _ \<Rightarrow> undefined)"
  note o = sample_offline_at [OF assms]
  have "handshake_request wire (sample_return c) ''h:2022'' ''id'' 0 = (Ok (Returning ?st), 0)"
    by (simp add: sample_return_def serving_request handshake_result_answer [OF buffa_ok_wire status_response_ok(1)])
      (simp add: status_response_def)
  then have "cl_client (sample_served c) = ?o\<lparr>sup := Sup_recover ?st\<rparr>"
    using o by (simp add: sample_served_def client_run_def client_step_def sup_step_def sup_attempt_def)
  moreover have "missing sum_box (backed ?o) 0 = []" using o(5) by (simp add: missing_def history_def sealed_all_def)
  then have "client_meets sum_box wire ?o (left sample_link) (t_in sample_stream) ?st"
    using o(4,6) sample_link_server(4) sample_link_left(5)
    by (simp add: joins_def answered_def sample_return_def serving_def sample_delays_def prompt_def list_all_iff sum_list_replicate feed_def
        sample_stream_def)
  ultimately show thesis by (rule that)
qed

lemma sample_served_reached:
  assumes "connect_with wire net ''h:2022'' ''id'' passkey (Some 5000) 0 = (Ok c, 0)"
  shows "(client_link_step sum_box wire)\<^sup>*\<^sup>* (fresh_client_link c server_cfg 0 sample_stream) (sample_served c)"
proof -
  let ?n = "(fresh_client_link c server_cfg 0 sample_stream)\<lparr>cl_server := left sample_link\<rparr>"
  have "client_link_step sum_box wire (fresh_client_link c server_cfg 0 sample_stream) ?n"
    using client_link_step.server_acts [of "Cmd_recv (Some (Cmd_Write 1 [5]))" sum_box wire "fresh_client_link c server_cfg 0 sample_stream"]
    by (simp add: quiet_def fresh_client_link_def sample_link_def fresh_link_def Let_def)
  also have "(client_link_step sum_box wire)\<^sup>*\<^sup>* ?n (?n\<lparr>cl_client := sample_offline c\<rparr>)"
    unfolding sample_offline_def
    using client_acts_run [of sum_box wire ?n "[Actor (Frame_recv None), Actor (Event_sent True), Sup_poll silent_net]"]
      sample_offline_calm [OF assms]
    by (simp add: fresh_client_link_def del: calm_run.simps client_run_simps)
  also have "(client_link_step sum_box wire)\<^sup>*\<^sup>* (?n\<lparr>cl_client := sample_offline c\<rparr>) (sample_served c)"
    using client_acts_run [of sum_box wire "?n\<lparr>cl_client := sample_offline c\<rparr>" "[Sup_poll (sample_return c)]"] sample_offline_at(1) [OF assms]
    by (simp add: sample_served_def calm_def fresh_client_link_def)
  finally show ?thesis .
qed

text \<open>C3. A reconnect makes everything good for the owner: in every run of a client, a server and a network that does
  not forge, when the supervisor recovers over a socket on which the server recovers too, there is a
  way on, of the connection, the supervisor and the owner alone, after which the owner has received
  exactly what the server has written, each packet once and in order.\<close>

theorem recovery_serves_owner:
  assumes "secretbox_ok sb" and "buffa_ok rt" and "connect_with rt net ep i passkey ka now = (Ok c, t)"
    and "matched (cfg (backed c)) d" and "(client_link_step sb rt)\<^sup>*\<^sup>* (fresh_client_link c d now' st0) n"
    and "sup (cl_client n) = Sup_recover st" and "running (backed (cl_client n))" and "\<not> owner_gone (cl_client n)"
    and "client_meets sb rt (cl_client n) (cl_server n) r st"
    and "recovers sb rt idle absolute (cl_server n) (backed (cl_client n)) r' st'"
  shows "\<exists>n'. (client_link_step sb rt)\<^sup>*\<^sup>* n n' \<and> cl_joined n' \<and> written (cl_server n') = written (cl_server n) \<and>
    received (cl_client n') = length (client_events (cl_client n')) \<and>
    client_packets (client_events (cl_client n')) = map plain (written (cl_server n))"
proof -
  let ?ps = "written (cl_server n)" and ?c1 = "client_step sb rt (cl_client n) (Sup_poll (\<lambda>ep. None))"
  let ?s1 = "backed_step sb rt (cl_server n) (recovering st' idle absolute)"
  let ?n1 = "\<lparr>cl_client = ?c1, cl_server = ?s1, cl_to_server = [], cl_to_client = [], cl_joined = True\<rparr>"
  let ?c2 = "?c1\<lparr>received := length (client_events ?c1)\<rparr>"
  let ?n2 = "?n1\<lparr>cl_client := ?c2\<rparr>"
  have l: "client_linked sb rt n" by (rule served.inv_steps [OF assms(5) fresh_client_linked [OF assms(1-4)]])
  then have ni: "notice_inv (cl_client n)" by (simp add: client_linked_def)
  have "recovers sb rt RECOVER_STEP_IDLE RECOVER_ABSOLUTE (backed (cl_client n)) (cl_server n) r st"
    using client_meets_recovers [OF ni assms(6,7) _ _ assms(9)] assms(10) by (simp add: recovers_def link_of_def)
  note rec = recovered_client [OF l assms(6,7) this refl, of "\<lambda>ep. None"]
  have step1: "client_link_step sb rt n ?n1" by (rule client_link_step.both_recover [OF assms(6,7,9,10)])
  have "received ?c1 \<le> length (client_events ?c1)" using l rec(6,7) by (simp add: client_linked_def)
  then obtain k where "length (client_events ?c1) = received ?c1 + k" using le_Suc_ex by blast
  note take = owner_takes [of ?c1 k sb rt, OF _ this]
  have step2: "(client_link_step sb rt)\<^sup>*\<^sup>* ?n1 ?n2"
    using client_acts_run [of sb rt ?n1] take rec(5) assms(8) by fastforce
  have "attentive ?c2" using rec(1,2,5) assms(8) by (simp add: attentive_def)
  with owner_catches_up [OF assms(1), of _ ?ps ?n2 "[]" rt] rec(3,4) obtain c3 where
    c3: "(client_link_step sb rt)\<^sup>*\<^sup>* ?n2 (?n2\<lparr>cl_client := c3\<rparr>)" "attentive c3" "caught_up (backed c3)" "\<not> consumer_gone (backed c3)"
      "feeds sb (writer0 (cfg (cl_server n))) ?ps (backed c3) []"
    by auto
  let ?n3 = "?n2\<lparr>cl_client := c3\<rparr>"
  have steps: "(client_link_step sb rt)\<^sup>*\<^sup>* n ?n3" using step1 step2 c3(1) by (meson converse_rtranclp_into_rtranclp rtranclp_trans)
  then have "client_inv sb c3" using served.inv_steps [OF _ l] by (force simp: client_linked_def)
  then have "backed_inv sb (backed c3)" "relay_inv c3" by (simp_all add: client_inv_def flow_inv_def)
  with feeds_complete [OF c3(5) _ c3(3,4)] c3(2) have "client_packets (client_events c3) = map plain ?ps"
    by (auto simp: relay_inv_def attentive_def sup_parked_def)
  with steps c3(2) recover_step_parts(2) [OF refl] show ?thesis
    by (intro exI [of _ ?n3]) (simp add: attentive_def)
qed

theorem recovery_serves_owner_witness:
  "\<exists>c n'. connect_with wire (serving NEW_CLIENT [] []) ''h:2022'' ''id'' (replicate 32 (CHR 0x07)) (Some 5000) 0 = (Ok c, 0) \<and>
    (client_link_step sum_box wire)\<^sup>*\<^sup>* (sample_served c) n' \<and> client_packets (client_events (cl_client n')) = [Packet_new 1 [5]]"
proof -
  from connect_with_served obtain c where
    c: "connect_with wire (serving NEW_CLIENT [] []) ''h:2022'' ''id'' (replicate 32 (CHR 0x07)) (Some 5000) 0 = (Ok c, 0)" by force
  note o = sample_offline_at [OF c] and s = sample_link_server
  obtain st where st: "cl_client (sample_served c) = (sample_offline c)\<lparr>sup := Sup_recover st\<rparr>"
    "client_meets sum_box wire (sample_offline c) (left sample_link) (t_in sample_stream) st"
    by (rule sample_served_client [OF c])
  have server: "cl_server (sample_served c) = left sample_link" by (simp add: sample_served_def)
  have m: "matched (cfg (backed c)) server_cfg"
    by (rule connect_with_Ok [OF c])
      (simp add: matched_def str_bytes_def server_cfg_def SERVER_CLIENT_NONCE_MSB_def CLIENT_SERVER_NONCE_MSB_def)
  have "can_resend sum_box wire (backed (sample_offline c)) 0"
    using sample_good(2) o(5) by (simp add: can_make_good_def can_resend_def sample_link_left sample_link_right missing_def history_def sealed_all_def)
  moreover obtain st' where "joins sum_box wire 0 0 (left sample_link) (backed (sample_offline c)) (t_in sample_stream) st'"
    using joins_exists by blast
  ultimately have "recovers sum_box wire 0 0 (left sample_link) (backed (sample_offline c)) (t_in sample_stream) st'"
    using o s by (simp add: recovers_def sample_link_left)
  with recovery_serves_owner [OF secretbox_ok_sum_box buffa_ok_wire c m sample_served_reached [OF c], of st "t_in sample_stream" 0 0 "t_in sample_stream" st']
    st o c
  show ?thesis by (auto simp: server sample_link_left plain_def)
qed

end
