(* ===== verification/Text.thy ===== *)
theory Text
  imports Prelude
begin

text \<open>
  The parts of Rust's \<^verbatim>\<open>str\<close> that the program uses, on the UTF-8 buffers that stand for strings:
  \<^verbatim>\<open>split\<close>, \<^verbatim>\<open>split_once\<close>, \<^verbatim>\<open>trim\<close>, \<^verbatim>\<open>parse::<i64>\<close>, the \<^verbatim>\<open>Display\<close> of integers, the ASCII
  character classes and \<^verbatim>\<open>String::from_utf8_lossy\<close>. The separators the program splits at are ASCII,
  so splitting the buffer splits the string. The lemmas are the ones the parsers need: what joins
  of pieces split into, and that decimal numbers read back.
\<close>

section \<open>Splitting\<close>

text \<open>\<^verbatim>\<open>str::split(c)\<close>: at least one piece, and one more for each separator.\<close>

fun split_on :: "char \<Rightarrow> string \<Rightarrow> string list" where
  "split_on c [] = [[]]"
| "split_on c (x # xs) =
     (if x = c then [] # split_on c xs
      else (case split_on c xs of [] \<Rightarrow> [[x]] | p # ps \<Rightarrow> (x # p) # ps))"

text \<open>\<^verbatim>\<open>str::split_once(c)\<close>.\<close>

definition split_once :: "char \<Rightarrow> string \<Rightarrow> (string \<times> string) option" where
  "split_once c s =
     (case dropWhile (\<lambda>x. x \<noteq> c) s of
        [] \<Rightarrow> None
      | _ # rest \<Rightarrow> Some (takeWhile (\<lambda>x. x \<noteq> c) s, rest))"

fun join_with :: "char \<Rightarrow> string list \<Rightarrow> string" where
  "join_with c [] = []"
| "join_with c [p] = p"
| "join_with c (p # q # ps) = p @ c # join_with c (q # ps)"

lemma split_on_nonempty [simp]: "split_on c s \<noteq> []"
  by (induction s) (auto split: list.splits)

lemma split_on_piece: "c \<notin> set p \<Longrightarrow> split_on c p = [p]"
  by (induction p) auto

lemma split_on_Cons: "c \<notin> set p \<Longrightarrow> split_on c (p @ c # s) = p # split_on c s"
  by (induction p) auto

lemma split_on_join:
  "ps \<noteq> [] \<Longrightarrow> list_all (\<lambda>p. c \<notin> set p) ps \<Longrightarrow> split_on c (join_with c ps) = ps"
  by (induction c ps rule: join_with.induct) (auto simp: split_on_piece split_on_Cons)

lemma join_split: "join_with c (split_on c s) = s"
proof (induction s)
  case (Cons x xs)
  obtain p ps where "split_on c xs = p # ps" by (cases "split_on c xs") auto
  with Cons show ?case by (cases ps) auto
qed simp

lemma split_once_append: "c \<notin> set a \<Longrightarrow> split_once c (a @ c # b) = Some (a, b)"
  by (induction a) (auto simp: split_once_def split: list.splits)

lemma split_once_Some: "split_once c s = Some (a, b) \<longleftrightarrow> c \<notin> set a \<and> s = a @ c # b"
proof
  assume h: "split_once c s = Some (a, b)"
  then obtain y where d: "dropWhile (\<lambda>x. x \<noteq> c) s = y # b" and a: "a = takeWhile (\<lambda>x. x \<noteq> c) s"
    by (auto simp: split_once_def split: list.splits)
  then have "y = c"
    using hd_dropWhile [of "\<lambda>x. x \<noteq> c" s] by simp
  with d a takeWhile_dropWhile_id [of "\<lambda>x. x \<noteq> c" s] show "c \<notin> set a \<and> s = a @ c # b"
    by (auto dest: set_takeWhileD)
qed (simp add: split_once_append)

section \<open>Trimming\<close>

text \<open>
  \<^verbatim>\<open>str::trim\<close> removes the characters with the Unicode property White_Space; these are their
  encodings.
\<close>

definition white_codes :: "nat list list" where
  "white_codes =
     map (\<lambda>b. [b]) [9, 10, 11, 12, 13, 32] @
     [[194, 133], [194, 160], [225, 154, 128]] @
     map (\<lambda>b. [226, 128, b]) ([128..<139] @ [168, 169, 175]) @
     [[226, 129, 159], [227, 128, 128]]"

fun strip_codes :: "nat list list \<Rightarrow> nat \<Rightarrow> string \<Rightarrow> string" where
  "strip_codes ws 0 s = s"
| "strip_codes ws (Suc n) s =
     (case find (\<lambda>w. take (length w) (map of_char s) = w) ws of
        None \<Rightarrow> s
      | Some w \<Rightarrow> strip_codes ws n (drop (length w) s))"

definition trim_start :: "string \<Rightarrow> string" where
  "trim_start s = strip_codes white_codes (length s) s"

definition trim_end :: "string \<Rightarrow> string" where
  "trim_end s = rev (strip_codes (map rev white_codes) (length s) (rev s))"

definition trim :: "string \<Rightarrow> string" where
  "trim s = trim_end (trim_start s)"

text \<open>Characters no white space begins or ends with: the ASCII ones above the blank.\<close>

definition visible :: "char \<Rightarrow> bool" where
  "visible c \<longleftrightarrow> 32 < (of_char c :: nat) \<and> (of_char c :: nat) < 128"

lemma white_ends:
  "list_all (\<lambda>w. w \<noteq> [] \<and> (hd w \<le> 32 \<or> 128 \<le> hd w) \<and> (hd (rev w) \<le> 32 \<or> 128 \<le> hd (rev w))) white_codes"
  by code_simp

lemma strip_codes_visible:
  assumes "list_all (\<lambda>w. w \<noteq> [] \<and> (hd w \<le> 32 \<or> 128 \<le> hd w)) ws" and "visible c"
  shows "strip_codes ws n (c # s) = c # s"
proof -
  have "take (length w) (map of_char (c # s)) \<noteq> w" if w: "w \<in> set ws" for w
  proof
    assume eq: "take (length w) (map of_char (c # s)) = w"
    from w assms(1) have "w \<noteq> []" and hd: "hd w \<le> 32 \<or> 128 \<le> hd w" by (auto simp: list_all_iff)
    from \<open>w \<noteq> []\<close> eq have "hd w = of_char c" by (metis hd_map hd_take length_greater_0_conv list.sel(1) list.simps(3))
    with hd assms(2) show False by (simp add: visible_def)
  qed
  then have "find (\<lambda>w. take (length w) (map of_char (c # s)) = w) ws = None"
    by (simp only: find_None_iff) blast
  then show ?thesis by (cases n) simp_all
qed

lemma trim_visible:
  assumes "s \<noteq> []" and "visible (hd s)" and "visible (last s)"
  shows "trim s = s"
proof -
  have ws: "list_all (\<lambda>w. w \<noteq> [] \<and> (hd w \<le> 32 \<or> 128 \<le> hd w)) white_codes"
    "list_all (\<lambda>w. w \<noteq> [] \<and> (hd w \<le> 32 \<or> 128 \<le> hd w)) (map rev white_codes)"
    using white_ends by (auto simp: list_all_iff)
  from assms(1,2) have "trim_start s = s"
    using strip_codes_visible [OF ws(1), of "hd s" "length s" "tl s"] by (simp add: trim_start_def)
  moreover have "rev s = last s # rev (butlast s)"
    using assms(1) by (metis append_butlast_last_id rev.simps(2) rev_rev_ident)
  then have "trim_end s = s"
    using assms(1,3) by (simp only: trim_end_def strip_codes_visible [OF ws(2)]) simp
  ultimately show ?thesis by (simp add: trim_def)
qed

lemma trim_Nil [simp]: "trim [] = []"
  by (simp add: trim_def trim_start_def trim_end_def)

section \<open>Decimal numbers\<close>

definition digit :: "nat \<Rightarrow> char" where
  "digit d = char_of (48 + d)"

definition is_ascii_digit :: "char \<Rightarrow> bool" where
  "is_ascii_digit c \<longleftrightarrow> 48 \<le> (of_char c :: nat) \<and> (of_char c :: nat) \<le> 57"

definition digit_val :: "char \<Rightarrow> nat" where
  "digit_val c = of_char c - 48"

text \<open>The \<^verbatim>\<open>Display\<close> of an integer type.\<close>

fun show_nat :: "nat \<Rightarrow> string" where
  "show_nat n = (if n < 10 then [digit n] else show_nat (n div 10) @ [digit (n mod 10)])"

declare show_nat.simps [simp del]

definition show_int :: "int \<Rightarrow> string" where
  "show_int i = (if i < 0 then CHR ''-'' # show_nat (nat (- i)) else show_nat (nat i))"

definition digits_val :: "string \<Rightarrow> nat" where
  "digits_val s = foldl (\<lambda>v c. v * 10 + digit_val c) 0 s"

text \<open>
  \<^verbatim>\<open>str::parse::<i64>\<close>: an optional sign, at least one digit, nothing else, and a value that fits.
\<close>

definition parse_i64 :: "string \<Rightarrow> int option" where
  "parse_i64 s =
     (let (negative, ds) =
        (case s of
           [] \<Rightarrow> (False, [])
         | c # rest \<Rightarrow>
             if c = CHR ''-'' then (True, rest) else if c = CHR ''+'' then (False, rest) else (False, s));
          v = (if negative then - int (digits_val ds) else int (digits_val ds))
      in
      if ds \<noteq> [] \<and> list_all is_ascii_digit ds \<and> - (2 ^ 63) \<le> v \<and> v < 2 ^ 63 then Some v else None)"

lemma of_char_digit: "d < 10 \<Longrightarrow> of_char (digit d) = 48 + d"
  by (simp add: digit_def)

lemma digit_simps: "d < 10 \<Longrightarrow> is_ascii_digit (digit d)" "d < 10 \<Longrightarrow> digit_val (digit d) = d"
  by (simp_all add: is_ascii_digit_def digit_val_def of_char_digit)

lemma digits_val_snoc: "digits_val (s @ [c]) = digits_val s * 10 + digit_val c"
  by (simp add: digits_val_def)

lemma digits_val_show_nat [simp]: "digits_val (show_nat n) = n"
proof (induction n rule: show_nat.induct)
  case (1 n)
  then show ?case
    by (subst show_nat.simps) (simp add: digits_val_snoc digit_simps digits_val_def [of "[_]"])
qed

lemma show_nat_nonempty [simp]: "show_nat n \<noteq> []"
  by (subst show_nat.simps) simp

lemma show_nat_digits: "list_all is_ascii_digit (show_nat n)"
proof (induction n rule: show_nat.induct)
  case (1 n)
  then show ?case
    by (subst show_nat.simps) (simp add: digit_simps)
qed

lemma is_ascii_digit_neq:
  assumes "is_ascii_digit c"
  shows "c \<noteq> CHR ''-''" "c \<noteq> CHR ''+''" "c \<noteq> CHR '':''" "c \<noteq> CHR '',''" "c \<noteq> CHR ''[''" "c \<noteq> CHR '']''"
    "c \<noteq> CHR ''/''" "visible c"
  using assms by (auto simp: is_ascii_digit_def visible_def)

lemma show_nat_notin:
  "CHR ''-'' \<notin> set (show_nat n)" "CHR '':'' \<notin> set (show_nat n)" "CHR '','' \<notin> set (show_nat n)"
  "CHR ''['' \<notin> set (show_nat n)" "CHR '']'' \<notin> set (show_nat n)" "CHR ''/'' \<notin> set (show_nat n)"
  using show_nat_digits [of n] by (auto simp: list_all_iff dest: is_ascii_digit_neq)

lemma parse_i64_show_nat: "n < 2 ^ 63 \<Longrightarrow> parse_i64 (show_nat n) = Some (int n)"
proof -
  assume n: "n < 2 ^ 63"
  obtain c rest where s: "show_nat n = c # rest" by (cases "show_nat n") auto
  with show_nat_digits [of n] have d: "is_ascii_digit c" by simp
  have "int n < 2 ^ 63" using n by (metis of_nat_less_iff of_nat_numeral of_nat_power)
  with d s show_nat_digits [of n] digits_val_show_nat [of n] show ?thesis
    by (simp add: parse_i64_def Let_def is_ascii_digit_neq)
qed

section \<open>Character classes\<close>

definition is_ascii_alphanumeric :: "char \<Rightarrow> bool" where
  "is_ascii_alphanumeric c \<longleftrightarrow>
     (let b = of_char c :: nat in
      48 \<le> b \<and> b \<le> 57 \<or> 65 \<le> b \<and> b \<le> 90 \<or> 97 \<le> b \<and> b \<le> 122)"

lemma alphanumeric_neq:
  assumes "is_ascii_alphanumeric c"
  shows "c \<noteq> CHR ''/''" "c \<noteq> CHR 0x27" "c \<noteq> CHR ''_''" "(of_char c :: nat) < 128"
  using assms by (auto simp: is_ascii_alphanumeric_def Let_def)

section \<open>Lossy decoding\<close>

text \<open>
  The next chunk of \<^verbatim>\<open>String::from_utf8_lossy\<close>: whether a character starts at \<open>a\<close>, and how many bytes it
  or the broken sequence takes.
\<close>

definition utf8_second :: "nat \<Rightarrow> nat \<Rightarrow> bool" where
  "utf8_second a b =
     (if a = 224 then 160 \<le> b \<and> b \<le> 191
      else if a = 237 then 128 \<le> b \<and> b \<le> 159
      else if a = 240 then 144 \<le> b \<and> b \<le> 191
      else if a = 244 then 128 \<le> b \<and> b \<le> 143
      else utf8_cont b)"

definition utf8_chunk :: "nat \<Rightarrow> nat list \<Rightarrow> bool \<times> nat" where
  "utf8_chunk a bs =
     (if a < 128 then (True, 1)
      else if 194 \<le> a \<and> a \<le> 223 then
        (case bs of b # _ \<Rightarrow> if utf8_cont b then (True, 2) else (False, 1) | [] \<Rightarrow> (False, 1))
      else if 224 \<le> a \<and> a \<le> 239 then
        (case bs of
           b # cs \<Rightarrow>
             if utf8_second a b then
               (case cs of c # _ \<Rightarrow> if utf8_cont c then (True, 3) else (False, 2) | [] \<Rightarrow> (False, 2))
             else (False, 1)
         | [] \<Rightarrow> (False, 1))
      else if 240 \<le> a \<and> a \<le> 244 then
        (case bs of
           b # cs \<Rightarrow>
             if utf8_second a b then
               (case cs of
                  c # ds \<Rightarrow>
                    if utf8_cont c then
                      (case ds of d # _ \<Rightarrow> if utf8_cont d then (True, 4) else (False, 3) | [] \<Rightarrow> (False, 3))
                    else (False, 2)
                | [] \<Rightarrow> (False, 2))
             else (False, 1)
         | [] \<Rightarrow> (False, 1))
      else (False, 1))"

lemma utf8_chunk_pos: "utf8_chunk a bs = (v, n) \<Longrightarrow> 0 < n"
  by (auto simp: utf8_chunk_def split: if_splits list.splits)

function lossy_codes :: "nat list \<Rightarrow> nat list" where
  "lossy_codes [] = []"
| "lossy_codes (a # bs) =
     (case utf8_chunk a bs of
        (valid, n) \<Rightarrow>
          (if valid then take n (a # bs) else [239, 191, 189]) @ lossy_codes (drop n (a # bs)))"
  by pat_completeness auto
termination
  by (relation "measure length") (auto dest!: utf8_chunk_pos [OF sym])

definition from_utf8_lossy :: "bytes \<Rightarrow> string" where
  "from_utf8_lossy bs = map char_of (lossy_codes (map unat bs))"

text \<open>
  Two buffers with the same ASCII bytes, in which other bytes stand in blocks at the same places.
\<close>

inductive same_ascii :: "nat list \<Rightarrow> nat list \<Rightarrow> bool" where
  same_Nil: "same_ascii [] []"
| same_Cons: "a < 128 \<Longrightarrow> same_ascii xs ys \<Longrightarrow> same_ascii (a # xs) (a # ys)"
| same_block: "us \<noteq> [] \<Longrightarrow> vs \<noteq> [] \<Longrightarrow> list_all (\<lambda>u. 128 \<le> u) us \<Longrightarrow> list_all (\<lambda>v. 128 \<le> v) vs \<Longrightarrow>
    same_ascii xs ys \<Longrightarrow> same_ascii (us @ xs) (vs @ ys)"

lemma utf8_chunk_high:
  "utf8_chunk a bs = (v, n) \<Longrightarrow> 128 \<le> a \<Longrightarrow> list_all (\<lambda>u. 128 \<le> u) (take n (a # bs))"
  by (auto simp: utf8_chunk_def utf8_second_def utf8_cont_def
      split: if_splits list.splits)

lemma lossy_same_ascii: "same_ascii bs (lossy_codes bs)"
proof (induction bs rule: lossy_codes.induct)
  case 1
  then show ?case by (simp add: same_Nil)
next
  case (2 a bs)
  obtain v n where c: "utf8_chunk a bs = (v, n)" by (cases "utf8_chunk a bs")
  note IH = 2 [OF c [symmetric]]
  show ?case
  proof (cases "a < 128")
    case True
    with c have "v" "n = 1" by (auto simp: utf8_chunk_def)
    with IH c True show ?thesis by (auto intro: same_Cons)
  next
    case False
    with utf8_chunk_high [OF c] have h: "list_all (\<lambda>u. 128 \<le> u) (take n (a # bs))" by simp
    have n: "take n (a # bs) \<noteq> []" using utf8_chunk_pos [OF c] by simp
    have "same_ascii (take n (a # bs) @ drop n (a # bs))
        ((if v then take n (a # bs) else [239, 191, 189]) @ lossy_codes (drop n (a # bs)))"
      by (rule same_block) (use h n IH in auto)
    with c show ?thesis by simp
  qed
qed

lemma utf8_codes_chunk:
  "utf8_chunk a bs = (True, n) \<Longrightarrow> utf8_codes (take n (a # bs) @ xs) \<longleftrightarrow> utf8_codes xs"
  by (auto simp: utf8_chunk_def utf8_second_def
      split: if_splits list.splits)

lemma utf8_codes_lossy: "utf8_codes (lossy_codes bs)"
proof (induction bs rule: lossy_codes.induct)
  case (2 a bs)
  obtain v n where c: "utf8_chunk a bs = (v, n)" by (cases "utf8_chunk a bs")
  note IH = 2 [OF c [symmetric]]
  with c show ?case
    by (cases v) (simp_all add: utf8_codes_chunk utf8_cont_def del: take_Suc_Cons)
qed simp

lemma from_utf8_lossy_codes: "map of_char (from_utf8_lossy bs) = lossy_codes (map unat bs)"
proof -
  have "list_all (\<lambda>c. c < 256) (lossy_codes cs)" if "list_all (\<lambda>c. c < 256) cs" for cs
    using that
  proof (induction cs rule: lossy_codes.induct)
    case (2 a cs)
    obtain v n where c: "utf8_chunk a cs = (v, n)" by (cases "utf8_chunk a cs")
    from 2(2) have "list_all (\<lambda>c. c < 256) (take n (a # cs))" "list_all (\<lambda>c. c < 256) (drop n (a # cs))"
      unfolding list_all_iff by (meson in_set_takeD in_set_dropD)+
    with 2(1) [OF c [symmetric]] c show ?case by simp
  qed simp
  from this [of "map unat bs"] have "list_all (\<lambda>c. c < 256) (lossy_codes (map unat bs))"
    by (simp add: list_all_iff unat_u8_less)
  then show ?thesis
    by (simp add: from_utf8_lossy_def list_all_iff map_idI)
qed

lemma utf8_valid_from_utf8_lossy: "utf8_valid (from_utf8_lossy bs)"
  by (simp add: utf8_valid_def from_utf8_lossy_codes utf8_codes_lossy)

lemma same_ascii_sym: "same_ascii xs ys \<Longrightarrow> same_ascii ys xs"
  by (induction rule: same_ascii.induct) (auto intro: same_ascii.intros)

lemma same_ascii_take:
  assumes "same_ascii xs ys" and "n \<le> length xs" and "list_all (\<lambda>x. x < 128) (take n xs)"
  shows "n \<le> length ys \<and> take n ys = take n xs \<and> same_ascii (drop n xs) (drop n ys)"
  using assms
proof (induction arbitrary: n rule: same_ascii.induct)
  case same_Nil
  then show ?case by (simp add: same_ascii.same_Nil)
next
  case (same_Cons a xs ys)
  show ?case
  proof (cases n)
    case 0
    with same_Cons show ?thesis by (simp add: same_ascii.same_Cons)
  qed (use same_Cons in auto)
next
  case (same_block us vs xs ys)
  have "n = 0"
    using same_block by (cases n; cases us) auto
  with same_block show ?case by (auto intro: same_ascii.same_block)
qed

text \<open>What follows the first occurrence of a pattern.\<close>

fun after :: "'a list \<Rightarrow> 'a list \<Rightarrow> 'a list option" where
  "after m [] = (if m = [] then Some [] else None)"
| "after m (x # xs) = (if take (length m) (x # xs) = m then Some (drop (length m) (x # xs)) else after m xs)"

lemma after_high:
  assumes "m \<noteq> []" and "list_all (\<lambda>x. x < 128) m" and "list_all (\<lambda>u. 128 \<le> (u :: nat)) us"
  shows "after m (us @ xs) = after m xs"
  using assms(3)
proof (induction us)
  case (Cons u us)
  have "take (length m) (u # us @ xs) \<noteq> m"
    using assms(1,2) Cons.prems by (cases m) auto
  with Cons show ?case by simp
qed simp

lemma after_same_ascii:
  assumes "m \<noteq> []" and "list_all (\<lambda>x. x < 128) m" and "same_ascii xs ys"
  shows "rel_option same_ascii (after m xs) (after m ys)"
  using assms(3)
proof (induction rule: same_ascii.induct)
  case (same_Cons a xs ys)
  have same: "same_ascii (a # xs) (a # ys)" using same_Cons by (simp add: same_ascii.same_Cons)
  have fwd: "take (length m) us = m \<Longrightarrow> take (length m) vs = m \<and> same_ascii (drop (length m) us) (drop (length m) vs)"
    if "same_ascii us vs" for us vs
    using same_ascii_take [OF that, of "length m"] assms(2) by (metis length_take min.absorb_iff1 min.commute nat_le_linear take_all)
  show ?case
  proof (cases "take (length m) (a # xs) = m")
    case True
    with fwd [OF same] show ?thesis by simp
  next
    case False
    with fwd [OF same_ascii_sym [OF same]] have "take (length m) (a # ys) \<noteq> m" by blast
    with False same_Cons show ?thesis by simp
  qed
qed (use assms in \<open>simp_all add: after_high\<close>)

end
