(* ===== verification/Ids.thy ===== *)
theory Ids
  imports Text
begin

text \<open>
  \<^verbatim>\<open>crates/et-proto/src/ids.rs\<close>: client ids and passkeys. The system's randomness (\<^verbatim>\<open>getrandom\<close>) is a
  parameter, the list of what its next calls return: a filled buffer, or an error, on which the
  code panics. A sampling loop that has used up the list is still waiting for randomness.
\<close>

section \<open>Sampling\<close>

definition ID_LEN :: nat where
  "ID_LEN = 16"

definition PASSKEY_LEN :: nat where
  "PASSKEY_LEN = 32"

definition ALPHANUM :: bytes where
  "ALPHANUM = str_bytes ''0123456789ABCDEFGHIJKLMNOPQRSTUVWXYZabcdefghijklmnopqrstuvwxyz''"

datatype 'a drawn = Drawn 'a "bytes option list" | Panicked | Waiting

text \<open>The \<^verbatim>\<open>for\<close> loop over one buffer.\<close>

fun sample_buf :: "nat \<Rightarrow> bytes \<Rightarrow> bytes \<Rightarrow> bytes" where
  "sample_buf len out [] = out"
| "sample_buf len out (b # bs) =
     (if unat b < length ALPHANUM then
        (let out' = out @ [ALPHANUM ! unat b] in
         if length out' = len then out' else sample_buf len out' bs)
      else sample_buf len out bs)"

fun sample_loop :: "nat \<Rightarrow> bytes \<Rightarrow> bytes option list \<Rightarrow> bytes drawn" where
  "sample_loop len out fills =
     (if length out < len then
        (case fills of
           [] \<Rightarrow> Waiting
         | None # _ \<Rightarrow> Panicked
         | Some buf # rest \<Rightarrow> sample_loop len (sample_buf len out buf) rest)
      else Drawn out fills)"

declare sample_loop.simps [simp del]

definition random_alphanum :: "nat \<Rightarrow> bytes option list \<Rightarrow> bytes drawn" where
  "random_alphanum len fills = sample_loop len [] fills"

definition generate_id_passkey :: "bytes option list \<Rightarrow> (string \<times> string) drawn" where
  "generate_id_passkey fills =
     (case random_alphanum ID_LEN fills of
        Drawn id0 fills1 \<Rightarrow>
          (if length id0 < 3 then Panicked
           else
             (let id1 = id0[0 := 88, 1 := 88, 2 := 88] in
              if \<not> utf8_valid (bytes_str id1) then Panicked
              else
                (case random_alphanum PASSKEY_LEN fills1 of
                   Drawn passkey fills2 \<Rightarrow>
                     (if \<not> utf8_valid (bytes_str passkey) then Panicked
                      else Drawn (bytes_str id1, bytes_str passkey) fills2)
                 | Panicked \<Rightarrow> Panicked
                 | Waiting \<Rightarrow> Waiting)))
      | Panicked \<Rightarrow> Panicked
      | Waiting \<Rightarrow> Waiting)"

section \<open>The loop as a filter\<close>

text \<open>The characters a run of random bytes stands for: the bytes below 62, as indices.\<close>

definition kept :: "bytes \<Rightarrow> bytes" where
  "kept bs = map (\<lambda>b. ALPHANUM ! unat b) (filter (\<lambda>b. unat b < 62) bs)"

lemma length_ALPHANUM [simp]: "length ALPHANUM = 62"
  by (simp add: ALPHANUM_def)

lemma kept_simps [simp]:
  "kept [] = []"
  "kept (b # bs) = (if unat b < 62 then ALPHANUM ! unat b # kept bs else kept bs)"
  "kept (xs @ ys) = kept xs @ kept ys"
  by (simp_all add: kept_def)

lemma sample_buf_eq: "length out < len \<Longrightarrow> sample_buf len out bs = take len (out @ kept bs)"
proof (induction bs arbitrary: out)
  case (Cons b bs)
  show ?case
  proof (cases "Suc (length out) = len")
    case False
    with Cons.prems have "Suc (length out) < len" by simp
    with Cons.IH [of "out @ [ALPHANUM ! unat b]"] Cons.IH [OF Cons.prems] show ?thesis
      by (auto simp: Let_def)
  qed (use Cons in \<open>auto simp: Let_def\<close>)
qed simp

lemma sample_loop_cases:
  "len \<le> length out \<Longrightarrow> sample_loop len out fills = Drawn out fills"
  "length out < len \<Longrightarrow> sample_loop len out [] = Waiting"
  "length out < len \<Longrightarrow> sample_loop len out (Some buf # fills) = sample_loop len (sample_buf len out buf) fills"
  by (simp_all add: sample_loop.simps [of len out])

lemma sample_loop_eq:
  "length out \<le> len \<Longrightarrow>
    (if len \<le> length (out @ kept (concat bufs))
     then \<exists>rest. sample_loop len out (map Some bufs) = Drawn (take len (out @ kept (concat bufs))) rest \<and>
       (\<exists>k. rest = map Some (drop k bufs))
     else sample_loop len out (map Some bufs) = Waiting)"
proof (induction bufs arbitrary: out)
  case Nil
  then show ?case by (auto simp: sample_loop_cases not_le)
next
  case (Cons buf bufs)
  show ?case
  proof (cases "length out < len")
    case True
    let ?out = "take len (out @ kept buf)"
    have step: "sample_loop len out (map Some (buf # bufs)) = sample_loop len ?out (map Some bufs)"
      using True by (simp add: sample_loop_cases sample_buf_eq)
    have same: "take len (?out @ kept (concat bufs)) = take len (out @ kept (concat (buf # bufs)))"
      by (simp add: min_def)
    have len: "len \<le> length (?out @ kept (concat bufs)) \<longleftrightarrow> len \<le> length (out @ kept (concat (buf # bufs)))"
      by auto
    have drop: "(\<exists>k. r = map Some (drop k bufs)) \<Longrightarrow> (\<exists>k. r = map Some (drop k (buf # bufs)))" for r
      by (metis drop_Suc_Cons)
    show ?thesis
    proof (cases "len \<le> length (out @ kept (concat (buf # bufs)))")
      case True
      with Cons.IH [of ?out] obtain rest where
        "sample_loop len ?out (map Some bufs) = Drawn (take len (?out @ kept (concat bufs))) rest"
        "\<exists>k. rest = map Some (drop k bufs)"
        unfolding len by (auto simp del: take_append append_take_drop_id)
      then show ?thesis
        using True drop unfolding step same by auto
    next
      case False
      with Cons.IH [of ?out] have "sample_loop len ?out (map Some bufs) = Waiting"
        unfolding len by (auto simp del: take_append)
      with False show ?thesis unfolding step by simp
    qed
  next
    case False
    with Cons.prems have "sample_loop len out (map Some (buf # bufs)) = Drawn out (map Some (drop 0 (buf # bufs)))"
      by (simp add: sample_loop_cases)
    moreover have "take len (out @ kept (concat (buf # bufs))) = out" and "len \<le> length (out @ kept (concat (buf # bufs)))"
      using False Cons.prems by auto
    ultimately show ?thesis by (metis drop0)
  qed
qed

lemma ALPHANUM_alphanumeric: "list_all is_ascii_alphanumeric (bytes_str ALPHANUM)"
  by (simp add: ALPHANUM_def is_ascii_alphanumeric_def Let_def)

lemma kept_alphanumeric: "list_all is_ascii_alphanumeric (bytes_str (kept bs))"
  using ALPHANUM_alphanumeric by (auto simp: list_all_iff bytes_str_def kept_def)

lemma alphanumeric_utf8: "list_all is_ascii_alphanumeric s \<Longrightarrow> utf8_valid s"
  by (rule utf8_valid_ascii) (auto simp: list_all_iff dest: alphanumeric_neq(4))

lemma sample_loop_uses:
  assumes "list_all (\<lambda>b. kept b \<noteq> []) bufs" and "len \<le> length out + length bufs"
  shows "\<exists>out' k. sample_loop len out (map Some bufs) = Drawn out' (map Some (drop k bufs)) \<and> k \<le> len - length out"
  using assms
proof (induction bufs arbitrary: out)
  case Nil
  then show ?case by (simp add: sample_loop_cases)
next
  case (Cons buf bufs)
  show ?case
  proof (cases "length out < len")
    case True
    let ?out = "sample_buf len out buf"
    have grow: "Suc (length out) \<le> length ?out"
      using True Cons.prems(1) by (cases "kept buf") (auto simp: sample_buf_eq)
    with Cons.prems have "len \<le> length ?out + length bufs" by simp
    with Cons.IH [of ?out] Cons.prems(1) obtain out' k where
      k: "sample_loop len ?out (map Some bufs) = Drawn out' (map Some (drop k bufs))" "k \<le> len - length ?out"
      by auto
    with True have "sample_loop len out (map Some (buf # bufs)) = Drawn out' (map Some (drop (Suc k) (buf # bufs)))"
      by (simp add: sample_loop_cases)
    moreover have "Suc k \<le> len - length out" using k(2) grow True by simp
    ultimately show ?thesis by blast
  qed (auto simp: sample_loop_cases intro: exI [of _ 0])
qed

lemma random_alphanum_bufs:
  "case random_alphanum len (map Some bufs) of
     Drawn out rest \<Rightarrow>
       len \<le> length (kept (concat bufs)) \<and> out = take len (kept (concat bufs)) \<and> (\<exists>k. rest = map Some (drop k bufs))
   | Panicked \<Rightarrow> False
   | Waiting \<Rightarrow> length (kept (concat bufs)) < len"
  using sample_loop_eq [of "[]" len bufs]
  by (auto simp: random_alphanum_def split: if_splits)

lemma bytes_str_take [simp]: "bytes_str (take n bs) = take n (bytes_str bs)"
  by (simp add: bytes_str_def take_map)

lemma bytes_str_update: "bytes_str (bs[i := b]) = (bytes_str bs)[i := char_of (unat b)]"
  by (simp add: bytes_str_def map_update)

lemma random_alphanum_Drawn:
  assumes "random_alphanum len (map Some bufs) = Drawn out rest"
  shows "length out = len" "list_all is_ascii_alphanumeric (bytes_str out)" "\<exists>k. rest = map Some (drop k bufs)"
  using random_alphanum_bufs [of len bufs] kept_alphanumeric [of "concat bufs"] assms
  by (auto simp: list_all_iff dest: in_set_takeD)

section \<open>Properties\<close>

text \<open>The sampling loop computes the filter it stands for: on any run of random buffers it
  returns exactly when they hold enough bytes below 62, and then the characters of the first
  \<open>len\<close> of those, having used up whole buffers from the front; it never panics.\<close>

theorem random_alphanum_reference:
  "case random_alphanum len (map Some bufs) of
     Drawn out rest \<Rightarrow>
       len \<le> length (kept (concat bufs)) \<and> out = take len (kept (concat bufs)) \<and> (\<exists>k. rest = map Some (drop k bufs))
   | Panicked \<Rightarrow> False
   | Waiting \<Rightarrow> length (kept (concat bufs)) < len"
  by (rule random_alphanum_bufs)

text \<open>Sampling is uniform: of the 256 values of a random byte exactly one gives each character of
  the alphabet, and none gives anything else.\<close>

theorem sample_uniform:
  "card {b :: u8. sample_buf 1 [] [b] = [c]} = (if c \<in> set ALPHANUM then 1 else 0)"
proof -
  have d: "distinct ALPHANUM"
    by (simp add: ALPHANUM_def str_bytes_def)
  have eq: "{b :: u8. sample_buf 1 [] [b] = [c]} = {b. unat b < 62 \<and> ALPHANUM ! unat b = c}"
    by (auto simp: Let_def)
  show ?thesis
  proof (cases "c \<in> set ALPHANUM")
    case True
    then obtain i where i: "i < 62" "ALPHANUM ! i = c" by (auto simp: in_set_conv_nth)
    have "{b :: u8. unat b < 62 \<and> ALPHANUM ! unat b = c} = {word_of_nat i}"
    proof (intro set_eqI iffI)
      fix b :: u8
      assume "b \<in> {b. unat b < 62 \<and> ALPHANUM ! unat b = c}"
      with i d have "unat b = i" by (auto simp: nth_eq_iff_index_eq)
      then show "b \<in> {word_of_nat i}" by auto
    qed (use i in \<open>auto simp: unat_word_of_nat8\<close>)
    with True show ?thesis unfolding eq by simp
  next
    case False
    then have "{b :: u8. unat b < 62 \<and> ALPHANUM ! unat b = c} = {}"
      by (auto simp: in_set_conv_nth)
    with False show ?thesis unfolding eq by simp
  qed
qed

text \<open>With working randomness a fresh client always gets its credentials: if each of forty-eight
  buffers holds a usable byte, the id has sixteen characters and starts with \<open>XXX\<close>, the passkey has
  the thirty-two bytes of a key, and every character of both is alphanumeric.\<close>

theorem generated_credentials:
  assumes "list_all (\<lambda>b. kept b \<noteq> []) bufs" and "ID_LEN + PASSKEY_LEN \<le> length bufs"
  shows "case generate_id_passkey (map Some bufs) of
      Drawn (i, p) rest \<Rightarrow>
        length i = ID_LEN \<and> take 3 i = ''XXX'' \<and> length p = PASSKEY_LEN \<and> list_all is_ascii_alphanumeric (i @ p)
    | _ \<Rightarrow> False"
proof -
  from sample_loop_uses [OF assms(1), of ID_LEN "[]"] assms(2) obtain id0 k where
    i: "random_alphanum ID_LEN (map Some bufs) = Drawn id0 (map Some (drop k bufs))" and k: "k \<le> ID_LEN"
    by (auto simp: random_alphanum_def)
  have "list_all (\<lambda>b. kept b \<noteq> []) (drop k bufs)" and "PASSKEY_LEN \<le> length ([] :: bytes) + length (drop k bufs)"
    using assms k by (auto simp: list_all_iff dest: in_set_dropD)
  from sample_loop_uses [OF this] obtain pk rest where
    p: "random_alphanum PASSKEY_LEN (map Some (drop k bufs)) = Drawn pk rest"
    by (auto simp: random_alphanum_def)
  note di = random_alphanum_Drawn [OF i] and dp = random_alphanum_Drawn [OF p]
  let ?id1 = "id0[0 := 88, 1 := 88, 2 := 88]"
  from di(1) obtain a b c t where "id0 = a # b # c # t"
    by (cases id0; cases "tl id0"; cases "tl (tl id0)") (auto simp: ID_LEN_def)
  moreover have "char_of (unat (88 :: u8)) = CHR ''X''"
    by (simp add: char_of_eq_iff)
  ultimately have x: "length ?id1 = ID_LEN" "take 3 (bytes_str ?id1) = ''XXX''"
    "list_all is_ascii_alphanumeric (bytes_str ?id1)" "\<not> length id0 < 3"
    using di by (simp_all add: bytes_str_def is_ascii_alphanumeric_def)
  with i p dp show ?thesis
    by (simp add: generate_id_passkey_def alphanumeric_utf8 Let_def)
qed

theorem generated_credentials_witness:
  "case generate_id_passkey (map Some (replicate 48 [10])) of Drawn (i, p) rest \<Rightarrow> take 3 i = ''XXX'' | _ \<Rightarrow> False"
proof -
  have "list_all (\<lambda>b. kept b \<noteq> []) (replicate 48 [10])" by (simp add: list_all_iff)
  moreover have "ID_LEN + PASSKEY_LEN \<le> length (replicate 48 [10 :: u8])"
    by (simp add: ID_LEN_def PASSKEY_LEN_def)
  ultimately show ?thesis
    using generated_credentials [of "replicate 48 [10]"] by (auto split: drawn.splits)
qed

end
