(* ===== verification/Engine.thy ===== *)
theory Engine
  imports Codec Ids "HOL-Library.AList" "HOL-Library.Multiset"
begin

text \<open>
  The port-forwarding engine of \<^verbatim>\<open>crates/et-proto/src/forward.rs\<close> (\<^verbatim>\<open>EngineState\<close>, \<^verbatim>\<open>run\<close> and what they
  call). A local TCP connection is a number; the tasks that serve it are \<open>read_task\<close> and \<open>write_task\<close>, and
  its \<^verbatim>\<open>Conn\<close> is the queue of the writer and whether the writer still takes data. A \<^verbatim>\<open>HashMap\<close> is an
  association list with distinct keys. After the fields of \<^verbatim>\<open>EngineState\<close> come the surroundings of the
  task: the packets it has sent to the session, whether that channel is still open, the shutdown
  watch, the picks of the select between a send and the watch, how the task stands, the listeners
  whose accept tasks run (by source index), its replies to commands, and two fields that only
  record the past: the connections that came in and those that were closed. The network, the
  randomness, the duplication of a socket and the texts of IO errors and durations are parameters.
  A send that has to wait for room in a bounded channel is part of the handler's step, which is then
  taken once there is room. A connection counts as closed when the engine lets go of it: its writer task may
  still drain the queue before the socket is shut, and one whose duplication failed, and whose socket is
  gone at once, keeps its entry until then. What a \<^verbatim>\<open>write_all\<close> that fails has written is not kept.
\<close>

section \<open>Data\<close>

definition MAX_DESTINATION_CONNECTIONS :: nat where
  "MAX_DESTINATION_CONNECTIONS = 256"

datatype local_event =
    Accepted nat nat
  | Read u32 "io_kind + bytes"

record Conn =
  conn_stream :: nat
  conn_q :: "bytes list"
  conn_open :: bool

datatype engine_status = Engine_running | Engine_stopped | Engine_panicked | Engine_waiting

record EngineState =
  sources :: "PortForwardSourceRequest list"
  next_conn_id :: u32
  pending :: "(u32 \<times> nat) list"
  source_sockets :: "(u32 \<times> Conn) list"
  source_conn_ids :: "(u32 \<times> u32) list"
  destinations :: "(u32 \<times> Conn) list"
  outbound :: "Packet list"
  outbound_open :: bool
  shutdown_raised :: bool
  picks :: "bool list"
  status :: engine_status
  listeners :: "(nat \<times> nat) list"
  cmd_replies :: "string list list"
  entered :: "nat list"
  closed :: "nat list"

definition EngineState_new :: "PortForwardSourceRequest list \<Rightarrow> EngineState" where
  "EngineState_new srcs =
     \<lparr>sources = srcs, next_conn_id = 1, pending = [], source_sockets = [], source_conn_ids = [], destinations = [],
      outbound = [], outbound_open = True, shutdown_raised = False, picks = [], status = Engine_running,
      listeners = [], cmd_replies = [], entered = [], closed = []\<rparr>"

section \<open>The tasks of a local connection\<close>

text \<open>What the read task sends on, given the results of its reads.\<close>

fun read_task :: "u32 \<Rightarrow> (io_kind + bytes) list \<Rightarrow> local_event list" where
  "read_task conn_id [] = []"
| "read_task conn_id (Inl e # rs) = [Read conn_id (Err e)]"
| "read_task conn_id (Inr bs # rs) =
     (if bs = [] then [Read conn_id (Ok [])] else Read conn_id (Ok bs) # read_task conn_id rs)"

fun write_task :: "bytes list \<Rightarrow> writer \<Rightarrow> writer" where
  "write_task [] w = w"
| "write_task (bs # q) w =
     (if bs = [] then w
      else
        (case write_all bs w of
           Inl e \<Rightarrow> w
         | Inr w' \<Rightarrow> write_task q w'))"

definition spawn_conn :: "bool \<Rightarrow> nat \<Rightarrow> Conn" where
  "spawn_conn dup_ok stream = \<lparr>conn_stream = stream, conn_q = [], conn_open = dup_ok\<rparr>"

definition drop_stream :: "nat \<Rightarrow> EngineState \<Rightarrow> EngineState" where
  "drop_stream stream s = s\<lparr>closed := closed s @ [stream]\<rparr>"

definition teardown :: "Conn \<Rightarrow> EngineState \<Rightarrow> EngineState" where
  "teardown conn s = drop_stream (conn_stream conn) s"

text \<open>Taking over the connection an insert or a remove of a map gives back, if any.\<close>

definition teardown_opt :: "Conn option \<Rightarrow> EngineState \<Rightarrow> EngineState" where
  "teardown_opt c s = (case c of None \<Rightarrow> s | Some conn \<Rightarrow> teardown conn s)"

section \<open>Packets of the engine\<close>

definition data_packet :: "buffa \<Rightarrow> u32 \<Rightarrow> bool \<Rightarrow> bytes \<Rightarrow> Packet" where
  "data_packet rt socket_id std bs =
     Packet_new PORT_FORWARD_DATA (write_to_PortForwardData rt
       (PortForwardData_default
         \<lparr>PortForwardData_sourcetodestination := Some std, PortForwardData_socketid := Some socket_id,
          PortForwardData_buffer := Some bs\<rparr>))"

definition closed_packet :: "buffa \<Rightarrow> u32 \<Rightarrow> bool \<Rightarrow> Packet" where
  "closed_packet rt socket_id std =
     Packet_new PORT_FORWARD_DATA (write_to_PortForwardData rt
       (PortForwardData_default
         \<lparr>PortForwardData_sourcetodestination := Some std, PortForwardData_socketid := Some socket_id,
          PortForwardData_closed := Some True\<rparr>))"

definition error_packet :: "buffa \<Rightarrow> (io_kind \<Rightarrow> string) \<Rightarrow> u32 \<Rightarrow> bool \<Rightarrow> io_kind \<Rightarrow> Packet" where
  "error_packet rt show_io socket_id std e =
     Packet_new PORT_FORWARD_DATA (write_to_PortForwardData rt
       (PortForwardData_default
         \<lparr>PortForwardData_sourcetodestination := Some std, PortForwardData_socketid := Some socket_id,
          PortForwardData_error := Some (show_io e)\<rparr>))"

text \<open>The select between an item and the shutdown watch: the watch can win only once it is raised.\<close>

definition pick :: "EngineState \<Rightarrow> bool \<times> EngineState" where
  "pick s =
     (if \<not> shutdown_raised s then (True, s)
      else (case picks s of [] \<Rightarrow> (True, s) | b # bs \<Rightarrow> (b, s\<lparr>picks := bs\<rparr>)))"

definition send_or_shutdown :: "Packet \<Rightarrow> EngineState \<Rightarrow> EngineState" where
  "send_or_shutdown packet s =
     (case pick s of
        (won, s) \<Rightarrow>
          if won \<and> outbound_open s then s\<lparr>outbound := outbound s @ [packet]\<rparr> else s)"

section \<open>Local events\<close>

definition handle_accepted :: "buffa \<Rightarrow> nat \<Rightarrow> nat \<Rightarrow> EngineState \<Rightarrow> EngineState" where
  "handle_accepted rt source_idx stream s0 =
     (let s = s0\<lparr>entered := entered s0 @ [stream]\<rparr> in
      case (if source_idx < length (sources s) then PortForwardSourceRequest_destination (sources s ! source_idx) else None) of
        None \<Rightarrow> drop_stream stream s
      | Some destination \<Rightarrow>
          (let conn_id = next_conn_id s;
               s1 = s\<lparr>next_conn_id := next_conn_id s + 1\<rparr>;
               old = map_of (pending s1) conn_id;
               s2 = (case old of None \<Rightarrow> s1 | Some st \<Rightarrow> drop_stream st s1)\<lparr>pending := AList.update conn_id stream (pending s1)\<rparr>
           in
           send_or_shutdown
             (Packet_new PORT_FORWARD_DESTINATION_REQUEST (write_to_PortForwardDestinationRequest rt
               (PortForwardDestinationRequest_default
                 \<lparr>PortForwardDestinationRequest_destination := Some destination,
                  PortForwardDestinationRequest_fd := Some conn_id\<rparr>))) s2))"

definition drop_source :: "u32 \<Rightarrow> u32 \<Rightarrow> EngineState \<Rightarrow> EngineState" where
  "drop_source conn_id socket_id s =
     (teardown_opt (map_of (source_sockets s) socket_id)
       (s\<lparr>source_sockets := AList.delete socket_id (source_sockets s)\<rparr>))
       \<lparr>source_conn_ids := AList.delete conn_id (source_conn_ids s)\<rparr>"

definition drop_destination :: "u32 \<Rightarrow> EngineState \<Rightarrow> EngineState" where
  "drop_destination socket_id s =
     teardown_opt (map_of (destinations s) socket_id)
       (s\<lparr>destinations := AList.delete socket_id (destinations s)\<rparr>)"

definition handle_read ::
    "buffa \<Rightarrow> (io_kind \<Rightarrow> string) \<Rightarrow> u32 \<Rightarrow> io_kind + bytes \<Rightarrow> EngineState \<Rightarrow> EngineState" where
  "handle_read rt show_io conn_id result s =
     (case map_of (source_conn_ids s) conn_id of
        Some socket_id \<Rightarrow>
          (case result of
             Inr bs \<Rightarrow>
               if bs \<noteq> [] then send_or_shutdown (data_packet rt socket_id True bs) s
               else drop_source conn_id socket_id (send_or_shutdown (closed_packet rt socket_id True) s)
           | Inl e \<Rightarrow>
               drop_source conn_id socket_id
                 (send_or_shutdown (closed_packet rt socket_id True)
                   (send_or_shutdown (error_packet rt show_io socket_id True e) s)))
      | None \<Rightarrow>
          if map_of (destinations s) conn_id = None then s
          else
            (case result of
               Inr bs \<Rightarrow>
                 if bs \<noteq> [] then send_or_shutdown (data_packet rt conn_id False bs) s
                 else drop_destination conn_id (send_or_shutdown (closed_packet rt conn_id False) s)
             | Inl e \<Rightarrow>
                 drop_destination conn_id
                   (send_or_shutdown (closed_packet rt conn_id False)
                     (send_or_shutdown (error_packet rt show_io conn_id False e) s))))"

section \<open>Destinations\<close>

record engine_net =
  connect_to :: "string \<Rightarrow> u16 \<Rightarrow> io_kind + nat"
  bind_to :: "string \<Rightarrow> u16 \<Rightarrow> io_kind + nat"
  fills :: "bytes option list"
  dup_ok :: bool

definition refuse :: "PortForwardDestinationRequest \<Rightarrow> string \<Rightarrow> PortForwardDestinationResponse" where
  "refuse request text =
     PortForwardDestinationResponse_default
       \<lparr>PortForwardDestinationResponse_clientfd := PortForwardDestinationRequest_fd request,
        PortForwardDestinationResponse_error := Some text\<rparr>"

definition random_u32 :: "bytes option list \<Rightarrow> u32 drawn" where
  "random_u32 rnd =
     (case rnd of
        [] \<Rightarrow> Waiting
      | None # rest \<Rightarrow> Panicked
      | Some buf # rest \<Rightarrow> Drawn (word_of_nat (le_val (take 4 buf))) rest)"

text \<open>The loop that draws a socket id no destination has.\<close>

fun fresh_socket_id :: "u32 list \<Rightarrow> bytes option list \<Rightarrow> u32 drawn" where
  "fresh_socket_id used [] = Waiting"
| "fresh_socket_id used (f # rnd) =
     (case random_u32 (f # rnd) of
        Drawn socket_id rest \<Rightarrow> if socket_id \<in> set used then fresh_socket_id used rnd else Drawn socket_id rest
      | Panicked \<Rightarrow> Panicked
      | Waiting \<Rightarrow> Waiting)"

definition connect_destination :: "engine_net \<Rightarrow> u16 \<Rightarrow> nat option" where
  "connect_destination net port =
     (case connect_to net ''::1'' port of
        Inr st \<Rightarrow> Some st
      | Inl _ \<Rightarrow> (case connect_to net ''127.0.0.1'' port of Inr st \<Rightarrow> Some st | Inl _ \<Rightarrow> None))"

definition create_destination ::
    "engine_net \<Rightarrow> PortForwardDestinationRequest \<Rightarrow> EngineState \<Rightarrow> (PortForwardDestinationResponse \<times> EngineState) drawn" where
  "create_destination net request s =
     (case Option.bind (PortForwardDestinationRequest_destination request) SocketEndpoint_port of
        None \<Rightarrow> Drawn (refuse request ''destination has no port'', s) (fills net)
      | Some port \<Rightarrow>
          if \<not> (0 \<le> sint port \<and> sint port \<le> 65535) then
            Drawn (refuse request (''destination port '' @ show_int (sint port) @ '' is out of range (must be 0-65535)''), s) (fills net)
          else if MAX_DESTINATION_CONNECTIONS \<le> length (destinations s) then
            Drawn (refuse request
              (''too many open destination connections ('' @ show_nat (length (destinations s)) @ ''); refusing''), s) (fills net)
          else
            (case connect_destination net (ucast port) of
               None \<Rightarrow> Drawn (refuse request ''could not connect to destination'', s) (fills net)
             | Some stream \<Rightarrow>
                 (case fresh_socket_id (map fst (destinations s)) (fills net) of
                    Drawn socket_id rest \<Rightarrow>
                      Drawn
                        (PortForwardDestinationResponse_default
                          \<lparr>PortForwardDestinationResponse_clientfd := PortForwardDestinationRequest_fd request,
                           PortForwardDestinationResponse_socketid := Some socket_id\<rparr>,
                         s\<lparr>entered := entered s @ [stream],
                           destinations := AList.update socket_id (spawn_conn (dup_ok net) stream) (destinations s)\<rparr>) rest
                  | Panicked \<Rightarrow> Panicked
                  | Waiting \<Rightarrow> Waiting)))"

section \<open>Packets of the peer\<close>

definition handle_request :: "buffa \<Rightarrow> bool \<Rightarrow> engine_net \<Rightarrow> bytes \<Rightarrow> EngineState \<Rightarrow> EngineState" where
  "handle_request rt answer_destinations net bs s =
     (case decode_PortForwardDestinationRequest rt bs of
        Inl e \<Rightarrow> s
      | Inr request \<Rightarrow>
          (case (if \<not> answer_destinations
                 then Drawn (refuse request ''port forwarding destinations are not enabled on this session'', s) (fills net)
                 else create_destination net request s) of
             Drawn (response, s') _ \<Rightarrow>
               send_or_shutdown
                 (Packet_new PORT_FORWARD_DESTINATION_RESPONSE (write_to_PortForwardDestinationResponse rt response)) s'
           | Panicked \<Rightarrow> s\<lparr>status := Engine_panicked\<rparr>
           | Waiting \<Rightarrow> s\<lparr>status := Engine_waiting\<rparr>))"

definition handle_response :: "buffa \<Rightarrow> engine_net \<Rightarrow> bytes \<Rightarrow> EngineState \<Rightarrow> EngineState" where
  "handle_response rt net bs s =
     (case decode_PortForwardDestinationResponse rt bs of
        Inl e \<Rightarrow> s
      | Inr response \<Rightarrow>
          (case PortForwardDestinationResponse_clientfd response of
             None \<Rightarrow> s
           | Some conn_id \<Rightarrow>
               (case map_of (pending s) conn_id of
                  None \<Rightarrow> s
                | Some stream \<Rightarrow>
                    (let s1 = s\<lparr>pending := AList.delete conn_id (pending s)\<rparr> in
                     case PortForwardDestinationResponse_socketid response of
                       Some socket_id \<Rightarrow>
                         (teardown_opt (map_of (source_sockets s1) socket_id)
                           (s1\<lparr>source_sockets := AList.update socket_id (spawn_conn (dup_ok net) stream) (source_sockets s1)\<rparr>))
                           \<lparr>source_conn_ids := AList.update conn_id socket_id (source_conn_ids s1)\<rparr>
                     | None \<Rightarrow> drop_stream stream s1))))"

text \<open>The table a data packet is for: the peer's source feeds our destinations, and the other way round.\<close>

definition table :: "bool \<Rightarrow> EngineState \<Rightarrow> (u32 \<times> Conn) list" where
  "table std s = (if std then destinations s else source_sockets s)"

definition set_table :: "bool \<Rightarrow> (u32 \<times> Conn) list \<Rightarrow> EngineState \<Rightarrow> EngineState" where
  "set_table std t s = (if std then s\<lparr>destinations := t\<rparr> else s\<lparr>source_sockets := t\<rparr>)"

definition handle_data :: "buffa \<Rightarrow> bytes \<Rightarrow> EngineState \<Rightarrow> EngineState" where
  "handle_data rt bs s =
     (case decode_PortForwardData rt bs of
        Inl e \<Rightarrow> s
      | Inr pwd \<Rightarrow>
          (case PortForwardData_socketid pwd of
             None \<Rightarrow> s
           | Some socket_id \<Rightarrow>
               (let is_closed = (PortForwardData_closed pwd = Some True \<or> PortForwardData_error pwd \<noteq> None);
                    std = (PortForwardData_sourcetodestination pwd = Some True)
                in
                case map_of (table std s) socket_id of
                  None \<Rightarrow> s
                | Some conn \<Rightarrow>
                    (let s1 = set_table std (AList.delete socket_id (table std s)) s in
                     if is_closed then teardown conn s1
                     else
                       (case PortForwardData_buffer pwd of
                          Some buf \<Rightarrow>
                            (case pick s1 of
                               (won, s2) \<Rightarrow>
                                 if won \<and> conn_open conn
                                 then set_table std (AList.update socket_id (conn\<lparr>conn_q := conn_q conn @ [buf]\<rparr>) (table std s2)) s2
                                 else teardown conn s2)
                        | None \<Rightarrow> set_table std (AList.update socket_id conn (table std s1)) s1)))))"

definition handle_peer_packet :: "buffa \<Rightarrow> bool \<Rightarrow> engine_net \<Rightarrow> Packet \<Rightarrow> EngineState \<Rightarrow> EngineState" where
  "handle_peer_packet rt answer_destinations net packet s =
     (if header packet = PORT_FORWARD_DESTINATION_REQUEST then handle_request rt answer_destinations net (payload packet) s
      else if header packet = PORT_FORWARD_DESTINATION_RESPONSE then handle_response rt net (payload packet) s
      else if header packet = PORT_FORWARD_DATA then handle_data rt (payload packet) s
      else s)"

section \<open>Source listeners\<close>

text \<open>Binding: the listeners that are live, by their index in the source table, and the errors.\<close>

fun bind_source_listeners ::
    "(string \<Rightarrow> u16 \<Rightarrow> io_kind + nat) \<Rightarrow> (io_kind \<Rightarrow> string) \<Rightarrow> PortForwardSourceRequest list \<Rightarrow> nat \<Rightarrow>
      (nat \<times> nat) list \<times> string list" where
  "bind_source_listeners bind show_io [] idx = ([], [])"
| "bind_source_listeners bind show_io (pfsr # rest) idx =
     (case bind_source_listeners bind show_io rest (Suc idx) of
        (bound, errs) \<Rightarrow>
          (case PortForwardSourceRequest_source pfsr of
             None \<Rightarrow> (bound, errs)
           | Some source \<Rightarrow>
               (case SocketEndpoint_port source of
                  None \<Rightarrow> (bound, errs)
                | Some port \<Rightarrow>
                    (let host = (case SocketEndpoint_name source of None \<Rightarrow> ''localhost'' | Some n \<Rightarrow> n) in
                     case bind host (ucast port) of
                       Inr listener \<Rightarrow> ((idx, listener) # bound, errs)
                     | Inl e \<Rightarrow> (bound, (host @ '':'' @ show_int (sint port) @ '': '' @ show_io e) # errs)))))"

text \<open>The accept loop of a listener: what it sends on, given what its select yields.\<close>

datatype accept_item = Watch bool | Accept_result "io_kind + nat"

fun accept_loop :: "nat \<Rightarrow> accept_item list \<Rightarrow> local_event list" where
  "accept_loop source_idx [] = []"
| "accept_loop source_idx (Watch raised # items) = (if raised then [] else accept_loop source_idx items)"
| "accept_loop source_idx (Accept_result r # items) =
     (case r of
        Inr stream \<Rightarrow> Accepted source_idx stream # accept_loop source_idx items
      | Inl e \<Rightarrow> accept_loop source_idx items)"

section \<open>The engine task\<close>

definition teardown_all :: "EngineState \<Rightarrow> EngineState" where
  "teardown_all s =
     s\<lparr>closed := closed s @ map (conn_stream \<circ> snd) (source_sockets s) @ map (conn_stream \<circ> snd) (destinations s) @
          map snd (pending s),
       source_sockets := [], destinations := [], pending := [], source_conn_ids := []\<rparr>"

text \<open>The end of \<^verbatim>\<open>run\<close>: the watch is raised, everything is torn down, and the channels close.\<close>

definition engine_end :: "EngineState \<Rightarrow> EngineState" where
  "engine_end s = (teardown_all (s\<lparr>shutdown_raised := True\<rparr>))\<lparr>outbound_open := False, listeners := [], status := Engine_stopped\<rparr>"

datatype engine_cmd = AddSources "PortForwardSourceRequest list" | Engine_Shutdown

definition add_sources :: "(io_kind \<Rightarrow> string) \<Rightarrow> engine_net \<Rightarrow> PortForwardSourceRequest list \<Rightarrow> EngineState \<Rightarrow> EngineState" where
  "add_sources show_io net new_sources s =
     (case bind_source_listeners (bind_to net) show_io new_sources (length (sources s)) of
        (bound, bind_errors) \<Rightarrow>
          s\<lparr>sources := sources s @ new_sources, listeners := listeners s @ bound,
            cmd_replies := cmd_replies s @ [bind_errors]\<rparr>)"

datatype engine_stimulus =
    Engine_cmd "engine_cmd option" engine_net
  | Peer "Packet option" engine_net
  | Local "local_event option"
  | Raise_shutdown "bool list"
  | Session_gone
  | Conn_drain bool u32 nat
  | Conn_dies bool u32

text \<open>What happens around the task: the watch, the session's end of the channel, the writers.\<close>

definition engine_environment :: "engine_stimulus \<Rightarrow> EngineState \<Rightarrow> EngineState" where
  "engine_environment e s =
     (case e of
        Raise_shutdown ps \<Rightarrow> s\<lparr>shutdown_raised := True, picks := ps\<rparr>
      | Session_gone \<Rightarrow> s\<lparr>outbound_open := False\<rparr>
      | Conn_drain std i n \<Rightarrow>
          set_table std (map (\<lambda>(k, c). (k, if k = i then c\<lparr>conn_q := drop n (conn_q c)\<rparr> else c)) (table std s)) s
      | Conn_dies std i \<Rightarrow>
          set_table std (map (\<lambda>(k, c). (k, if k = i then c\<lparr>conn_open := False\<rparr> else c)) (table std s)) s
      | _ \<Rightarrow> s)"

definition engine_step ::
    "buffa \<Rightarrow> (io_kind \<Rightarrow> string) \<Rightarrow> bool \<Rightarrow> EngineState \<Rightarrow> engine_stimulus \<Rightarrow> EngineState" where
  "engine_step rt show_io answer_destinations s e =
     (if status s \<noteq> Engine_running then s
      else
        (case e of
           Engine_cmd (Some (AddSources new_sources)) net \<Rightarrow> add_sources show_io net new_sources s
         | Engine_cmd _ net \<Rightarrow> engine_end s
         | Peer (Some packet) net \<Rightarrow> handle_peer_packet rt answer_destinations net packet s
         | Peer None net \<Rightarrow> engine_end s
         | Local (Some (Accepted source_idx stream)) \<Rightarrow> handle_accepted rt source_idx stream s
         | Local (Some (Read conn_id result)) \<Rightarrow> handle_read rt show_io conn_id result s
         | Local None \<Rightarrow> engine_end s
         | _ \<Rightarrow> engine_environment e s))"

definition engine_run ::
    "buffa \<Rightarrow> (io_kind \<Rightarrow> string) \<Rightarrow> bool \<Rightarrow> EngineState \<Rightarrow> engine_stimulus list \<Rightarrow> EngineState" where
  "engine_run rt show_io answer_destinations s es = foldl (engine_step rt show_io answer_destinations) s es"

section \<open>The handle\<close>

definition ADD_SOURCES_BOUND :: nat where
  "ADD_SOURCES_BOUND = 30 * 1000"

text \<open>\<^verbatim>\<open>EngineHandle::spawn\<close>, up to the first await of the task.\<close>

definition engine_spawn ::
    "(io_kind \<Rightarrow> string) \<Rightarrow> engine_net \<Rightarrow> PortForwardSourceRequest list \<Rightarrow> EngineState \<times> string list" where
  "engine_spawn show_io net srcs =
     (case bind_source_listeners (bind_to net) show_io srcs 0 of
        (bound, bind_errors) \<Rightarrow> ((EngineState_new srcs)\<lparr>listeners := bound\<rparr>, bind_errors))"

text \<open>What a call of \<^verbatim>\<open>add_sources\<close> can meet: a full command queue, an engine that has gone, a reply or
  its loss, the shutdown watch, or the bound.\<close>

datatype add_outcome =
    Add_full
  | Add_gone
  | Add_replied "string list option"
  | Add_shutdown
  | Add_elapsed

definition add_sources_timed :: "(nat \<Rightarrow> string) \<Rightarrow> nat \<Rightarrow> add_outcome \<Rightarrow> string list" where
  "add_sources_timed show_dur bound r =
     (case r of
        Add_full \<Rightarrow> [''port-forward engine command queue is full (congested); retry after shutdown or once the tunnel drains'']
      | Add_gone \<Rightarrow> [''port-forward engine is not running'']
      | Add_replied (Some errs) \<Rightarrow> errs
      | Add_replied None \<Rightarrow> [''port-forward engine stopped before binding the new sources'']
      | Add_shutdown \<Rightarrow> [''port-forward engine is shutting down'']
      | Add_elapsed \<Rightarrow>
          [''port-forward engine did not bind the new sources within '' @ show_dur bound @ '' (a congested tunnel is blocking it)''])"

text \<open>The clones of the handle: their count, and whether the last drop has raised the watch.\<close>

record EngineHandle =
  handle_count :: nat
  watch_raised :: bool

definition EngineHandle_new :: EngineHandle where
  "EngineHandle_new = \<lparr>handle_count = 1, watch_raised = False\<rparr>"

definition EngineHandle_clone :: "EngineHandle \<Rightarrow> EngineHandle" where
  "EngineHandle_clone h = h\<lparr>handle_count := handle_count h + 1\<rparr>"

definition EngineHandle_drop :: "EngineHandle \<Rightarrow> EngineHandle" where
  "EngineHandle_drop h =
     (let h1 = h\<lparr>handle_count := handle_count h - 1\<rparr> in
      if handle_count h = 1 then h1\<lparr>watch_raised := True\<rparr> else h1)"

definition EngineHandle_shutdown :: "EngineHandle \<Rightarrow> EngineHandle" where
  "EngineHandle_shutdown h = h\<lparr>watch_raised := True\<rparr>"

end
