(* ===== verification/Engine_Spec.thy ===== *)
theory Engine_Spec
  imports Engine Wire
begin

text \<open>
  The properties of the port-forwarding engine: every local connection it was given is tracked or
  closed, exactly once; the peer cannot make it open more than its share of connections, or any
  without the opt-in; two engines open a tunnel under one socket id, and what is read at one end of
  a tunnel is what is written at the other.
\<close>

section \<open>Association lists\<close>

lemma delete_absent: "map_of xs k = None \<Longrightarrow> AList.delete k xs = xs"
  by (induction xs) (auto split: if_splits)

lemma mset_delete:
  "distinct (map fst xs) \<Longrightarrow> map_of xs k = Some v \<Longrightarrow>
    mset (map f xs) = add_mset (f (k, v)) (mset (map f (AList.delete k xs)))"
proof (induction xs)
  case (Cons x xs)
  show ?case
  proof (cases "fst x = k")
    case True
    with Cons.prems have "map_of xs k = None" by (auto simp: map_of_eq_None_iff)
    with True Cons.prems show ?thesis by (cases x) (simp add: delete_absent)
  qed (use Cons in \<open>cases x; auto\<close>)
qed simp

lemma mset_update:
  "distinct (map fst xs) \<Longrightarrow> mset (map f (AList.update k v xs)) = add_mset (f (k, v)) (mset (map f (AList.delete k xs)))"
proof (induction xs)
  case (Cons x xs)
  show ?case
  proof (cases "fst x = k")
    case True
    with Cons.prems have "map_of xs k = None" by (auto simp: map_of_eq_None_iff)
    with True show ?thesis by (cases x) (simp add: delete_absent)
  qed (use Cons in \<open>cases x; auto\<close>)
qed simp

lemma length_delete_Some: "map_of xs k = Some v \<Longrightarrow> length (AList.delete k xs) < length xs"
  by (induction xs) (auto simp: length_delete_le le_imp_less_Suc)

lemma length_update_le: "length (AList.update k v xs) \<le> Suc (length xs)"
  by (induction xs) auto

lemma length_update_delete:
  "map_of xs k = Some v \<Longrightarrow> length (AList.update k w (AList.delete k xs)) \<le> length xs"
  using length_update_le [of k w "AList.delete k xs"] length_delete_Some [of xs k v] by simp

section \<open>The invariant\<close>

definition streams_of :: "(u32 \<times> Conn) list \<Rightarrow> nat multiset" where
  "streams_of t = mset (map (conn_stream \<circ> snd) t)"

text \<open>The local connections the engine holds.\<close>

definition tracked :: "EngineState \<Rightarrow> nat multiset" where
  "tracked s = mset (map snd (pending s)) + streams_of (source_sockets s) + streams_of (destinations s)"

definition keys_inv :: "EngineState \<Rightarrow> bool" where
  "keys_inv s \<longleftrightarrow>
     distinct (map fst (pending s)) \<and> distinct (map fst (source_sockets s)) \<and>
     distinct (map fst (source_conn_ids s)) \<and> distinct (map fst (destinations s))"

definition engine_inv :: "bool \<Rightarrow> EngineState \<Rightarrow> bool" where
  "engine_inv ad s \<longleftrightarrow>
     keys_inv s \<and> mset (entered s) = mset (closed s) + tracked s \<and>
     length (destinations s) \<le> MAX_DESTINATION_CONNECTIONS \<and> (\<not> ad \<longrightarrow> destinations s = []) \<and>
     (status s = Engine_stopped \<longrightarrow> tracked s = {#})"

lemma streams_of_Nil [simp]: "streams_of [] = {#}"
  by (simp add: streams_of_def)

lemma streams_of_update:
  "distinct (map fst t) \<Longrightarrow> streams_of (AList.update k c t) = add_mset (conn_stream c) (streams_of (AList.delete k t))"
  unfolding streams_of_def by (subst mset_update) simp_all

lemma streams_of_remove:
  "distinct (map fst t) \<Longrightarrow> map_of t k = Some c \<Longrightarrow> streams_of t = add_mset (conn_stream c) (streams_of (AList.delete k t))"
  unfolding streams_of_def by (drule (1) mset_delete [where f = "conn_stream \<circ> snd"]) simp

named_theorems engine_frame

lemma pick_frame [engine_frame]:
  "pick s = (b, s') \<Longrightarrow> engine_inv ad s' = engine_inv ad s"
  "pick s = (b, s') \<Longrightarrow> table std s' = table std s"
  "pick s = (b, s') \<Longrightarrow> status s' = status s"
  by (auto simp: pick_def engine_inv_def keys_inv_def tracked_def table_def split: if_splits list.splits)

lemma send_or_shutdown_frame [engine_frame]:
  "engine_inv ad (send_or_shutdown p s) = engine_inv ad s"
  "source_sockets (send_or_shutdown p s) = source_sockets s"
  "destinations (send_or_shutdown p s) = destinations s"
  "source_conn_ids (send_or_shutdown p s) = source_conn_ids s"
  "pending (send_or_shutdown p s) = pending s"
  "closed (send_or_shutdown p s) = closed s"
  "status (send_or_shutdown p s) = status s"
  by (auto simp: send_or_shutdown_def pick_def engine_inv_def keys_inv_def tracked_def split: list.splits)

lemma send_open:
  assumes "\<not> shutdown_raised s" and "outbound_open s"
  shows "send_or_shutdown p s = s\<lparr>outbound := outbound s @ [p]\<rparr>"
  using assms by (simp add: send_or_shutdown_def pick_def)

lemma teardown_opt_simps [simp]:
  "teardown_opt None s = s" "teardown_opt (Some c) s = s\<lparr>closed := closed s @ [conn_stream c]\<rparr>"
  by (simp_all add: teardown_opt_def teardown_def drop_stream_def)

section \<open>Every handler keeps it\<close>

lemma handle_accepted_inv:
  assumes "engine_inv ad s" and "status s = Engine_running"
  shows "engine_inv ad (handle_accepted rt idx st s)"
proof -
  let ?k = "next_conn_id s"
  let ?s1 = "s\<lparr>entered := entered s @ [st], next_conn_id := ?k + 1\<rparr>"
  let ?s2 = "(case map_of (pending s) ?k of None \<Rightarrow> ?s1 | Some v \<Rightarrow> drop_stream v ?s1)\<lparr>pending := AList.update ?k st (pending s)\<rparr>"
  have d: "distinct (map fst (pending s))" using assms(1) by (simp add: engine_inv_def keys_inv_def)
  have upd: "mset (map snd (AList.update ?k st (pending s))) = add_mset st (mset (map snd (AList.delete ?k (pending s))))"
    using d by (subst mset_update) simp_all
  have "engine_inv ad ?s2"
  proof (cases "map_of (pending s) ?k")
    case None
    with assms upd d show ?thesis
      by (simp add: engine_inv_def keys_inv_def tracked_def distinct_update delete_absent)
  next
    case (Some v)
    have "mset (map snd (pending s)) = add_mset v (mset (map snd (AList.delete ?k (pending s))))"
      using mset_delete [OF d Some, of snd] by simp
    with Some assms upd d show ?thesis
      by (simp add: engine_inv_def keys_inv_def tracked_def distinct_update drop_stream_def)
  qed
  moreover have "engine_inv ad (drop_stream st (s\<lparr>entered := entered s @ [st]\<rparr>))"
    using assms by (simp add: engine_inv_def keys_inv_def tracked_def drop_stream_def)
  ultimately show ?thesis
    by (simp add: handle_accepted_def Let_def engine_frame split: option.split)
qed

lemma drop_source_inv:
  assumes "engine_inv ad s" and "status s = Engine_running"
  shows "engine_inv ad (drop_source c k s)"
proof (cases "map_of (source_sockets s) k")
  case None
  with assms show ?thesis
    by (simp add: drop_source_def engine_inv_def keys_inv_def tracked_def distinct_delete delete_absent)
next
  case (Some conn)
  have "streams_of (source_sockets s) = add_mset (conn_stream conn) (streams_of (AList.delete k (source_sockets s)))"
    using assms(1) by (intro streams_of_remove [OF _ Some]) (simp add: engine_inv_def keys_inv_def)
  with Some assms show ?thesis
    by (simp add: drop_source_def engine_inv_def keys_inv_def tracked_def distinct_delete)
qed

lemma drop_destination_inv:
  assumes "engine_inv ad s" and "status s = Engine_running"
  shows "engine_inv ad (drop_destination k s)"
proof (cases "map_of (destinations s) k")
  case None
  with assms show ?thesis
    by (simp add: drop_destination_def engine_inv_def keys_inv_def tracked_def delete_absent)
next
  case (Some conn)
  have "streams_of (destinations s) = add_mset (conn_stream conn) (streams_of (AList.delete k (destinations s)))"
    using assms(1) by (intro streams_of_remove [OF _ Some]) (simp add: engine_inv_def keys_inv_def)
  with Some assms length_delete_le [of k "destinations s"] show ?thesis
    by (auto simp: drop_destination_def engine_inv_def keys_inv_def tracked_def distinct_delete)
qed

lemma handle_read_inv:
  assumes "engine_inv ad s" and "status s = Engine_running"
  shows "engine_inv ad (handle_read rt show_io c r s)"
  using assms
  by (auto simp: handle_read_def engine_frame intro!: drop_source_inv drop_destination_inv split: option.split sum.split)

lemma fresh_socket_id_fresh: "fresh_socket_id used rnd = Drawn i rest \<Longrightarrow> i \<notin> set used"
  by (induction rnd) (auto split: drawn.splits if_splits)

lemma create_destination_inv:
  assumes "engine_inv True s" and "status s = Engine_running"
    and "create_destination net req s = Drawn (resp, s') rest"
  shows "engine_inv True s' \<and> status s' = Engine_running"
proof (cases "s' = s")
  case False
  with assms(3) obtain port st i where
    room: "length (destinations s) < MAX_DESTINATION_CONNECTIONS"
    and fresh: "fresh_socket_id (map fst (destinations s)) (fills net) = Drawn i rest"
    and s': "s' = s\<lparr>entered := entered s @ [st],
      destinations := AList.update i (spawn_conn (dup_ok net) st) (destinations s)\<rparr>"
    by (auto simp: create_destination_def split: option.splits if_splits drawn.splits)
  have d: "distinct (map fst (destinations s))" using assms(1) by (simp add: engine_inv_def keys_inv_def)
  have "map_of (destinations s) i = None"
    using fresh_socket_id_fresh [OF fresh] by (simp add: map_of_eq_None_iff)
  with streams_of_update [OF d] assms(1,2) d room length_update_le [of i "spawn_conn (dup_ok net) st" "destinations s"]
  show ?thesis
    by (auto simp: s' engine_inv_def keys_inv_def tracked_def distinct_update delete_absent spawn_conn_def)
qed (use assms in simp)

lemma status_upd: "engine_inv ad s \<Longrightarrow> st \<noteq> Engine_stopped \<Longrightarrow> engine_inv ad (s\<lparr>status := st\<rparr>)"
  by (simp add: engine_inv_def keys_inv_def tracked_def)

lemma handle_request_inv:
  assumes "engine_inv ad s" and "status s = Engine_running"
  shows "engine_inv ad (handle_request rt ad net bs s)"
proof (cases ad)
  case True
  with assms create_destination_inv [of s net] show ?thesis
    by (auto simp: handle_request_def engine_frame status_upd split: sum.split drawn.split)
next
  case False
  with assms show ?thesis
    by (auto simp: handle_request_def engine_frame split: sum.split)
qed

lemma handle_response_inv:
  assumes "engine_inv ad s" and "status s = Engine_running"
  shows "engine_inv ad (handle_response rt net bs s)"
proof -
  have kp: "distinct (map fst (pending s))" and ks: "distinct (map fst (source_sockets s))"
    using assms(1) by (simp_all add: engine_inv_def keys_inv_def)
  have "engine_inv ad (drop_stream st (s\<lparr>pending := AList.delete c (pending s)\<rparr>))"
    and "engine_inv ad ((teardown_opt (map_of (source_sockets s) i)
        (s\<lparr>pending := AList.delete c (pending s),
           source_sockets := AList.update i (spawn_conn b st) (source_sockets s)\<rparr>))
        \<lparr>source_conn_ids := AList.update c i (source_conn_ids s)\<rparr>)"
    if c: "map_of (pending s) c = Some st" for c st i b
  proof -
    have p: "mset (map snd (pending s)) = add_mset st (mset (map snd (AList.delete c (pending s))))"
      using mset_delete [OF kp c, of snd] by simp
    with assms kp show "engine_inv ad (drop_stream st (s\<lparr>pending := AList.delete c (pending s)\<rparr>))"
      by (simp add: engine_inv_def keys_inv_def tracked_def drop_stream_def distinct_delete)
    note u = streams_of_update [OF ks, of i "spawn_conn b st"]
    show "engine_inv ad ((teardown_opt (map_of (source_sockets s) i)
        (s\<lparr>pending := AList.delete c (pending s),
           source_sockets := AList.update i (spawn_conn b st) (source_sockets s)\<rparr>))
        \<lparr>source_conn_ids := AList.update c i (source_conn_ids s)\<rparr>)"
    proof (cases "map_of (source_sockets s) i")
      case None
      with assms kp ks p u show ?thesis
        by (simp add: engine_inv_def keys_inv_def tracked_def distinct_delete distinct_update delete_absent spawn_conn_def)
    next
      case (Some old)
      from streams_of_remove [OF ks Some] Some assms kp ks p u show ?thesis
        by (simp add: engine_inv_def keys_inv_def tracked_def distinct_delete distinct_update spawn_conn_def)
    qed
  qed
  with assms(1) show ?thesis
    by (auto simp: handle_response_def Let_def split: sum.split option.split)
qed

lemma set_table_simps [simp]:
  "table std (set_table std t s) = t" "set_table std t (set_table std t' s) = set_table std t s"
  "pending (set_table std t s) = pending s" "closed (set_table std t s) = closed s" "entered (set_table std t s) = entered s"
  "status (set_table std t s) = status s" "source_conn_ids (set_table std t s) = source_conn_ids s"
  "shutdown_raised (set_table std t s) = shutdown_raised s" "picks (set_table std t s) = picks s"
  by (simp_all add: table_def set_table_def)

lemma tracked_table:
  "tracked (set_table std t s) + streams_of (table std s) = tracked s + streams_of t"
  by (simp add: tracked_def set_table_def table_def)

text \<open>Replacing a table by one with the same connections, or with one less, which is closed.\<close>

lemma set_table_inv:
  assumes "engine_inv ad s" and "status s = Engine_running" and "distinct (map fst t)" and "length t \<le> length (table std s)"
  shows "streams_of (table std s) = streams_of t \<Longrightarrow> engine_inv ad (set_table std t s)"
    and "streams_of (table std s) = add_mset (conn_stream c) (streams_of t) \<Longrightarrow> engine_inv ad (teardown c (set_table std t s))"
  using assms
  by (auto simp: engine_inv_def keys_inv_def tracked_def table_def set_table_def teardown_def drop_stream_def split: if_splits)

lemma pick_eq: obtains ps where "snd (pick s) = s\<lparr>picks := ps\<rparr>"
  by (rule that [of "picks (snd (pick s))"]) (auto simp: pick_def split: list.split)

lemma picks_upd [simp]:
  "engine_inv ad (s\<lparr>picks := ps\<rparr>) = engine_inv ad s"
  "teardown c (s\<lparr>picks := ps\<rparr>) = (teardown c s)\<lparr>picks := ps\<rparr>"
  "set_table std t (s\<lparr>picks := ps\<rparr>) = (set_table std t s)\<lparr>picks := ps\<rparr>"
  "table std (s\<lparr>picks := ps\<rparr>) = table std s"
  by (simp_all add: engine_inv_def keys_inv_def tracked_def teardown_def drop_stream_def set_table_def table_def)

lemma table_distinct: "engine_inv ad s \<Longrightarrow> distinct (map fst (table std s))"
  by (simp add: engine_inv_def keys_inv_def table_def)

text \<open>A packet for a known socket leaves it with a queue of its own, or closes it.\<close>

lemma known_socket_inv:
  assumes "engine_inv ad s" and "status s = Engine_running" and "map_of (table std s) k = Some conn"
  shows "engine_inv ad (teardown conn (set_table std (AList.delete k (table std s)) s))"
    and "conn_stream conn' = conn_stream conn \<Longrightarrow>
      engine_inv ad (set_table std (AList.update k conn' (AList.delete k (table std s))) s)"
proof -
  note d = table_distinct [OF assms(1), of std]
  note r = streams_of_remove [OF d assms(3)]
  show "engine_inv ad (teardown conn (set_table std (AList.delete k (table std s)) s))"
    using d r length_delete_le [of k "table std s"] by (intro set_table_inv [OF assms(1,2)]) (simp_all add: distinct_delete)
  assume "conn_stream conn' = conn_stream conn"
  then show "engine_inv ad (set_table std (AList.update k conn' (AList.delete k (table std s))) s)"
    using d r length_update_delete [OF assms(3)]
    by (intro set_table_inv [OF assms(1,2)]) (simp_all add: distinct_delete distinct_update streams_of_update delete_idem)
qed

lemma handle_data_inv:
  assumes "engine_inv ad s" and "status s = Engine_running"
  shows "engine_inv ad (handle_data rt bs s)"
proof -
  have "engine_inv ad
      (case pick (set_table std (AList.delete k (table std s)) s) of
         (won, s2) \<Rightarrow>
           if won \<and> conn_open conn
           then set_table std (AList.update k (conn\<lparr>conn_q := conn_q conn @ [buf]\<rparr>) (table std s2)) s2
           else teardown conn s2)"
    if "map_of (table std s) k = Some conn" for std k conn buf
  proof -
    let ?s1 = "set_table std (AList.delete k (table std s)) s"
    obtain ps where "snd (pick ?s1) = ?s1\<lparr>picks := ps\<rparr>" by (rule pick_eq)
    with known_socket_inv [OF assms that] show ?thesis
      by (simp add: case_prod_unfold)
  qed
  with known_socket_inv [OF assms] assms(1) show ?thesis
    by (auto simp: handle_data_def Let_def split: sum.split option.split)
qed

lemma handle_peer_packet_inv:
  "engine_inv ad s \<Longrightarrow> status s = Engine_running \<Longrightarrow> engine_inv ad (handle_peer_packet rt ad net p s)"
  by (simp add: handle_peer_packet_def handle_request_inv handle_response_inv handle_data_inv)

lemma engine_end_inv: "engine_inv ad s \<Longrightarrow> engine_inv ad (engine_end s) \<and> tracked (engine_end s) = {#}"
  by (simp add: engine_end_def teardown_all_def engine_inv_def keys_inv_def tracked_def streams_of_def ac_simps)

lemma add_sources_inv: "engine_inv ad s \<Longrightarrow> engine_inv ad (add_sources show_io net srcs s)"
  by (simp add: add_sources_def case_prod_unfold engine_inv_def keys_inv_def tracked_def)

lemma engine_environment_inv:
  assumes "engine_inv ad s" and "status s = Engine_running"
  shows "engine_inv ad (engine_environment e s)"
proof -
  have "engine_inv ad (set_table std (map (\<lambda>(k, c). (k, if k = i then f c else c)) (table std s)) s)"
    if "\<And>c. conn_stream (f c) = conn_stream c" for std i f
  proof -
    let ?g = "\<lambda>(k, c). (k, if k = i then f c else c)"
    have "map fst (map ?g (table std s)) = map fst (table std s)"
      by (simp add: comp_def case_prod_unfold)
    with table_distinct [OF assms(1), of std] have "distinct (map fst (map ?g (table std s)))" by metis
    moreover have "streams_of (map ?g (table std s)) = streams_of (table std s)"
      using that by (auto simp: streams_of_def comp_def case_prod_unfold intro!: image_mset_cong)
    ultimately show ?thesis
      by (intro set_table_inv [OF assms]) simp_all
  qed
  with assms show ?thesis
    by (cases e) (auto simp: engine_environment_def, simp_all add: engine_inv_def keys_inv_def tracked_def)
qed

lemma engine_step_inv:
  assumes "engine_inv ad s"
  shows "engine_inv ad (engine_step rt show_io ad s e)"
proof (cases "status s = Engine_running")
  case True
  with assms engine_end_inv [of ad s] show ?thesis
    by (cases e)
      (auto simp: engine_step_def add_sources_inv handle_peer_packet_inv handle_accepted_inv handle_read_inv
        engine_environment_inv split: option.split engine_cmd.split local_event.split)
qed (use assms in \<open>simp add: engine_step_def\<close>)

interpretation engine: invariant_machine "engine_step rt show_io ad" "engine_inv ad" for rt show_io ad
  by unfold_locales (rule engine_step_inv)

lemma engine_spawn_inv: "engine_spawn show_io net srcs = (s, errs) \<Longrightarrow> engine_inv ad s"
  by (auto simp: engine_spawn_def EngineState_new_def engine_inv_def keys_inv_def tracked_def split: prod.splits)

lemma engine_run_inv: "engine_inv ad s \<Longrightarrow> engine_inv ad (engine_run rt show_io ad s es)"
  unfolding engine_run_def by (rule engine.inv_run)

section \<open>The data path of a tunnel\<close>

text \<open>
  The data path is the same in both directions. A connection \<open>conn_id\<close> of the engine reads for socket
  \<open>k\<close>: as a source (\<open>std\<close>) by the mapping of its connection id, as a destination by its own id. What
  the engine sends carries \<open>std\<close>, and the peer looks the socket up in its \<open>table std\<close>.
\<close>

definition reads_for :: "bool \<Rightarrow> u32 \<Rightarrow> u32 \<Rightarrow> EngineState \<Rightarrow> bool" where
  "reads_for std conn_id k s \<longleftrightarrow>
     (if std then map_of (source_conn_ids s) conn_id = Some k
      else map_of (source_conn_ids s) conn_id = None \<and> conn_id = k \<and> map_of (destinations s) k \<noteq> None)"

definition up :: "EngineState \<Rightarrow> bool" where
  "up s \<longleftrightarrow> status s = Engine_running \<and> \<not> shutdown_raised s"

lemma handle_read_for:
  assumes "reads_for std c k s"
  shows "bs \<noteq> [] \<Longrightarrow> handle_read rt show_io c (Ok bs) s = send_or_shutdown (data_packet rt k std bs) s"
    and "handle_read rt show_io c (Ok []) s =
      (if std then drop_source c k (send_or_shutdown (closed_packet rt k std) s)
       else drop_destination k (send_or_shutdown (closed_packet rt k std) s))"
  using assms by (auto simp: reads_for_def handle_read_def split: if_splits)

lemma data_packet_for:
  assumes "buffa_ok rt" and "wire_bytes bs" and "map_of (table std s) k = Some conn" and "conn_open conn" and "up s"
  shows "handle_peer_packet rt ad net (data_packet rt k std bs) s =
    set_table std (AList.update k (conn\<lparr>conn_q := conn_q conn @ [bs]\<rparr>) (AList.delete k (table std s))) s"
proof -
  let ?m = "PortForwardData_default
      \<lparr>PortForwardData_sourcetodestination := Some std, PortForwardData_socketid := Some k, PortForwardData_buffer := Some bs\<rparr>"
  have "decode_PortForwardData rt (write_to_PortForwardData rt ?m) = Ok ?m"
    using assms(1,2) by (intro decode_write_PortForwardData) (simp_all add: wf_PortForwardData_def PortForwardData_default_def)
  with assms show ?thesis
    by (cases std)
      (simp_all add: handle_peer_packet_def handle_data_def data_packet_def Packet_new_def header_defs pick_def up_def Let_def
        PortForwardData_default_def)
qed

lemma closed_packet_for:
  assumes "buffa_ok rt" and "map_of (table std s) k = Some conn"
  shows "handle_peer_packet rt ad net (closed_packet rt k std) s = teardown conn (set_table std (AList.delete k (table std s)) s)"
proof -
  let ?m = "PortForwardData_default
      \<lparr>PortForwardData_sourcetodestination := Some std, PortForwardData_socketid := Some k, PortForwardData_closed := Some True\<rparr>"
  have "decode_PortForwardData rt (write_to_PortForwardData rt ?m) = Ok ?m"
    using assms(1) by (intro decode_write_PortForwardData) (simp_all add: wf_PortForwardData_def PortForwardData_default_def)
  with assms show ?thesis
    by (cases std)
      (simp_all add: handle_peer_packet_def handle_data_def closed_packet_def Packet_new_def header_defs Let_def
        PortForwardData_default_def)
qed

lemma engine_run_simps [simp]:
  "engine_run rt sio ad s [] = s"
  "engine_run rt sio ad s (e # es) = engine_run rt sio ad (engine_step rt sio ad s e) es"
  "engine_run rt sio ad s (es @ es') = engine_run rt sio ad (engine_run rt sio ad s es) es'"
  by (simp_all add: engine_run_def)

abbreviation local_events :: "local_event list \<Rightarrow> engine_stimulus list" where
  "local_events \<equiv> map (\<lambda>e. Local (Some e))"

abbreviation peer_packets :: "engine_net \<Rightarrow> Packet list \<Rightarrow> engine_stimulus list" where
  "peer_packets net \<equiv> map (\<lambda>p. Peer (Some p) net)"

lemma reads_run:
  assumes "reads_for std c k s" and "up s" and "outbound_open s" and "list_all (\<lambda>bs. bs \<noteq> []) chunks"
  shows "engine_run rt sio ad s (local_events (map (\<lambda>bs. Read c (Ok bs)) chunks)) =
    s\<lparr>outbound := outbound s @ map (data_packet rt k std) chunks\<rparr>"
  using assms
proof (induction chunks arbitrary: s)
  case (Cons bs chunks)
  let ?s = "s\<lparr>outbound := outbound s @ [data_packet rt k std bs]\<rparr>"
  have "engine_step rt sio ad s (Local (Some (Read c (Ok bs)))) = ?s"
    using Cons.prems by (simp add: engine_step_def handle_read_for send_open up_def)
  moreover have "reads_for std c k ?s" "up ?s" "outbound_open ?s"
    using Cons.prems by (auto simp: reads_for_def up_def split: if_splits)
  ultimately show ?case
    using Cons.IH [of ?s] Cons.prems by simp
qed simp

lemma up_table [simp]: "up (set_table std t s) = up s"
  by (simp add: up_def)

lemma data_run:
  assumes "buffa_ok rt" and "list_all wire_bytes chunks"
    and "map_of (table std s) k = Some conn" and "conn_open conn" and "up s"
  shows "let s' = engine_run rt sio ad s (peer_packets net (map (data_packet rt k std) chunks)) in
    map_of (table std s') k = Some (conn\<lparr>conn_q := conn_q conn @ chunks\<rparr>) \<and> up s'"
  using assms(2-)
proof (induction chunks arbitrary: s conn)
  case (Cons bs chunks)
  let ?conn = "conn\<lparr>conn_q := conn_q conn @ [bs]\<rparr>"
  let ?s = "set_table std (AList.update k ?conn (AList.delete k (table std s))) s"
  have "engine_step rt sio ad s (Peer (Some (data_packet rt k std bs)) net) = ?s"
    using Cons.prems data_packet_for [OF assms(1)] by (simp add: engine_step_def up_def)
  moreover have "map_of (table std ?s) k = Some ?conn" by (simp add: update_conv')
  ultimately show ?case
    using Cons.IH [of ?s ?conn] Cons.prems by simp
qed simp

lemma read_task_chunks:
  "list_all (\<lambda>bs. bs \<noteq> []) chunks \<Longrightarrow>
    read_task c (map Inr chunks @ [Inr []]) = map (\<lambda>bs. Read c (Ok bs)) chunks @ [Read c (Ok [])]"
  by (induction chunks) auto

lemma write_task_out:
  "wr_room w = None \<Longrightarrow> list_all (\<lambda>bs. bs \<noteq> []) q \<Longrightarrow> wr_out (write_task q w) = wr_out w @ concat q"
  by (induction q arbitrary: w) (auto simp: write_all_def)

text \<open>
  The connection id of a source stays mapped when the peer closes its tunnel, although the socket is
  gone: a read event still in the queue is answered with packets for the closed socket.
\<close>

lemma peer_close_keeps_mapping:
  assumes "buffa_ok rt" and "map_of (source_sockets s) k = Some conn" and "map_of (source_conn_ids s) c = Some k"
  shows "let s' = handle_peer_packet rt ad net (closed_packet rt k False) s in
    map_of (source_sockets s') k = None \<and> map_of (source_conn_ids s') c = Some k"
proof -
  have "map_of (table False s) k = Some conn" using assms(2) by (simp add: table_def)
  from closed_packet_for [OF assms(1) this, of ad net] assms(3) show ?thesis
    by (simp add: Let_def teardown_def drop_stream_def set_table_def table_def delete_conv)
qed

section \<open>Properties\<close>

text \<open>C18. No local connection is lost or closed twice: in every run of the engine, against any peer and
  any local traffic, the connections it was given are exactly those it still tracks and those it
  has closed, each once; once the engine has stopped all of them are closed.\<close>

theorem engine_conserves_connections:
  assumes "engine_spawn show_io net srcs = (s0, errs)" and "s = engine_run rt show_io ad s0 es"
  shows "mset (entered s) = mset (closed s) + tracked s \<and> (status s = Engine_stopped \<longrightarrow> mset (closed s) = mset (entered s))"
proof -
  have "engine_inv ad s"
    unfolding assms(2) by (rule engine_run_inv [OF engine_spawn_inv [OF assms(1)]])
  then show ?thesis by (simp add: engine_inv_def)
qed

definition sample_net :: engine_net where
  "sample_net = \<lparr>connect_to = \<lambda>host port. if host = ''::1'' then Err (OtherIo 111) else Ok 7, bind_to = \<lambda>host port. Ok 3,
     fills = [Some [9, 0, 0, 0]], dup_ok = True\<rparr>"

definition sample_source :: PortForwardSourceRequest where
  "sample_source = PortForwardSourceRequest_default
     \<lparr>PortForwardSourceRequest_source := Some (SocketEndpoint_default\<lparr>SocketEndpoint_port := Some 8000\<rparr>),
      PortForwardSourceRequest_destination := Some (SocketEndpoint_default\<lparr>SocketEndpoint_port := Some 9000\<rparr>)\<rparr>"

definition sample_engine :: EngineState where
  "sample_engine = fst (engine_spawn (\<lambda>e. []) sample_net [sample_source])"

theorem engine_conserves_connections_witness:
  "mset (entered (engine_run wire (\<lambda>e. []) True sample_engine [Local (Some (Accepted 0 5)), Engine_cmd None sample_net])) =
    mset (closed (engine_run wire (\<lambda>e. []) True sample_engine [Local (Some (Accepted 0 5)), Engine_cmd None sample_net])) + {#}"
proof -
  let ?es = "[Local (Some (Accepted 0 5)), Engine_cmd None sample_net]"
  have "engine_spawn (\<lambda>e. []) sample_net [sample_source] = (sample_engine, snd (engine_spawn (\<lambda>e. []) sample_net [sample_source]))"
    by (simp add: sample_engine_def)
  moreover have "status (engine_run wire (\<lambda>e. []) True sample_engine ?es) = Engine_stopped"
    by (simp add: sample_engine_def engine_spawn_def EngineState_new_def case_prod_unfold engine_step_def handle_accepted_def
        sample_source_def engine_frame engine_end_def)
  ultimately show ?thesis
    using engine_conserves_connections [OF _ refl, of "\<lambda>e. []" sample_net "[sample_source]" sample_engine _ wire True ?es]
    by (metis add.right_neutral)
qed

text \<open>C31. The peer cannot exhaust the engine or use it unasked: in every run at most
  \<open>MAX_DESTINATION_CONNECTIONS\<close> destination connections are open, and an engine that does not answer
  destination requests never opens one.\<close>

theorem engine_destinations_bounded:
  assumes "engine_spawn show_io net srcs = (s0, errs)" and "s = engine_run rt show_io ad s0 es"
  shows "length (destinations s) \<le> MAX_DESTINATION_CONNECTIONS \<and> (\<not> ad \<longrightarrow> destinations s = [])"
proof -
  have "engine_inv ad s"
    unfolding assms(2) by (rule engine_run_inv [OF engine_spawn_inv [OF assms(1)]])
  then show ?thesis by (simp add: engine_inv_def)
qed

theorem engine_destinations_bounded_witness:
  "destinations (engine_run wire (\<lambda>e. []) False sample_engine
    [Peer (Some (Packet_new PORT_FORWARD_DESTINATION_REQUEST [])) sample_net]) = []"
proof -
  have "engine_spawn (\<lambda>e. []) sample_net [sample_source] = (sample_engine, snd (engine_spawn (\<lambda>e. []) sample_net [sample_source]))"
    by (simp add: sample_engine_def)
  from engine_destinations_bounded [OF this refl, of wire False] show ?thesis by blast
qed

text \<open>C17. A tunnel carries what is read at one end to the other, in both directions: the chunks a local
  connection yields until it ends are, once the peer has handled the packets they became, exactly
  what its writer writes to the connection at the other end, and the end of the stream closes the
  tunnel at both ends.\<close>

theorem tunnel_carries:
  assumes "buffa_ok rt" and "reads_for std c k a" and "up a" and "outbound_open a"
    and "map_of (table std b) k = Some conn" and "conn_open conn" and "up b"
    and "list_all (\<lambda>bs. bs \<noteq> []) (conn_q conn @ chunks)" and "list_all wire_bytes chunks" and "wr_room w = None"
  shows "let a' = engine_run rt sio ada a (local_events (read_task c (map Inr chunks @ [Inr []])));
      sent = drop (length (outbound a)) (outbound a');
      b1 = engine_run rt sio adb b (peer_packets net (butlast sent));
      b2 = engine_run rt sio adb b1 (peer_packets net [last sent]) in
    (\<exists>conn'. map_of (table std b1) k = Some conn' \<and> conn_stream conn' = conn_stream conn \<and>
      wr_out (write_task (conn_q conn') w) = wr_out w @ concat (conn_q conn) @ concat chunks) \<and>
    map_of (table std b2) k = None \<and> conn_stream conn \<in> set (closed b2) \<and> map_of (table (\<not> std) a') k = None"
proof -
  let ?pk = "map (data_packet rt k std) chunks"
  let ?a1 = "a\<lparr>outbound := outbound a @ ?pk\<rparr>"
  let ?b1 = "engine_run rt sio adb b (peer_packets net ?pk)"
  let ?conn = "conn\<lparr>conn_q := conn_q conn @ chunks\<rparr>"
  have ne: "list_all (\<lambda>bs. bs \<noteq> []) chunks" "list_all (\<lambda>bs. bs \<noteq> []) (conn_q conn)" using assms(8) by simp_all
  have a1: "engine_run rt sio ada a (local_events (map (\<lambda>bs. Read c (Ok bs)) chunks)) = ?a1"
    by (rule reads_run [OF assms(2-4) ne(1)])
  let ?a2 = "?a1\<lparr>outbound := outbound ?a1 @ [closed_packet rt k std]\<rparr>"
  have r1: "reads_for std c k ?a1" using assms(2) by (auto simp: reads_for_def split: if_splits)
  have a2: "engine_run rt sio ada a (local_events (read_task c (map Inr chunks @ [Inr []]))) =
      (if std then drop_source c k ?a2 else drop_destination k ?a2)"
    using a1 assms(3,4)
    by (simp add: read_task_chunks [OF ne(1)] engine_step_def up_def handle_read_for [OF r1] send_open)
  have out: "outbound (if std then drop_source c k ?a2 else drop_destination k ?a2) = outbound a @ ?pk @ [closed_packet rt k std]"
    by (cases "map_of (source_sockets a) k"; cases "map_of (destinations a) k") (simp_all add: drop_source_def drop_destination_def)
  have gone: "map_of (table (\<not> std) (if std then drop_source c k ?a2 else drop_destination k ?a2)) k = None"
    by (cases "map_of (source_sockets a) k"; cases "map_of (destinations a) k")
      (simp_all add: drop_source_def drop_destination_def table_def delete_conv delete_absent)
  have b1: "map_of (table std ?b1) k = Some ?conn" "up ?b1"
    using data_run [OF assms(1,9,5,6,7), of sio adb net] by (simp_all add: Let_def)
  have b2: "engine_run rt sio adb ?b1 (peer_packets net [closed_packet rt k std]) =
      teardown ?conn (set_table std (AList.delete k (table std ?b1)) ?b1)"
    using b1(2) closed_packet_for [OF assms(1) b1(1)] by (simp add: engine_step_def up_def)
  have w: "wr_out (write_task (conn_q ?conn) w) = wr_out w @ concat (conn_q conn) @ concat chunks"
    using write_task_out [OF assms(10) assms(8)] by simp
  have "table std (teardown ?conn s) = table std s" "closed (teardown ?conn s) = closed s @ [conn_stream conn]" for s
    by (simp_all add: teardown_def drop_stream_def table_def)
  with a2 out gone b1 b2 w show ?thesis
    by (simp add: Let_def delete_conv)
qed

definition source_end :: EngineState where
  "source_end = sample_engine\<lparr>source_conn_ids := [(1, 9)],
     source_sockets := [(9, \<lparr>conn_stream = 5, conn_q = [], conn_open = True\<rparr>)], entered := [5]\<rparr>"

definition destination_end :: EngineState where
  "destination_end = sample_engine\<lparr>destinations := [(9, \<lparr>conn_stream = 7, conn_q = [], conn_open = True\<rparr>)], entered := [7]\<rparr>"

lemma ends_up: "up source_end" "outbound_open source_end" "up destination_end"
  by (simp_all add: up_def source_end_def destination_end_def sample_engine_def engine_spawn_def EngineState_new_def case_prod_unfold)

theorem tunnel_carries_witness:
  "let a' = engine_run wire (\<lambda>e. []) True source_end (local_events (read_task 1 (map Inr [[104, 105]] @ [Inr []])));
      sent = drop (length (outbound source_end)) (outbound a');
      b = engine_run wire (\<lambda>e. []) True destination_end (peer_packets sample_net (butlast sent)) in
    \<exists>conn. map_of (destinations b) 9 = Some conn \<and>
      wr_out (write_task (conn_q conn) \<lparr>wr_out = [], wr_room = None, wr_err = UnexpectedEof\<rparr>) = [104, 105]"
proof -
  have "reads_for True 1 9 source_end" by (simp add: reads_for_def source_end_def)
  moreover have "map_of (table True destination_end) 9 = Some \<lparr>conn_stream = 7, conn_q = [], conn_open = True\<rparr>"
    by (simp add: table_def destination_end_def)
  ultimately show ?thesis
    using tunnel_carries [OF buffa_ok_wire, of True 1 9 source_end destination_end _ "[[104, 105]]"
        "\<lparr>wr_out = [], wr_room = None, wr_err = UnexpectedEof\<rparr>" "\<lambda>e. []" True True sample_net] ends_up
    by (simp add: wire_bytes_def table_def Let_def) blast
qed

text \<open>C30. Two engines open a tunnel: an accepted connection becomes a request, the peer connects to the
  requested port and answers with a fresh socket id, and from then on the source's connection and
  the destination's connection stand for that id at both ends, while every other destination stays
  as it was.\<close>

theorem tunnel_opens:
  assumes "buffa_ok rt" and "up a" and "outbound_open a" and "up b" and "outbound_open b"
    and "idx < length (sources a)" and "PortForwardSourceRequest_destination (sources a ! idx) = Some dest"
    and "wf_nested_SocketEndpoint rt dest" and "1 \<le> decode_limit rt"
    and "SocketEndpoint_port dest = Some port" and "0 \<le> sint port" and "sint port \<le> 65535"
    and "length (destinations b) < MAX_DESTINATION_CONNECTIONS"
    and "connect_destination net (ucast port) = Some remote"
    and "fresh_socket_id (map fst (destinations b)) (fills net) = Drawn k rest"
  shows "let a1 = engine_run rt sio ad a [Local (Some (Accepted idx stream))];
      b' = engine_run rt sio True b [Peer (Some (last (outbound a1))) net];
      a' = engine_run rt sio ad a1 [Peer (Some (last (outbound b'))) net'] in
    map_of (source_sockets a') k = Some (spawn_conn (dup_ok net') stream) \<and>
    map_of (source_conn_ids a') (next_conn_id a) = Some k \<and>
    map_of (destinations b') = (map_of (destinations b))(k \<mapsto> spawn_conn (dup_ok net) remote) \<and>
    k \<notin> fst ` set (destinations b)"
proof -
  let ?c = "next_conn_id a"
  let ?req = "PortForwardDestinationRequest_default
      \<lparr>PortForwardDestinationRequest_destination := Some dest, PortForwardDestinationRequest_fd := Some ?c\<rparr>"
  let ?resp = "PortForwardDestinationResponse_default
      \<lparr>PortForwardDestinationResponse_clientfd := Some ?c, PortForwardDestinationResponse_socketid := Some k\<rparr>"
  let ?reqp = "Packet_new PORT_FORWARD_DESTINATION_REQUEST (write_to_PortForwardDestinationRequest rt ?req)"
  let ?respp = "Packet_new PORT_FORWARD_DESTINATION_RESPONSE (write_to_PortForwardDestinationResponse rt ?resp)"
  let ?a1 = "engine_run rt sio ad a [Local (Some (Accepted idx stream))]"
  have req: "decode_PortForwardDestinationRequest rt (write_to_PortForwardDestinationRequest rt ?req) = Ok ?req"
    using assms(1,8,9)
    by (intro decode_write_PortForwardDestinationRequest)
      (simp_all add: wf_PortForwardDestinationRequest_def cost_PortForwardDestinationRequest_def PortForwardDestinationRequest_default_def)
  have resp: "decode_PortForwardDestinationResponse rt (write_to_PortForwardDestinationResponse rt ?resp) = Ok ?resp"
    using assms(1)
    by (intro decode_write_PortForwardDestinationResponse)
      (simp_all add: wf_PortForwardDestinationResponse_def PortForwardDestinationResponse_default_def)
  have a1: "outbound ?a1 = outbound a @ [?reqp]" "pending ?a1 = AList.update ?c stream (pending a)" "up ?a1"
      "source_sockets ?a1 = source_sockets a" "source_conn_ids ?a1 = source_conn_ids a"
    using assms(2,3,6,7)
    by (cases "map_of (pending a) ?c"; simp add: engine_step_def up_def handle_accepted_def Let_def drop_stream_def send_open)+
  have b': "engine_run rt sio True b [Peer (Some ?reqp) net] =
      b\<lparr>entered := entered b @ [remote], destinations := AList.update k (spawn_conn (dup_ok net) remote) (destinations b),
        outbound := outbound b @ [?respp]\<rparr>"
    using assms(4,5,10-)
    by (simp add: engine_step_def up_def handle_peer_packet_def handle_request_def Packet_new_def header_defs req
        create_destination_def send_open)
  have "engine_run rt sio ad ?a1 [Peer (Some ?respp) net'] = handle_response rt net' (write_to_PortForwardDestinationResponse rt ?resp) ?a1"
    using a1(3) by (simp add: engine_step_def up_def handle_peer_packet_def Packet_new_def header_defs)
  moreover have "map_of (pending ?a1) ?c = Some stream" unfolding a1 by (simp add: update_conv')
  ultimately have "map_of (source_sockets (engine_run rt sio ad ?a1 [Peer (Some ?respp) net'])) k = Some (spawn_conn (dup_ok net') stream)"
    "map_of (source_conn_ids (engine_run rt sio ad ?a1 [Peer (Some ?respp) net'])) ?c = Some k"
    by (cases "map_of (source_sockets ?a1) k";
        simp add: handle_response_def resp Let_def update_conv')+
  with a1(1) b' fresh_socket_id_fresh [OF assms(15)] show ?thesis
    by (simp add: Let_def update_conv' del: engine_run_simps)
qed

theorem tunnel_opens_witness:
  "let a1 = engine_run wire (\<lambda>e. []) True sample_engine [Local (Some (Accepted 0 5))];
      b' = engine_run wire (\<lambda>e. []) True sample_engine [Peer (Some (last (outbound a1))) sample_net];
      a' = engine_run wire (\<lambda>e. []) True a1 [Peer (Some (last (outbound b'))) sample_net] in
    map_of (source_sockets a') 9 = Some (spawn_conn True 5) \<and> map_of (destinations b') 9 = Some (spawn_conn True 7)"
proof -
  let ?dest = "SocketEndpoint_default\<lparr>SocketEndpoint_port := Some 9000\<rparr>"
  have s: "sources sample_engine = [sample_source]" "destinations sample_engine = []" "outbound_open sample_engine"
    "up sample_engine" "next_conn_id sample_engine = 1"
    by (simp_all add: up_def sample_engine_def engine_spawn_def EngineState_new_def case_prod_unfold)
  have "write_to_SocketEndpoint wire ?dest = put_int32_field wire 2 9000"
    by (simp add: write_to_SocketEndpoint_def SocketEndpoint_default_def unknown_write_to_Nil [OF buffa_ok_wire])
  then have "length (write_to_SocketEndpoint wire ?dest) \<le> 11"
    using length_put_varint64 [of "scast (9000 :: 32 word)"] by (simp add: wire_fields small_field_def)
  then have "wf_nested_SocketEndpoint wire ?dest"
    by (simp add: wf_nested_SocketEndpoint_def wf_SocketEndpoint_def SocketEndpoint_default_def)
  moreover have "connect_destination sample_net (ucast (9000 :: i32)) = Some 7"
    by (simp add: connect_destination_def sample_net_def)
  moreover have "fresh_socket_id [] (fills sample_net) = Drawn 9 []"
    by (simp add: sample_net_def random_u32_def)
  moreover have "dup_ok sample_net" by (simp add: sample_net_def)
  ultimately show ?thesis
    using tunnel_opens [OF buffa_ok_wire, of sample_engine sample_engine 0 ?dest 9000 sample_net 7 9 "[]" "\<lambda>e. []" True 5 sample_net] s
    by (simp add: sample_source_def MAX_DESTINATION_CONNECTIONS_def wire_fields wire_limit_def Let_def del: engine_run_simps)
qed

end
