(* ===== verification/Session.thy ===== *)
theory Session
  imports Client_Spec Engine_Spec
begin

text \<open>
  \<^verbatim>\<open>crates/et-client/src/session.rs\<close>: the terminal session, the start of one (\<^verbatim>\<open>TerminalSession::start\<close>),
  its operations, and the pump of \<^verbatim>\<open>next_event\<close> and \<^verbatim>\<open>deliver_to_engine\<close> between the client connection and the
  port-forwarding engine. The session is a record of the client, the engine if one runs, the
  bounded queues to it, and where a call of \<^verbatim>\<open>next_event\<close> is parked (\<open>pump_pc\<close>). \<open>session_step\<close> runs the
  pump, the owner's calls, the client's tasks and the engine, one stimulus each; a call that
  borrows the session is made only while no \<^verbatim>\<open>next_event\<close> holds a packet. The last fields record the
  past: \<open>base\<close> is how many events the start had received, \<open>surfaced\<close> what \<^verbatim>\<open>next_event\<close> returned, \<open>routed\<close> the
  packets for the engine with whether it got them, \<open>relayed\<close> the engine's packets with whether the
  connection took them, and \<open>cancelled\<close> whether a \<^verbatim>\<open>next_event\<close> that held a packet was dropped. The text of \<^verbatim>\<open>StartError::Server\<close> for a session that died is the constructor
  \<open>StartDied\<close>.
\<close>

section \<open>Starting a session\<close>

definition DEFAULT_KEEPALIVE :: nat where
  "DEFAULT_KEEPALIVE = 5 * 1000"

definition INITIAL_INVALID_KEY_RETRY :: nat where
  "INITIAL_INVALID_KEY_RETRY = 3 * 1000"

definition invalid_key_pause :: nat where
  "invalid_key_pause = 200"

datatype StartError =
    StartConnect ConnectFailure
  | StartWrite WriteError
  | StartTimeout
  | StartUnexpectedPacket
  | StartServer string
  | StartDied ClientDeadReason

text \<open>The connect loop, with one network for each attempt; \<open>None\<close> while it is still trying.\<close>

fun start_connect ::
    "buffa \<Rightarrow> network list \<Rightarrow> string \<Rightarrow> string \<Rightarrow> string \<Rightarrow> nat \<Rightarrow> nat \<Rightarrow> nat \<Rightarrow> ((ConnectFailure + EtClient) \<times> nat) option" where
  "start_connect rt [] ep i passkey ka deadline now = None"
| "start_connect rt (net # nets) ep i passkey ka deadline now =
     (case connect rt net ep i passkey ka now of
        (Inr c, t) \<Rightarrow> Some (Ok c, t)
      | (Inl (CF_Rejected INVALID_KEY e), t) \<Rightarrow>
          if t < deadline then start_connect rt nets ep i passkey ka deadline (t + invalid_key_pause)
          else Some (Err (CF_Rejected INVALID_KEY e), t)
      | (Inl e, t) \<Rightarrow> Some (Err e, t))"

text \<open>What an event means to the start: an answer, or to go on waiting.\<close>

definition initial_answer :: "buffa \<Rightarrow> Event \<Rightarrow> (StartError + unit) option" where
  "initial_answer rt ev =
     (case ev of
        Event_Packet packet \<Rightarrow>
          if header packet \<noteq> INITIAL_RESPONSE then None
          else
            Some (case decode_InitialResponse rt (payload packet) of
                    Inl _ \<Rightarrow> Err StartUnexpectedPacket
                  | Inr response \<Rightarrow>
                      (case InitialResponse_error response of Some e \<Rightarrow> Err (StartServer e) | None \<Rightarrow> Ok ()))
      | Event_Dead reason \<Rightarrow> Some (Err (StartDied reason)))"

text \<open>The wait for the answer, over what the tasks of the client do and the polls until the time limit.\<close>

fun start_wait :: "secretbox \<Rightarrow> buffa \<Rightarrow> EtClient \<Rightarrow> client_stimulus list \<Rightarrow> (StartError + unit) \<times> EtClient" where
  "start_wait sb rt c [] = (Err StartTimeout, c)"
| "start_wait sb rt c (e # es) =
     (case e of
        Owner_next_event \<Rightarrow>
          (case EtClient_next_event c of
             (Pending, c') \<Rightarrow> start_wait sb rt c' es
           | (Ready None, c') \<Rightarrow> (Err StartUnexpectedPacket, c')
           | (Ready (Some ev), c') \<Rightarrow>
               (case initial_answer rt ev of
                  None \<Rightarrow> start_wait sb rt c' es
                | Some r \<Rightarrow> (r, c')))
      | Actor _ \<Rightarrow> start_wait sb rt (client_step sb rt c e) es
      | Sup_poll _ \<Rightarrow> start_wait sb rt (client_step sb rt c e) es
      | _ \<Rightarrow> start_wait sb rt c es)"

datatype SessionEvent =
    SE_TerminalBuffer bytes
  | SE_KeepAlive
  | SE_Dead ClientDeadReason
  | SE_Other Packet

definition from_packet :: "buffa \<Rightarrow> Packet \<Rightarrow> SessionEvent" where
  "from_packet rt packet =
     (if header packet = TERMINAL_BUFFER then
        (case decode_TerminalBuffer rt (payload packet) of
           Inr tb \<Rightarrow> SE_TerminalBuffer (case TerminalBuffer_buffer tb of None \<Rightarrow> [] | Some b \<Rightarrow> b)
         | Inl _ \<Rightarrow> SE_Other packet)
      else if header packet = KEEP_ALIVE then SE_KeepAlive
      else SE_Other packet)"

datatype pump_pc = In_select | In_deliver Packet

record TerminalSession =
  client :: EtClient
  pf_engine :: "EngineState option"
  pf_queue :: "Packet list"
  pf_cmds :: "engine_cmd list"
  pf_outbound :: bool
  out_taken :: nat
  pump :: pump_pc
  finished :: bool
  base :: nat
  surfaced :: "SessionEvent list"
  routed :: "(Packet \<times> bool) list"
  relayed :: "(Packet \<times> bool) list"
  cancelled :: bool

text \<open>The session at the end of the start, with an engine if there are reverse tunnels.\<close>

definition session_new :: "bool \<Rightarrow> EtClient \<Rightarrow> TerminalSession" where
  "session_new tunnels c =
     \<lparr>client = c, pf_engine = (if tunnels then Some (EngineState_new []) else None), pf_queue = [], pf_cmds = [],
      pf_outbound = tunnels, out_taken = 0, pump = In_select, finished = False, base = received c, surfaced = [],
      routed = [], relayed = [], cancelled = False\<rparr>"

definition start_session ::
    "secretbox \<Rightarrow> buffa \<Rightarrow> network list \<Rightarrow> string \<Rightarrow> string \<Rightarrow> string \<Rightarrow> InitialPayload \<Rightarrow> nat \<Rightarrow> client_stimulus list \<Rightarrow> nat \<Rightarrow>
      (StartError + TerminalSession) option" where
  "start_session sb rt nets ep i passkey initial_payload ka es now =
     (case start_connect rt nets ep i passkey ka (now + INITIAL_INVALID_KEY_RETRY) now of
        None \<Rightarrow> None
      | Some (Inl e, t) \<Rightarrow> Some (Err (StartConnect e))
      | Some (Inr c, t) \<Rightarrow>
          (case EtClient_write sb rt INITIAL_PAYLOAD (write_to_InitialPayload rt initial_payload) c of
             (Inl e, c1) \<Rightarrow> Some (Err (StartWrite e))
           | (Inr _, c1) \<Rightarrow>
               (case start_wait sb rt c1 es of
                  (Inl e, c2) \<Rightarrow> Some (Err e)
                | (Inr _, c2) \<Rightarrow> Some (Ok (session_new (InitialPayload_reversetunnels initial_payload \<noteq> []) c2)))))"

section \<open>The operations\<close>

definition INBOUND_QUEUE_DEPTH :: nat where
  "INBOUND_QUEUE_DEPTH = 256"

definition OUTBOUND_QUEUE_DEPTH :: nat where
  "OUTBOUND_QUEUE_DEPTH = 256"

definition CONN_WRITE_QUEUE_DEPTH :: nat where
  "CONN_WRITE_QUEUE_DEPTH = 256"

definition CMD_QUEUE_DEPTH :: nat where
  "CMD_QUEUE_DEPTH = 16"

text \<open>Whether the engine's task still holds its ends of the channels.\<close>

definition engine_alive :: "EngineState \<Rightarrow> bool" where
  "engine_alive eng \<longleftrightarrow> status eng = Engine_running \<or> status eng = Engine_waiting"

fun join_str :: "string \<Rightarrow> string list \<Rightarrow> string" where
  "join_str sep [] = []"
| "join_str sep [x] = x"
| "join_str sep (x # y # xs) = x @ sep @ join_str sep (y # xs)"

text \<open>The queue into the engine: a permit for one packet, and a send, which waits for one.\<close>

definition EngineHandle_reserve :: "EngineState \<Rightarrow> Packet list \<Rightarrow> (unit + unit) poll" where
  "EngineHandle_reserve eng inbound =
     (if \<not> engine_alive eng then Ready (Err ())
      else if length inbound < INBOUND_QUEUE_DEPTH then Ready (Ok ())
      else Pending)"

definition EngineHandle_send :: "Packet \<Rightarrow> EngineState \<Rightarrow> Packet list \<Rightarrow> unit poll \<times> Packet list" where
  "EngineHandle_send packet eng inbound =
     (case EngineHandle_reserve eng inbound of
        Ready (Err e) \<Rightarrow> (Ready (), inbound)
      | Ready (Ok p) \<Rightarrow> (Ready (), inbound @ [packet])
      | Pending \<Rightarrow> (Pending, inbound))"

text \<open>
  \<^verbatim>\<open>EngineHandle::add_sources\<close>: the command goes into the queue unless that is full or the engine has
  gone; then the call waits, and \<open>outcome\<close> is what it meets.
\<close>

definition EngineHandle_add_sources ::
    "(nat \<Rightarrow> string) \<Rightarrow> PortForwardSourceRequest list \<Rightarrow> add_outcome \<Rightarrow> EngineState \<Rightarrow> TerminalSession \<Rightarrow>
      string list \<times> TerminalSession" where
  "EngineHandle_add_sources show_dur srcs outcome eng s =
     (if engine_alive eng \<and> CMD_QUEUE_DEPTH \<le> length (pf_cmds s)
      then (add_sources_timed show_dur ADD_SOURCES_BOUND Add_full, s)
      else if \<not> engine_alive eng then (add_sources_timed show_dur ADD_SOURCES_BOUND Add_gone, s)
      else (add_sources_timed show_dur ADD_SOURCES_BOUND outcome, s\<lparr>pf_cmds := pf_cmds s @ [AddSources srcs]\<rparr>))"

definition start_port_forwarding ::
    "(nat \<Rightarrow> string) \<Rightarrow> (io_kind \<Rightarrow> string) \<Rightarrow> engine_net \<Rightarrow> PortForwardSourceRequest list \<Rightarrow> add_outcome \<Rightarrow> TerminalSession \<Rightarrow>
      (string + unit) \<times> TerminalSession" where
  "start_port_forwarding show_dur show_io net srcs outcome s =
     (case (case pf_engine s of
              Some eng \<Rightarrow> EngineHandle_add_sources show_dur srcs outcome eng s
            | None \<Rightarrow>
                (case engine_spawn show_io net srcs of
                   (eng, errs) \<Rightarrow> (errs, s\<lparr>pf_engine := Some eng, pf_outbound := True\<rparr>))) of
        (bind_errors, s') \<Rightarrow> (if bind_errors = [] then Ok () else Err (join_str ''; '' bind_errors), s'))"

definition session_write ::
    "secretbox \<Rightarrow> buffa \<Rightarrow> u8 \<Rightarrow> bytes \<Rightarrow> TerminalSession \<Rightarrow> (WriteError + unit) \<times> TerminalSession" where
  "session_write sb rt h p s = (case EtClient_write sb rt h p (client s) of (r, c) \<Rightarrow> (r, s\<lparr>client := c\<rparr>))"

definition send_input :: "secretbox \<Rightarrow> buffa \<Rightarrow> bytes \<Rightarrow> TerminalSession \<Rightarrow> (WriteError + unit) \<times> TerminalSession" where
  "send_input sb rt data s =
     session_write sb rt TERMINAL_BUFFER
       (write_to_TerminalBuffer rt (TerminalBuffer_default\<lparr>TerminalBuffer_buffer := Some data\<rparr>)) s"

definition send_terminal_info ::
    "secretbox \<Rightarrow> buffa \<Rightarrow> i32 \<Rightarrow> i32 \<Rightarrow> i32 \<Rightarrow> i32 \<Rightarrow> TerminalSession \<Rightarrow> (WriteError + unit) \<times> TerminalSession" where
  "send_terminal_info sb rt row column width height s =
     session_write sb rt TERMINAL_INFO
       (write_to_TerminalInfo rt
         (TerminalInfo_default
           \<lparr>TerminalInfo_id := Some [], TerminalInfo_row := Some row, TerminalInfo_column := Some column,
            TerminalInfo_width := Some width, TerminalInfo_height := Some height\<rparr>)) s"

definition send_packet :: "secretbox \<Rightarrow> buffa \<Rightarrow> u8 \<Rightarrow> bytes \<Rightarrow> TerminalSession \<Rightarrow> (WriteError + unit) \<times> TerminalSession" where
  "send_packet sb rt h p s = session_write sb rt h p s"

definition session_kill_socket :: "secretbox \<Rightarrow> buffa \<Rightarrow> TerminalSession \<Rightarrow> TerminalSession" where
  "session_kill_socket sb rt s = s\<lparr>client := EtClient_kill_socket sb rt (client s)\<rparr>"

text \<open>
  The engine's watch is raised and the command queued before the client is shut down; while the
  command queue is full the call is still waiting after it has raised the watch.
\<close>

definition session_shutdown :: "secretbox \<Rightarrow> buffa \<Rightarrow> bool list \<Rightarrow> TerminalSession \<Rightarrow> TerminalSession" where
  "session_shutdown sb rt ps s =
     (case pf_engine s of
        None \<Rightarrow> s\<lparr>client := EtClient_shutdown sb rt (client s)\<rparr>
      | Some eng \<Rightarrow>
          if \<not> engine_alive eng then s\<lparr>client := EtClient_shutdown sb rt (client s)\<rparr>
          else
            (let s1 = s\<lparr>pf_engine := Some (engine_environment (Raise_shutdown ps) eng)\<rparr> in
             if CMD_QUEUE_DEPTH \<le> length (pf_cmds s1) then s1
             else s1\<lparr>pf_cmds := pf_cmds s1 @ [Engine_Shutdown], client := EtClient_shutdown sb rt (client s1)\<rparr>))"

section \<open>The pump\<close>

definition is_port_forward_header :: "u8 \<Rightarrow> bool" where
  "is_port_forward_header h \<longleftrightarrow>
     h = PORT_FORWARD_DATA \<or> h = PORT_FORWARD_DESTINATION_REQUEST \<or> h = PORT_FORWARD_DESTINATION_RESPONSE"

text \<open>The branch of both selects that writes the engine's frames to the connection.\<close>

definition pump_outbound :: "secretbox \<Rightarrow> buffa \<Rightarrow> TerminalSession \<Rightarrow> TerminalSession" where
  "pump_outbound sb rt s =
     (case pf_engine s of
        None \<Rightarrow> s
      | Some eng \<Rightarrow>
          if \<not> pf_outbound s then s
          else if out_taken s < length (outbound eng) then
            (let p = outbound eng ! out_taken s in
             case session_write sb rt (header p) (payload p) s of
               (r, s1) \<Rightarrow> s1\<lparr>out_taken := Suc (out_taken s), relayed := relayed s @ [(p, r = Ok ())]\<rparr>)
          else if \<not> engine_alive eng then s\<lparr>pf_outbound := False\<rparr>
          else s)"

text \<open>The branch of \<^verbatim>\<open>next_event\<close> for an event of the connection.\<close>

definition pump_event :: "buffa \<Rightarrow> TerminalSession \<Rightarrow> TerminalSession" where
  "pump_event rt s =
     (case EtClient_next_event (client s) of
        (Pending, c) \<Rightarrow> s
      | (Ready None, c) \<Rightarrow> s\<lparr>finished := True\<rparr>
      | (Ready (Some (Event_Packet packet)), c) \<Rightarrow>
          (let s1 = s\<lparr>client := c\<rparr> in
           if is_port_forward_header (header packet) \<and> pf_engine s1 \<noteq> None then
             (if EtClient_session_ended c then s1\<lparr>routed := routed s1 @ [(packet, False)]\<rparr>
              else s1\<lparr>pump := In_deliver packet\<rparr>)
           else s1\<lparr>surfaced := surfaced s1 @ [from_packet rt packet]\<rparr>)
      | (Ready (Some (Event_Dead reason)), c) \<Rightarrow> s\<lparr>client := c, surfaced := surfaced s @ [SE_Dead reason]\<rparr>)"

text \<open>The return of \<^verbatim>\<open>deliver_to_engine\<close>, with or without the packet having been sent.\<close>

definition deliver_return :: "Packet \<Rightarrow> bool \<Rightarrow> TerminalSession \<Rightarrow> TerminalSession" where
  "deliver_return packet sent s = s\<lparr>pump := In_select, routed := routed s @ [(packet, sent)]\<rparr>"

text \<open>The branches of \<^verbatim>\<open>deliver_to_engine\<close> for a permit and for the tick.\<close>

definition pump_permit :: "Packet \<Rightarrow> TerminalSession \<Rightarrow> TerminalSession" where
  "pump_permit packet s =
     (case pf_engine s of
        None \<Rightarrow> deliver_return packet False s
      | Some eng \<Rightarrow>
          (case EngineHandle_reserve eng (pf_queue s) of
             Ready (Err e) \<Rightarrow> deliver_return packet False s
           | Ready (Ok p) \<Rightarrow> deliver_return packet True (s\<lparr>pf_queue := pf_queue s @ [packet]\<rparr>)
           | Pending \<Rightarrow> s))"

definition pump_tick :: "Packet \<Rightarrow> TerminalSession \<Rightarrow> TerminalSession" where
  "pump_tick packet s = (if EtClient_session_ended (client s) then deliver_return packet False s else s)"

section \<open>The session as one machine\<close>

text \<open>
  What the engine does in a session. A handler whose sends have to wait for room in the session's
  queue or in the queue of a connection is taken once all of them have it.
\<close>

definition engine_room :: "nat \<Rightarrow> EngineState \<Rightarrow> bool" where
  "engine_room n eng \<longleftrightarrow>
     length (outbound eng) \<le> n + OUTBOUND_QUEUE_DEPTH \<and>
     list_all (\<lambda>(i, c). length (conn_q c) \<le> CONN_WRITE_QUEUE_DEPTH) (source_sockets eng @ destinations eng)"

definition engine_advance ::
    "buffa \<Rightarrow> (io_kind \<Rightarrow> string) \<Rightarrow> engine_stimulus \<Rightarrow> EngineState \<Rightarrow> TerminalSession \<Rightarrow> TerminalSession option" where
  "engine_advance rt show_io e eng s =
     (let eng' = engine_step rt show_io True eng e in
      if status eng = Engine_running \<and> engine_room (out_taken s) eng' then Some (s\<lparr>pf_engine := Some eng'\<rparr>) else None)"

datatype session_stimulus =
    Pump_outbound
  | Pump_event
  | Pump_permit
  | Pump_tick
  | Pump_dropped
  | Engine_recv engine_net
  | Engine_cmd_recv engine_net
  | Engine_task engine_stimulus
  | Client_task client_stimulus
  | Start_port_forwarding "nat \<Rightarrow> string" engine_net "PortForwardSourceRequest list" add_outcome
  | Send_input bytes
  | Send_terminal_info i32 i32 i32 i32
  | Send_packet u8 bytes
  | Kill_socket
  | Shutdown_session "bool list"

text \<open>The engine takes the next packet or command, or runs on what its own tasks bring.\<close>

definition engine_side ::
    "buffa \<Rightarrow> (io_kind \<Rightarrow> string) \<Rightarrow> session_stimulus \<Rightarrow> TerminalSession \<Rightarrow> TerminalSession" where
  "engine_side rt show_io e s =
     (case pf_engine s of
        None \<Rightarrow> s
      | Some eng \<Rightarrow>
          (case (case e of
                   Engine_recv net \<Rightarrow>
                     (case pf_queue s of
                        [] \<Rightarrow> None
                      | p # q \<Rightarrow> map_option (pf_queue_update (\<lambda>_. q)) (engine_advance rt show_io (Peer (Some p) net) eng s))
                 | Engine_cmd_recv net \<Rightarrow>
                     (case pf_cmds s of
                        [] \<Rightarrow> None
                      | cmd # q \<Rightarrow> map_option (pf_cmds_update (\<lambda>_. q)) (engine_advance rt show_io (Engine_cmd (Some cmd) net) eng s))
                 | Engine_task (Local (Some ev)) \<Rightarrow> engine_advance rt show_io (Local (Some ev)) eng s
                 | Engine_task (Conn_drain std i n) \<Rightarrow> engine_advance rt show_io (Conn_drain std i n) eng s
                 | Engine_task (Conn_dies std i) \<Rightarrow> engine_advance rt show_io (Conn_dies std i) eng s
                 | _ \<Rightarrow> None) of
             None \<Rightarrow> s
           | Some s' \<Rightarrow> s'))"

text \<open>The calls of the owner.\<close>

definition session_call ::
    "secretbox \<Rightarrow> buffa \<Rightarrow> (io_kind \<Rightarrow> string) \<Rightarrow> session_stimulus \<Rightarrow> TerminalSession \<Rightarrow> TerminalSession" where
  "session_call sb rt show_io e s =
     (case e of
        Start_port_forwarding show_dur net srcs outcome \<Rightarrow> snd (start_port_forwarding show_dur show_io net srcs outcome s)
      | Send_input data \<Rightarrow> snd (send_input sb rt data s)
      | Send_terminal_info row column width height \<Rightarrow> snd (send_terminal_info sb rt row column width height s)
      | Send_packet h p \<Rightarrow> snd (send_packet sb rt h p s)
      | Kill_socket \<Rightarrow> session_kill_socket sb rt s
      | Shutdown_session ps \<Rightarrow> session_shutdown sb rt ps s
      | _ \<Rightarrow> s)"

definition pump_side :: "secretbox \<Rightarrow> buffa \<Rightarrow> session_stimulus \<Rightarrow> TerminalSession \<Rightarrow> TerminalSession" where
  "pump_side sb rt e s =
     (case e of
        Pump_outbound \<Rightarrow> pump_outbound sb rt s
      | Pump_event \<Rightarrow> (case pump s of In_select \<Rightarrow> pump_event rt s | In_deliver p \<Rightarrow> s)
      | Pump_permit \<Rightarrow> (case pump s of In_select \<Rightarrow> s | In_deliver p \<Rightarrow> pump_permit p s)
      | Pump_tick \<Rightarrow> (case pump s of In_select \<Rightarrow> s | In_deliver p \<Rightarrow> pump_tick p s)
      | Pump_dropped \<Rightarrow> (case pump s of In_select \<Rightarrow> s | In_deliver p \<Rightarrow> (deliver_return p False s)\<lparr>cancelled := True\<rparr>)
      | _ \<Rightarrow> s)"

definition client_side :: "secretbox \<Rightarrow> buffa \<Rightarrow> session_stimulus \<Rightarrow> TerminalSession \<Rightarrow> TerminalSession" where
  "client_side sb rt e s =
     (case e of
        Client_task (Actor a) \<Rightarrow> s\<lparr>client := client_step sb rt (client s) (Actor a)\<rparr>
      | Client_task (Sup_poll net) \<Rightarrow> s\<lparr>client := client_step sb rt (client s) (Sup_poll net)\<rparr>
      | _ \<Rightarrow> s)"

definition session_step ::
    "secretbox \<Rightarrow> buffa \<Rightarrow> (io_kind \<Rightarrow> string) \<Rightarrow> TerminalSession \<Rightarrow> session_stimulus \<Rightarrow> TerminalSession" where
  "session_step sb rt show_io s e =
     (case e of
        Pump_outbound \<Rightarrow> pump_side sb rt e s
      | Pump_event \<Rightarrow> pump_side sb rt e s
      | Pump_permit \<Rightarrow> pump_side sb rt e s
      | Pump_tick \<Rightarrow> pump_side sb rt e s
      | Pump_dropped \<Rightarrow> pump_side sb rt e s
      | Engine_recv _ \<Rightarrow> engine_side rt show_io e s
      | Engine_cmd_recv _ \<Rightarrow> engine_side rt show_io e s
      | Engine_task _ \<Rightarrow> engine_side rt show_io e s
      | Client_task _ \<Rightarrow> client_side sb rt e s
      | _ \<Rightarrow> (case pump s of In_select \<Rightarrow> session_call sb rt show_io e s | In_deliver p \<Rightarrow> s))"

definition session_run ::
    "secretbox \<Rightarrow> buffa \<Rightarrow> (io_kind \<Rightarrow> string) \<Rightarrow> TerminalSession \<Rightarrow> session_stimulus list \<Rightarrow> TerminalSession" where
  "session_run sb rt show_io s es = foldl (session_step sb rt show_io) s es"

text \<open>A permit on each outcome, and what a send makes of the queue.\<close>

lemma pump_permit_cases:
  "pump_permit packet s =
     (case pf_engine s of
        None \<Rightarrow> deliver_return packet False s
      | Some eng \<Rightarrow>
          if \<not> engine_alive eng then deliver_return packet False s
          else if length (pf_queue s) < INBOUND_QUEUE_DEPTH then
            deliver_return packet True (s\<lparr>pf_queue := pf_queue s @ [packet]\<rparr>)
          else s)"
  by (cases "pf_engine s") (simp_all add: pump_permit_def EngineHandle_reserve_def)

lemma EngineHandle_send_outcome:
  assumes "EngineHandle_send packet eng q = (r, q')" and "length q \<le> INBOUND_QUEUE_DEPTH"
  shows "length q' \<le> INBOUND_QUEUE_DEPTH" and "r = Ready () \<Longrightarrow> engine_alive eng \<Longrightarrow> q' = q @ [packet]"
    and "r = Pending \<longleftrightarrow> engine_alive eng \<and> length q = INBOUND_QUEUE_DEPTH"
  using assms by (auto simp: EngineHandle_send_def EngineHandle_reserve_def split: if_splits)

end
