(* ===== verification/Engine_Queues.thy ===== *)
theory Engine_Queues
  imports Engine_Spec
begin

text \<open>
  What one step of the port-forwarding engine can add to its queues: at most two packets for the
  session, and at most one item for any one connection.
\<close>

section \<open>The engine's queues\<close>

lemma list_all_update: "P (k, v) \<Longrightarrow> list_all P xs \<Longrightarrow> list_all P (AList.update k v xs)"
  by (induction xs) auto

lemma list_all_delete: "list_all P xs \<Longrightarrow> list_all P (AList.delete k xs)"
  by (induction xs) auto

definition queues_le :: "nat \<Rightarrow> EngineState \<Rightarrow> bool" where
  "queues_le n eng \<longleftrightarrow> list_all (\<lambda>(i, c). length (conn_q c) \<le> n) (source_sockets eng @ destinations eng)"

text \<open>What a step adds to the packets sent, and to the queues of the connections.\<close>

definition sends_le :: "nat \<Rightarrow> EngineState \<Rightarrow> EngineState \<Rightarrow> bool" where
  "sends_le n s s' \<longleftrightarrow> (\<exists>out. outbound s' = outbound s @ out \<and> length out \<le> n)"

lemma sends_leI: "outbound s' = outbound s \<Longrightarrow> sends_le n s s'"
  by (simp add: sends_le_def)

lemma sends_le_trans: "sends_le m s s' \<Longrightarrow> sends_le n s' s'' \<Longrightarrow> sends_le (m + n) s s''"
  by (fastforce simp: sends_le_def)

lemma sends_le_mono: "sends_le m s s' \<Longrightarrow> m \<le> n \<Longrightarrow> sends_le n s s'"
  by (auto simp: sends_le_def)

lemma pick_outbound: "outbound (snd (pick s)) = outbound s"
  by (simp add: pick_def split: list.split)

lemma send_sends: "sends_le 1 s (send_or_shutdown p s)"
  using pick_outbound [of s] by (auto simp: send_or_shutdown_def sends_le_def split: prod.split)

lemma send_queues: "queues_le n (send_or_shutdown p s) = queues_le n s"
  by (simp add: queues_le_def engine_frame)

lemma drop_source_sends: "outbound (drop_source i k s) = outbound s"
  by (simp add: drop_source_def teardown_opt_def teardown_def drop_stream_def split: option.split)

lemma drop_destination_sends: "outbound (drop_destination k s) = outbound s"
  by (simp add: drop_destination_def teardown_opt_def teardown_def drop_stream_def split: option.split)

lemma handle_read_sends: "sends_le 2 s (handle_read rt show_io i r s)"
proof -
  have two: "sends_le 2 s (send_or_shutdown q (send_or_shutdown p s))" for p q s
    using sends_le_trans [OF send_sends send_sends] by (simp add: numeral_2_eq_2)
  have one: "sends_le 2 s (send_or_shutdown p s)" for p s
    using sends_le_mono [OF send_sends] by simp
  have k: "sends_le n s (drop_source i k t) = sends_le n s t" "sends_le n s (drop_destination k t) = sends_le n s t" for n k t
    by (simp_all add: sends_le_def drop_source_sends drop_destination_sends)
  show ?thesis
    by (simp add: handle_read_def k two one sends_leI split: option.split sum.split)
qed

lemma handle_accepted_sends: "sends_le 1 s (handle_accepted rt i st s)"
proof -
  have "sends_le 1 s (send_or_shutdown p t)" if "outbound t = outbound s" for p t
    using send_sends [of t p] that by (simp add: sends_le_def)
  then show ?thesis
    by (auto simp: handle_accepted_def Let_def drop_stream_def sends_leI split: option.split)
qed

lemma create_destination_sends:
  "create_destination net request s = Drawn (response, s') rest \<Longrightarrow> outbound s' = outbound s"
  by (auto simp: create_destination_def split: option.splits if_splits drawn.splits)

lemma handle_peer_packet_sends: "sends_le 1 s (handle_peer_packet rt ad net p s)"
proof -
  have "sends_le 1 s (send_or_shutdown q t)" if "outbound t = outbound s" for q t
    using send_sends [of t q] that by (simp add: sends_le_def)
  then have "sends_le 1 s (handle_request rt ad net bs s)" for bs
    by (auto simp: handle_request_def sends_leI split: sum.split drawn.split if_split dest: create_destination_sends)
  moreover have "outbound (handle_response rt net bs s) = outbound s" for bs
    by (simp add: handle_response_def Let_def teardown_opt_def teardown_def drop_stream_def split: sum.split option.split)
  moreover have "outbound (handle_data rt bs s) = outbound s" for bs
    using pick_outbound
    by (auto simp: handle_data_def Let_def teardown_def drop_stream_def set_table_def case_prod_unfold split: sum.split option.split)
  ultimately show ?thesis
    by (simp add: handle_peer_packet_def sends_leI)
qed

lemma engine_step_sends: "sends_le 2 s (engine_step rt show_io ad s e)"
proof -
  note m = sends_le_mono [OF handle_peer_packet_sends] sends_le_mono [OF handle_accepted_sends]
  have "outbound (engine_environment e s) = outbound s"
    by (cases e) (simp_all add: engine_environment_def set_table_def)
  moreover have "outbound (engine_end s) = outbound s"
    by (simp add: engine_end_def teardown_all_def)
  moreover have "outbound (add_sources show_io net srcs s) = outbound s" for net srcs
    by (simp add: add_sources_def split: prod.split)
  ultimately show ?thesis
    by (auto simp: engine_step_def sends_leI m handle_read_sends split: engine_stimulus.split option.split engine_cmd.split local_event.split)
qed

lemma queues_le_set_table: "queues_le n (set_table std t s) \<longleftrightarrow>
    list_all (\<lambda>(i, c). length (conn_q c) \<le> n) (table (\<not> std) s @ t)"
  by (auto simp: queues_le_def set_table_def table_def)

lemma queues_le_mono: "queues_le m s \<Longrightarrow> m \<le> n \<Longrightarrow> queues_le n s"
  by (auto simp: queues_le_def elim!: list.pred_mono_strong)

lemma queues_le_frame:
  "queues_le n (s\<lparr>picks := ps\<rparr>) = queues_le n s" "queues_le n (teardown c s) = queues_le n s"
  by (simp_all add: queues_le_def teardown_def drop_stream_def)

lemma handle_peer_packet_queues:
  assumes "queues_le n s"
  shows "queues_le (Suc n) (handle_peer_packet rt ad net p s)"
proof -
  let ?P = "\<lambda>(i :: u32, c). length (conn_q c) \<le> Suc n"
  have s: "queues_le (Suc n) s" by (rule queues_le_mono [OF assms]) simp
  then have t: "list_all ?P (source_sockets s)" "list_all ?P (destinations s)"
    by (simp_all add: queues_le_def)
  then have q: "list_all ?P (table std s)" for std by (simp add: table_def)
  have c: "queues_le (Suc n) s'" if "create_destination net r s = Drawn (x, s') rest" for r x s' rest
    using that t
    by (auto simp: create_destination_def queues_le_def spawn_conn_def list_all_update
        split: option.splits if_splits drawn.splits)
  have "queues_le (Suc n) (handle_request rt ad net bs s)" for bs
  proof -
    have "queues_le (Suc n) (s\<lparr>status := st\<rparr>)" for st using s by (simp add: queues_le_def)
    with s show ?thesis
      by (auto simp: handle_request_def send_queues split: sum.split drawn.split dest: c)
  qed
  moreover have "queues_le (Suc n) (handle_response rt net bs s)" for bs
    using t by (auto simp: handle_response_def queues_le_def Let_def teardown_opt_def teardown_def drop_stream_def spawn_conn_def
        list_all_update split: sum.split option.split)
  moreover have "queues_le (Suc n) (handle_data rt bs s)" for bs
  proof -
    have d: "list_all ?P (AList.delete k (table std s))" for k std by (rule list_all_delete [OF q])
    have l: "length (conn_q c) \<le> n" if "map_of (table std s) k = Some c" for std k c
      using assms map_of_SomeD [OF that] by (force simp: queues_le_def table_def list_all_iff split: if_splits)
    have u: "list_all ?P (table (\<not> std) s @ AList.update k c' (AList.delete k (table std s)))"
      if "length (conn_q c') \<le> Suc n" for std k c'
      using that q d by (simp add: list_all_update)
    have r: "list_all ?P (table (\<not> std) s @ AList.delete k (table std s))" for std k
      using q d by simp
    have "queues_le (Suc n)
        (case pick (set_table std (AList.delete k (table std s)) s) of
           (won, s2) \<Rightarrow>
             if won \<and> conn_open conn
             then set_table std (AList.update k (conn\<lparr>conn_q := conn_q conn @ [buf]\<rparr>) (table std s2)) s2
             else teardown conn s2)"
      if "map_of (table std s) k = Some conn" for std k conn buf
    proof -
      let ?s1 = "set_table std (AList.delete k (table std s)) s"
      obtain ps where "snd (pick ?s1) = ?s1\<lparr>picks := ps\<rparr>" by (rule pick_eq)
      with l [OF that] u [of "conn\<lparr>conn_q := conn_q conn @ [buf]\<rparr>" std k] r [of std k] show ?thesis
        by (simp add: case_prod_unfold queues_le_frame queues_le_set_table)
    qed
    with s l r u show ?thesis
      by (auto simp: handle_data_def Let_def queues_le_frame queues_le_set_table le_SucI split: sum.split option.split)
  qed
  ultimately show ?thesis
    using s by (simp add: handle_peer_packet_def)
qed

end
