(* ===== verification/Session_Inv.thy ===== *)
theory Session_Inv
  imports Session Engine_Queues Writes
begin

text \<open>
  The invariant of the terminal session, kept by every step of the pump, of the owner's calls, of the
  client's tasks and of the engine: where each event of the connection went, in order, what can
  have been lost and why, and the bounds of the queues.
\<close>

section \<open>The client under a session\<close>

text \<open>What the tasks of the client, and the calls of its owner, leave as it was.\<close>

lemma client_task_keeps:
  assumes "(\<exists>a. e = Actor a) \<or> (\<exists>net. e = Sup_poll net)"
  shows "received (client_step sb rt c e) = received c" "owner_gone (client_step sb rt c e) = owner_gone c"
    "EtClient_session_ended c \<Longrightarrow> EtClient_session_ended (client_step sb rt c e)"
proof -
  have "received (actor_step sb rt a c) = received c \<and> owner_gone (actor_step sb rt a c) = owner_gone c \<and> sup (actor_step sb rt a c) = sup c" for a
    by (cases a) (simp_all add: actor_step_def)
  moreover have "received (sup_step sb rt net c) = received c \<and> owner_gone (sup_step sb rt net c) = owner_gone c \<and>
      (sup c = Sup_done \<longrightarrow> sup (sup_step sb rt net c) = Sup_done)" for net
    by (cases "sup c")
      (auto simp: sup_step_def sup_select_def sup_send_def sup_attempt_def sup_recover_def case_prod_unfold Let_def
        split: pc.split poll.split option.split)
  ultimately show "received (client_step sb rt c e) = received c" "owner_gone (client_step sb rt c e) = owner_gone c"
    "EtClient_session_ended c \<Longrightarrow> EtClient_session_ended (client_step sb rt c e)"
    using assms by (auto simp: client_step_def EtClient_session_ended_def)
qed

lemma client_calls_keep [simp]:
  "received (snd (EtClient_write sb rt h p c)) = received c"
  "client_events (snd (EtClient_write sb rt h p c)) = client_events c"
  "owner_gone (snd (EtClient_write sb rt h p c)) = owner_gone c"
  "sup (snd (EtClient_write sb rt h p c)) = sup c"
  "received (EtClient_kill_socket sb rt c) = received c" "client_events (EtClient_kill_socket sb rt c) = client_events c"
  "owner_gone (EtClient_kill_socket sb rt c) = owner_gone c" "sup (EtClient_kill_socket sb rt c) = sup c"
  "received (EtClient_shutdown sb rt c) = received c" "client_events (EtClient_shutdown sb rt c) = client_events c"
  "owner_gone (EtClient_shutdown sb rt c) = owner_gone c" "sup (EtClient_shutdown sb rt c) = sup c"
  by (simp_all add: EtClient_write_def EtClient_kill_socket_def EtClient_shutdown_def case_prod_unfold)

lemma client_calls_inv:
  assumes "client_inv sb c" and "\<not> owner_gone c"
  shows "client_inv sb (snd (EtClient_write sb rt h p c))" "client_inv sb (EtClient_kill_socket sb rt c)"
    "client_inv sb (EtClient_shutdown sb rt c)" "client_inv sb (snd (EtClient_next_event c))"
  using client_step_inv [OF assms(1), of rt "Owner_write h p"] client_step_inv [OF assms(1), of rt Owner_kill_socket]
    client_step_inv [OF assms(1), of rt Owner_shutdown] client_step_inv [OF assms(1), of rt Owner_next_event] assms(2)
  by (simp_all add: client_step_def)

section \<open>The invariant\<close>

text \<open>The events the session has received since it started, and where an event belongs.\<close>

definition got :: "TerminalSession \<Rightarrow> Event list" where
  "got s = drop (base s) (take (received (client s)) (client_events (client s)))"

definition for_engine :: "Event \<Rightarrow> bool" where
  "for_engine ev = (case ev of Event_Packet p \<Rightarrow> is_port_forward_header (header p) | Event_Dead r \<Rightarrow> False)"

definition shown :: "buffa \<Rightarrow> Event \<Rightarrow> SessionEvent" where
  "shown rt ev = (case ev of Event_Packet p \<Rightarrow> from_packet rt p | Event_Dead r \<Rightarrow> SE_Dead r)"

definition in_hand :: "TerminalSession \<Rightarrow> Packet list" where
  "in_hand s = (case pump s of In_select \<Rightarrow> [] | In_deliver p \<Rightarrow> [p])"

text \<open>
  The first \<open>k\<close> events came before there was an engine, and all of them were returned; of the rest,
  those for the engine went to it, in order, and the others were returned.
\<close>

definition routes :: "buffa \<Rightarrow> nat \<Rightarrow> TerminalSession \<Rightarrow> bool" where
  "routes rt k s \<longleftrightarrow>
     k \<le> length (got s) \<and>
     surfaced s = map (shown rt) (take k (got s) @ filter (\<lambda>ev. \<not> for_engine ev) (drop k (got s))) \<and>
     map fst (routed s) @ in_hand s = client_packets (filter for_engine (drop k (got s))) \<and>
     (pf_engine s = None \<longrightarrow> k = length (got s))"

definition engine_gone :: "TerminalSession \<Rightarrow> bool" where
  "engine_gone s \<longleftrightarrow> (case pf_engine s of None \<Rightarrow> False | Some eng \<Rightarrow> \<not> engine_alive eng)"

definition losses_inv :: "TerminalSession \<Rightarrow> bool" where
  "losses_inv s \<longleftrightarrow>
     (list_all snd (routed s) \<or> EtClient_session_ended (client s) \<or> cancelled s \<or> engine_gone s) \<and>
     (\<exists>fed. map fst (filter snd (routed s)) = fed @ pf_queue s)"

definition queues_inv :: "TerminalSession \<Rightarrow> bool" where
  "queues_inv s \<longleftrightarrow>
     length (pf_queue s) \<le> INBOUND_QUEUE_DEPTH \<and> length (pf_cmds s) \<le> CMD_QUEUE_DEPTH \<and>
     (case pf_engine s of
        None \<Rightarrow> out_taken s = 0 \<and> pump s = In_select
      | Some eng \<Rightarrow> engine_inv True eng \<and> out_taken s \<le> length (outbound eng) \<and> engine_room (out_taken s) eng \<and>
          (engine_alive eng \<longrightarrow> pf_outbound s))"

definition connection_inv :: "secretbox \<Rightarrow> TerminalSession \<Rightarrow> bool" where
  "connection_inv sb s \<longleftrightarrow>
     client_inv sb (client s) \<and> \<not> owner_gone (client s) \<and>
     base s \<le> received (client s) \<and> received (client s) \<le> length (client_events (client s))"

text \<open>What was taken from the engine went to the connection, in order, if it was accepted.\<close>

definition frame_of :: "Packet \<Rightarrow> u8 \<times> bytes" where
  "frame_of p = (header p, payload p)"

definition relay_out_inv :: "TerminalSession \<Rightarrow> bool" where
  "relay_out_inv s \<longleftrightarrow>
     map fst (relayed s) = (case pf_engine s of None \<Rightarrow> [] | Some eng \<Rightarrow> take (out_taken s) (outbound eng)) \<and>
     subseq (map (frame_of \<circ> fst) (filter snd (relayed s))) (written (backed (client s)))"

definition session_inv :: "secretbox \<Rightarrow> buffa \<Rightarrow> TerminalSession \<Rightarrow> bool" where
  "session_inv sb rt s \<longleftrightarrow> connection_inv sb s \<and> queues_inv s \<and> losses_inv s \<and> relay_out_inv s \<and> (\<exists>k. routes rt k s)"

lemma engine_room_alt:
  "engine_room n eng \<longleftrightarrow> length (outbound eng) \<le> n + OUTBOUND_QUEUE_DEPTH \<and> queues_le CONN_WRITE_QUEUE_DEPTH eng"
  by (simp add: engine_room_def queues_le_def)


section \<open>Every step keeps it\<close>

lemmas session_defs = session_inv_def connection_inv_def queues_inv_def losses_inv_def engine_gone_def

lemma relay_out_frame:
  assumes "relay_out_inv s" and "relayed s' = relayed s" and "out_taken s' = out_taken s" and "pf_engine s' = pf_engine s"
    and "written (backed (client s')) = written (backed (client s)) @ out"
  shows "relay_out_inv s'"
  using assms by (simp add: relay_out_inv_def list_emb_prefix cong: option.case_cong)

lemma relay_out_upd [simp]:
  "relay_out_inv (s\<lparr>pf_queue := q\<rparr>) = relay_out_inv s" "relay_out_inv (s\<lparr>pf_cmds := cs\<rparr>) = relay_out_inv s"
  "relay_out_inv (s\<lparr>finished := b\<rparr>) = relay_out_inv s" "relay_out_inv (s\<lparr>pf_outbound := b\<rparr>) = relay_out_inv s"
  by (simp_all add: relay_out_inv_def cong: option.case_cong)

lemma routes_frame:
  assumes "routes rt k s" and "got s' = got s" and "surfaced s' = surfaced s" and "routed s' = routed s" and "pump s' = pump s"
    and "pf_engine s' = None \<longrightarrow> pf_engine s = None"
  shows "routes rt k s'"
  using assms by (simp add: routes_def in_hand_def)

lemma got_grows:
  "received c \<le> length (client_events c) \<Longrightarrow> client_events c' = client_events c @ out \<Longrightarrow> received c' = received c \<Longrightarrow>
    take (received c') (client_events c') = take (received c) (client_events c)"
  by simp

lemma client_change:
  assumes "session_inv sb rt s" and "client_inv sb c" and "\<not> owner_gone c" and "received c = received (client s)"
    and "client_events c = client_events (client s) @ out"
    and "EtClient_session_ended (client s) \<longrightarrow> EtClient_session_ended c"
    and "written (backed c) = written (backed (client s)) @ ws"
  shows "session_inv sb rt (s\<lparr>client := c\<rparr>)"
proof -
  let ?s = "s\<lparr>client := c\<rparr>"
  have "received (client s) \<le> length (client_events (client s))"
    using assms(1) by (simp add: session_inv_def connection_inv_def)
  from got_grows [OF this assms(5,4)] have "got ?s = got s" by (simp add: got_def)
  then have "routes rt k ?s" if "routes rt k s" for k
    by (rule routes_frame [OF that]) simp_all
  moreover have "relay_out_inv ?s"
    by (rule relay_out_frame [of s]) (use assms(1,7) in \<open>simp_all add: session_inv_def\<close>)
  moreover have "connection_inv sb ?s"
    using assms(1-5) by (simp add: session_inv_def connection_inv_def)
  moreover have "queues_inv ?s"
    using assms(1) by (simp add: session_inv_def queues_inv_def split: option.splits)
  moreover have "losses_inv ?s"
    using assms(1,6) by (auto simp: session_inv_def losses_inv_def engine_gone_def)
  ultimately show ?thesis
    using assms(1) by (auto simp: session_inv_def)
qed

lemma client_side_inv:
  assumes "session_inv sb rt s"
  shows "session_inv sb rt (client_side sb rt e s)"
proof -
  have i: "client_inv sb (client s)" "\<not> owner_gone (client s)"
    using assms by (simp_all add: session_inv_def connection_inv_def)
  have "session_inv sb rt (s\<lparr>client := client_step sb rt (client s) e'\<rparr>)" if "(\<exists>a. e' = Actor a) \<or> (\<exists>net. e' = Sup_poll net)" for e'
  proof -
    from client_events_grow [of sb rt "client s" e'] obtain out
      where "client_events (client_step sb rt (client s) e') = client_events (client s) @ out" by blast
    moreover obtain ws where "written (backed (client_step sb rt (client s) e')) = written (backed (client s)) @ ws"
      using client_run_written [of sb rt "client s" "[e']"] by auto
    ultimately show ?thesis
      using client_task_keeps [OF that] i by (intro client_change [OF assms]) (simp_all add: client_step_inv)
  qed
  with assms show ?thesis
    by (auto simp: client_side_def split: session_stimulus.split client_stimulus.split)
qed

lemma session_inv_client: "session_inv sb rt s \<Longrightarrow> client_inv sb (client s) \<and> \<not> owner_gone (client s)"
  by (simp add: session_inv_def connection_inv_def)

lemma client_calls_written:
  "\<exists>ws. written (backed (snd (EtClient_write sb rt h p c))) = written (backed c) @ ws"
  "\<exists>ws. written (backed (EtClient_kill_socket sb rt c)) = written (backed c) @ ws"
  "\<exists>ws. written (backed (EtClient_shutdown sb rt c)) = written (backed c) @ ws"
  using backed_step_written
  by (auto simp: EtClient_write_def EtClient_kill_socket_def EtClient_shutdown_def BackedHandle_kill_socket_def
      BackedHandle_shutdown_def case_prod_unfold client_frame)

lemma client_call_inv:
  assumes "session_inv sb rt s"
  shows "session_inv sb rt (snd (session_write sb rt h p s))" "session_inv sb rt (session_kill_socket sb rt s)"
    "session_inv sb rt (s\<lparr>client := EtClient_shutdown sb rt (client s)\<rparr>)"
proof -
  have call: "session_inv sb rt (s\<lparr>client := c\<rparr>)"
    if "client_inv sb c" "\<not> owner_gone c" "received c = received (client s)" "client_events c = client_events (client s)"
      "sup c = sup (client s)" "\<exists>ws. written (backed c) = written (backed (client s)) @ ws" for c
  proof -
    note c = that
    obtain ws where "written (backed c) = written (backed (client s)) @ ws" using c(6) by blast
    then show ?thesis using c(1-5) by (intro client_change [OF assms]) (simp_all add: EtClient_session_ended_def)
  qed
  show "session_inv sb rt (snd (session_write sb rt h p s))" "session_inv sb rt (session_kill_socket sb rt s)"
    "session_inv sb rt (s\<lparr>client := EtClient_shutdown sb rt (client s)\<rparr>)"
    using session_inv_client [OF assms] client_calls_written
    by (simp_all add: session_write_def session_kill_socket_def case_prod_unfold call client_calls_inv)
qed

lemma engine_change:
  assumes "session_inv sb rt s" and "pf_engine s = Some eng" and "engine_inv True eng'" and "engine_room (out_taken s) eng'"
    and "sends_le n eng eng'" and "engine_alive eng' \<longrightarrow> engine_alive eng"
  shows "session_inv sb rt (s\<lparr>pf_engine := Some eng'\<rparr>)"
proof -
  have "routes rt k (s\<lparr>pf_engine := Some eng'\<rparr>)" if "routes rt k s" for k
    by (rule routes_frame [OF that]) (simp_all add: got_def)
  moreover have "relay_out_inv (s\<lparr>pf_engine := Some eng'\<rparr>)"
    using assms(1,2,5) by (auto simp: session_inv_def queues_inv_def relay_out_inv_def sends_le_def)
  ultimately show ?thesis
    using assms by (auto simp: session_defs sends_le_def)
qed

lemma routes_upd:
  assumes "routes rt k s"
  shows "routes rt k (s\<lparr>pf_queue := q\<rparr>)" "routes rt k (s\<lparr>pf_cmds := cs\<rparr>)" "routes rt k (s\<lparr>out_taken := n\<rparr>)"
    "routes rt k (s\<lparr>finished := b\<rparr>)" "routes rt k (s\<lparr>pf_outbound := b\<rparr>)" "routes rt k (s\<lparr>pf_engine := Some eng, pf_outbound := b\<rparr>)"
  by (rule routes_frame [OF assms]; simp add: got_def)+

lemma queue_pop: "session_inv sb rt s \<Longrightarrow> pf_queue s = p # q \<Longrightarrow> session_inv sb rt (s\<lparr>pf_queue := q\<rparr>)"
  by (auto simp: session_defs split: option.splits intro: routes_upd)

lemma cmds_change: "session_inv sb rt s \<Longrightarrow> length cs \<le> CMD_QUEUE_DEPTH \<Longrightarrow> session_inv sb rt (s\<lparr>pf_cmds := cs\<rparr>)"
  by (auto simp: session_defs split: option.splits intro: routes_upd)

lemma engine_advance_inv:
  assumes "session_inv sb rt s" and "pf_engine s = Some eng" and "engine_advance rt show_io e eng s = Some s'"
  shows "session_inv sb rt s'" and "pf_queue s' = pf_queue s" and "pf_cmds s' = pf_cmds s"
proof -
  let ?eng = "engine_step rt show_io True eng e"
  have "engine_inv True eng" using assms(1,2) by (simp add: session_defs)
  then have "engine_inv True ?eng" by (rule engine.inv_step)
  moreover have s': "s' = s\<lparr>pf_engine := Some ?eng\<rparr>" "engine_room (out_taken s) ?eng" "engine_alive eng"
    using assms(3) by (auto simp: engine_advance_def Let_def engine_alive_def split: if_splits)
  ultimately show "session_inv sb rt s'"
    using engine_change [OF assms(1,2) _ _ engine_step_sends] by simp
  show "pf_queue s' = pf_queue s" "pf_cmds s' = pf_cmds s" by (simp_all add: s')
qed

lemma engine_side_inv:
  assumes "session_inv sb rt s"
  shows "session_inv sb rt (engine_side rt show_io e s)"
proof (cases "pf_engine s")
  case None
  with assms show ?thesis by (simp add: engine_side_def)
next
  case (Some eng)
  note adv = engine_advance_inv [OF assms Some]
  have "session_inv sb rt (s'\<lparr>pf_queue := q\<rparr>)" if "pf_queue s = p # q" "engine_advance rt show_io e' eng s = Some s'" for p q e' s'
    using queue_pop [OF adv(1) [OF that(2)]] adv(2) [OF that(2)] that(1) by simp
  moreover have "session_inv sb rt (s'\<lparr>pf_cmds := q\<rparr>)" if "pf_cmds s = p # q" "engine_advance rt show_io e' eng s = Some s'" for p q e' s'
    using cmds_change [OF adv(1) [OF that(2)], of q] assms that(1) by (simp add: session_defs)
  ultimately show ?thesis
    using assms Some adv(1)
    by (auto simp: engine_side_def split: session_stimulus.split list.split engine_stimulus.split option.split)
qed

lemma start_port_forwarding_inv:
  assumes "session_inv sb rt s"
  shows "session_inv sb rt (snd (start_port_forwarding show_dur show_io net srcs outcome s))"
proof (cases "pf_engine s")
  case (Some eng)
  have "length (pf_cmds s @ [AddSources srcs]) \<le> CMD_QUEUE_DEPTH" if "\<not> CMD_QUEUE_DEPTH \<le> length (pf_cmds s)"
    using that by simp
  with assms Some cmds_change [OF assms, of "pf_cmds s @ [AddSources srcs]"] show ?thesis
    by (auto simp: start_port_forwarding_def EngineHandle_add_sources_def)
next
  case None
  obtain eng errs where eng: "engine_spawn show_io net srcs = (eng, errs)" by fastforce
  then have "outbound eng = []" "source_sockets eng = []" "destinations eng = []"
    by (auto simp: engine_spawn_def EngineState_new_def split: prod.splits)
  moreover from this have "relay_out_inv (s\<lparr>pf_engine := Some eng\<rparr>)"
    using assms None by (simp add: session_inv_def relay_out_inv_def)
  ultimately show ?thesis
    using assms None eng engine_spawn_inv [OF eng]
    by (auto simp: start_port_forwarding_def session_defs engine_room_alt queues_le_def intro: routes_upd)
qed

lemma session_shutdown_inv:
  assumes "session_inv sb rt s"
  shows "session_inv sb rt (session_shutdown sb rt ps s)"
proof (cases "pf_engine s")
  case None
  with client_call_inv(3) [OF assms] show ?thesis by (simp add: session_shutdown_def)
next
  case (Some eng)
  let ?eng = "eng\<lparr>shutdown_raised := True, picks := ps\<rparr>"
  have raise: "engine_environment (Raise_shutdown ps) eng = ?eng" by (simp add: engine_environment_def)
  have "engine_inv True ?eng" "engine_room (out_taken s) ?eng"
    using assms Some by (simp_all add: session_defs engine_inv_def keys_inv_def tracked_def engine_room_def)
  then have s1: "session_inv sb rt (s\<lparr>pf_engine := Some ?eng\<rparr>)"
    by (intro engine_change [OF assms Some]) (simp_all add: sends_leI engine_alive_def)
  from client_call_inv(3) [OF cmds_change [OF s1, of "pf_cmds s @ [Engine_Shutdown]"]] s1 client_call_inv(3) [OF assms] Some
  show ?thesis
    by (auto simp: session_shutdown_def raise Let_def)
qed

lemma session_call_inv: "session_inv sb rt s \<Longrightarrow> session_inv sb rt (session_call sb rt show_io e s)"
  by (auto simp: session_call_def send_input_def send_terminal_info_def send_packet_def client_call_inv start_port_forwarding_inv
      session_shutdown_inv split: session_stimulus.split)

text \<open>An event received is returned, or kept for the engine.\<close>

lemma got_next:
  assumes "base s \<le> received (client s)" and "received (client s) < length (client_events (client s))"
    and "client s' = (client s)\<lparr>received := Suc (received (client s))\<rparr>" and "base s' = base s"
  shows "got s' = got s @ [client_events (client s) ! received (client s)]"
  using assms by (simp add: got_def take_Suc_conv_app_nth)

lemma routes_show:
  assumes "routes rt k s" and "got s' = got s @ [ev]" and "surfaced s' = surfaced s @ [shown rt ev]"
    and "routed s' = routed s" and "pump s' = pump s" and "pf_engine s' = pf_engine s" and "for_engine ev \<longrightarrow> pf_engine s = None"
  shows "\<exists>k. routes rt k s'"
proof (cases "pf_engine s")
  case None
  with assms show ?thesis
    by (intro exI [of _ "Suc k"]) (simp add: routes_def in_hand_def)
next
  case (Some eng)
  with assms show ?thesis
    by (intro exI [of _ k]) (simp add: routes_def in_hand_def)
qed

lemma routes_keep:
  assumes "routes rt k s" and "got s' = got s @ [Event_Packet p]" and "surfaced s' = surfaced s"
    and "map fst (routed s') @ in_hand s' = map fst (routed s) @ in_hand s @ [p]" and "pf_engine s' = pf_engine s"
    and "is_port_forward_header (header p)" and "pf_engine s \<noteq> None"
  shows "routes rt k s'"
  using assms by (simp add: routes_def for_engine_def)

lemma pump_event_inv:
  assumes "session_inv sb rt s" and "pump s = In_select"
  shows "session_inv sb rt (pump_event rt s)"
proof (cases "received (client s) < length (client_events (client s))")
  case False
  have "session_inv sb rt (s\<lparr>finished := True\<rparr>)"
    using assms(1) by (auto simp: session_defs split: option.splits intro: routes_upd)
  with False assms(1) show ?thesis by (simp add: pump_event_def EtClient_next_event_def)
next
  case True
  let ?c = "(client s)\<lparr>received := Suc (received (client s))\<rparr>" and ?ev = "client_events (client s) ! received (client s)"
  have n: "EtClient_next_event (client s) = (Ready (Some ?ev), ?c)" using True by (simp add: EtClient_next_event_def)
  have i: "client_inv sb ?c"
    using client_calls_inv(4) [of sb "client s"] session_inv_client [OF assms(1)] n by simp
  obtain k where k: "routes rt k s" using assms(1) by (auto simp: session_inv_def)
  have g: "got s' = got s @ [?ev]" if "client s' = ?c" "base s' = base s" for s'
    using assms(1) True by (intro got_next [OF _ True that]) (simp add: session_defs)
  have e: "EtClient_session_ended ?c = EtClient_session_ended (client s)" by (simp add: EtClient_session_ended_def)
  have losses: "losses_inv s" and queues: "queues_inv s" and conn: "connection_inv sb s" and relay: "relay_out_inv s"
    using assms(1) by (simp_all add: session_inv_def)
  have inv: "session_inv sb rt s'"
    if "client s' = ?c" "base s' = base s" "pf_engine s' = pf_engine s" "pf_queue s' = pf_queue s" "pf_cmds s' = pf_cmds s"
      "pf_outbound s' = pf_outbound s" "out_taken s' = out_taken s" "cancelled s' = cancelled s"
      "pump s' = In_select \<or> pf_engine s \<noteq> None"
      "routed s' = routed s \<or> (\<exists>p. routed s' = routed s @ [(p, False)]) \<and> EtClient_session_ended ?c"
      "\<exists>k. routes rt k s'" "relayed s' = relayed s" for s'
  proof -
    have "losses_inv s'"
      using losses that(10) by (elim disjE exE conjE) (simp_all add: losses_inv_def engine_gone_def that(1,3,4,8) e)
    moreover have "queues_inv s'"
      using queues that(9) by (auto simp: queues_inv_def that(3-7) split: option.splits)
    moreover have "connection_inv sb s'"
      using conn i True by (simp add: connection_inv_def that(1,2))
    moreover have "relay_out_inv s'"
      using relay by (rule relay_out_frame [where out = "[]"]) (simp_all add: that(1,3,7,12))
    ultimately show ?thesis
      using that(11) by (simp add: session_inv_def)
  qed
  show ?thesis
  proof (cases ?ev)
    case (Event_Dead r)
    let ?show = "s\<lparr>client := ?c, surfaced := surfaced s @ [SE_Dead r]\<rparr>"
    have "\<exists>k. routes rt k ?show"
      by (rule routes_show [OF k, where ev = ?ev]) (use g [of ?show] Event_Dead in \<open>simp_all add: shown_def for_engine_def\<close>)
    then have "session_inv sb rt ?show" by (intro inv) (simp_all add: assms(2))
    with Event_Dead show ?thesis by (simp add: pump_event_def n)
  next
    case (Event_Packet p)
    show ?thesis
    proof (cases "is_port_forward_header (header p) \<and> pf_engine s \<noteq> None")
      case True
      let ?drop = "s\<lparr>client := ?c, routed := routed s @ [(p, False)]\<rparr>" and ?keep = "s\<lparr>client := ?c, pump := In_deliver p\<rparr>"
      have r: "routes rt k ?drop" "routes rt k ?keep"
        by (rule routes_keep [OF k, where p = p];
          use g [of ?drop] g [of ?keep] assms(2) True Event_Packet in \<open>simp add: in_hand_def\<close>)+
      show ?thesis
      proof (cases "EtClient_session_ended ?c")
        case ended: True
        then have "session_inv sb rt ?drop" by (intro inv exI [of _ k]) (simp_all add: assms(2) r(1))
        with ended Event_Packet True show ?thesis by (simp add: pump_event_def n Let_def)
      next
        case False
        have "session_inv sb rt ?keep" using True by (intro inv exI [of _ k]) (simp_all add: r(2))
        with False Event_Packet True show ?thesis by (simp add: pump_event_def n Let_def)
      qed
    next
      case False
      let ?show = "s\<lparr>client := ?c, surfaced := surfaced s @ [from_packet rt p]\<rparr>"
      have "\<exists>k. routes rt k ?show"
        by (rule routes_show [OF k, where ev = ?ev]) (use g [of ?show] Event_Packet False in \<open>simp_all add: shown_def for_engine_def\<close>)
      then have "session_inv sb rt ?show" by (intro inv) (simp_all add: assms(2))
      with False Event_Packet show ?thesis by (auto simp: pump_event_def n Let_def)
    qed
  qed
qed

lemma deliver_return_inv:
  assumes "session_inv sb rt s" and "pump s = In_deliver p"
  shows "EtClient_session_ended (client s) \<or> engine_gone s \<Longrightarrow> session_inv sb rt (deliver_return p False s)"
    and "session_inv sb rt ((deliver_return p False s)\<lparr>cancelled := True\<rparr>)"
    and "length (pf_queue s) < INBOUND_QUEUE_DEPTH \<Longrightarrow> session_inv sb rt (deliver_return p True (s\<lparr>pf_queue := pf_queue s @ [p]\<rparr>))"
proof -
  obtain k where k: "routes rt k s" using assms(1) by (auto simp: session_inv_def)
  have keep: "session_inv sb rt s'"
    if "pump s' = In_select" "routed s' = routed s @ [(p, b)]" "client s' = client s" "base s' = base s"
      "surfaced s' = surfaced s" "pf_engine s' = pf_engine s" "pf_cmds s' = pf_cmds s" "pf_outbound s' = pf_outbound s"
      "out_taken s' = out_taken s" "length (pf_queue s') \<le> INBOUND_QUEUE_DEPTH" "losses_inv s'" "relayed s' = relayed s" for b s'
  proof -
    have "relay_out_inv s" using assms(1) by (simp add: session_inv_def)
    then have "relay_out_inv s'" by (rule relay_out_frame [where out = "[]"]) (simp_all add: that)
    moreover have "routes rt k s'" using k that assms(2) by (simp add: routes_def got_def in_hand_def)
    moreover have "queues_inv s'" using assms(1) that by (simp add: session_inv_def queues_inv_def split: option.splits)
    ultimately show ?thesis using assms(1) that by (auto simp: session_inv_def connection_inv_def)
  qed
  have q: "length (pf_queue s) \<le> INBOUND_QUEUE_DEPTH" and l: "losses_inv s"
    using assms(1) by (simp_all add: session_inv_def queues_inv_def)
  show "session_inv sb rt (deliver_return p False s)" if "EtClient_session_ended (client s) \<or> engine_gone s"
    by (rule keep [where b = False]) (use q l that in \<open>auto simp: deliver_return_def losses_inv_def engine_gone_def\<close>)
  show "session_inv sb rt ((deliver_return p False s)\<lparr>cancelled := True\<rparr>)"
    by (rule keep [where b = False]) (use q l in \<open>simp_all add: deliver_return_def losses_inv_def\<close>)
  show "session_inv sb rt (deliver_return p True (s\<lparr>pf_queue := pf_queue s @ [p]\<rparr>))" if "length (pf_queue s) < INBOUND_QUEUE_DEPTH"
    by (rule keep [where b = True]) (use l that in \<open>auto simp: deliver_return_def losses_inv_def engine_gone_def\<close>)
qed

lemma pump_outbound_inv:
  assumes "session_inv sb rt s"
  shows "session_inv sb rt (pump_outbound sb rt s)"
proof (cases "pf_engine s")
  case None
  with assms show ?thesis by (simp add: pump_outbound_def)
next
  case (Some eng)
  let ?p = "outbound eng ! out_taken s"
  let ?w = "session_write sb rt (header ?p) (payload ?p) s"
  let ?s2 = "(snd ?w)\<lparr>out_taken := Suc (out_taken s), relayed := relayed s @ [(?p, fst ?w = Ok ())]\<rparr>"
  obtain c where c: "snd ?w = s\<lparr>client := c\<rparr>" "c = snd (EtClient_write sb rt (header ?p) (payload ?p) (client s))"
    "fst ?w = fst (EtClient_write sb rt (header ?p) (payload ?p) (client s))"
    by (simp add: session_write_def case_prod_unfold)
  have w: "session_inv sb rt ?s2" if lt: "out_taken s < length (outbound eng)"
  proof -
    have s1: "session_inv sb rt (snd ?w)" by (rule client_call_inv(1) [OF assms])
    have sub: "subseq (map (frame_of \<circ> fst) (filter snd (relayed s))) (written (backed (client s)))"
      "map fst (relayed s) = take (out_taken s) (outbound eng)"
      using assms Some by (simp_all add: session_inv_def relay_out_inv_def)
    have "subseq (map (frame_of \<circ> fst) (filter snd (relayed s @ [(?p, fst ?w = Ok ())]))) (written (backed c))"
    proof (cases "fst ?w = Ok ()")
      case True
      then have "written (backed c) = written (backed (client s)) @ [frame_of ?p]"
        using EtClient_write_Ok [of sb rt "header ?p" "payload ?p" "client s"] c(2,3) by (simp add: frame_of_def)
      with True sub(1) show ?thesis by simp
    next
      case False
      obtain ws where "written (backed c) = written (backed (client s)) @ ws"
        using client_calls_written(1) [of sb rt "header ?p" "payload ?p" "client s"] c(2) by auto
      with False sub(1) show ?thesis by (simp add: list_emb_prefix)
    qed
    then have "relay_out_inv ?s2"
      using sub(2) lt Some by (simp add: relay_out_inv_def c(1) take_Suc_conv_app_nth)
    moreover have "routes rt k ?s2" if "routes rt k (snd ?w)" for k
      by (rule routes_frame [OF that]) (simp_all add: got_def)
    moreover have "queues_inv ?s2"
      using s1 Some lt by (auto simp: c(1) session_inv_def queues_inv_def engine_room_def)
    ultimately show ?thesis
      using s1 by (auto simp: c(1) session_inv_def connection_inv_def losses_inv_def engine_gone_def)
  qed
  have "session_inv sb rt (s\<lparr>pf_outbound := False\<rparr>)" if "\<not> engine_alive eng"
    using assms Some that by (auto simp: session_defs intro: routes_upd)
  with assms Some w show ?thesis
    by (simp add: pump_outbound_def Let_def case_prod_unfold)
qed

lemma pump_side_inv:
  assumes "session_inv sb rt s"
  shows "session_inv sb rt (pump_side sb rt e s)"
proof (cases "pump s")
  case In_select
  with assms pump_event_inv pump_outbound_inv show ?thesis
    by (auto simp: pump_side_def split: session_stimulus.split)
next
  case (In_deliver p)
  note d = deliver_return_inv [OF assms In_deliver]
  have "session_inv sb rt (pump_permit p s)"
    using assms In_deliver d(1,3) by (auto simp: pump_permit_cases engine_gone_def session_inv_def queues_inv_def split: option.splits)
  moreover have "session_inv sb rt (pump_tick p s)"
    using assms d(1) by (simp add: pump_tick_def)
  ultimately show ?thesis
    using assms In_deliver d(2) pump_outbound_inv [OF assms] by (auto simp: pump_side_def split: session_stimulus.split)
qed

lemma session_step_inv: "session_inv sb rt s \<Longrightarrow> session_inv sb rt (session_step sb rt show_io s e)"
  by (auto simp: session_step_def pump_side_inv engine_side_inv client_side_inv session_call_inv
      split: session_stimulus.split pump_pc.split)

interpretation session: invariant_machine "session_step sb rt show_io" "session_inv sb rt" for sb rt show_io
  by unfold_locales (rule session_step_inv)

lemma session_run_inv: "session_inv sb rt s \<Longrightarrow> session_inv sb rt (session_run sb rt show_io s es)"
  unfolding session_run_def by (rule session.inv_run)

lemma session_new_inv:
  assumes "client_inv sb c" and "\<not> owner_gone c" and "received c \<le> length (client_events c)"
  shows "session_inv sb rt (session_new tunnels c)"
proof -
  have "routes rt 0 (session_new tunnels c)"
    by (simp add: routes_def got_def in_hand_def session_new_def)
  moreover have "engine_inv True (EngineState_new [])" "engine_room 0 (EngineState_new [])"
    by (simp_all add: EngineState_new_def engine_inv_def keys_inv_def tracked_def engine_room_def)
  ultimately show ?thesis
    using assms by (auto simp: session_defs session_new_def EngineState_new_def relay_out_inv_def)
qed

end
