(* ===== verification/Session_Life.thy ===== *)
theory Session_Life
  imports Session_Inv
begin

text \<open>
  A session over time: what a start leads to and how long it tries, how a frame of the server
  travels to the user, and how the pump comes to an end.
\<close>

section \<open>Starting\<close>

lemma start_connect_Ok:
  "start_connect rt nets ep i passkey ka deadline now = Some (Ok c, t) \<Longrightarrow>
    \<exists>net now. connect rt net ep i passkey ka now = (Ok c, t)"
proof (induction nets arbitrary: now)
  case (Cons net nets)
  obtain r t' where r: "connect rt net ep i passkey ka now = (r, t')" by fastforce
  with Cons show ?case
    by (cases r) (force split: ConnectFailure.splits ConnectStatus.splits if_splits)+
qed simp

text \<open>The event that answers the start: an \<^verbatim>\<open>INITIAL_RESPONSE\<close> that decodes and carries no error.\<close>

definition session_granted :: "buffa \<Rightarrow> Event \<Rightarrow> bool" where
  "session_granted rt ev \<longleftrightarrow> initial_answer rt ev = Some (Ok ())"

lemma session_granted_iff:
  "session_granted rt ev \<longleftrightarrow>
    (\<exists>p response. ev = Event_Packet p \<and> header p = INITIAL_RESPONSE \<and>
      decode_InitialResponse rt (payload p) = Ok response \<and> InitialResponse_error response = None)"
  by (auto simp: session_granted_def initial_answer_def split: Event.splits sum.splits option.splits)

lemma start_wait_run:
  assumes "start_wait sb rt c es = (r, c')" and "\<not> owner_gone c" and "received c \<le> length (client_events c)"
  shows "\<exists>es'. c' = client_run sb rt c es'" "\<not> owner_gone c'" "received c' \<le> length (client_events c')"
    "r = Ok () \<Longrightarrow> 0 < received c' \<and> session_granted rt (client_events c' ! (received c' - 1))"
proof -
  have "(\<exists>es'. c' = client_run sb rt c es') \<and> \<not> owner_gone c' \<and> received c' \<le> length (client_events c') \<and>
      (r = Ok () \<longrightarrow> 0 < received c' \<and> session_granted rt (client_events c' ! (received c' - 1)))"
    using assms
  proof (induction es arbitrary: c)
    case Nil
    then show ?case by (auto intro: exI [of _ "[]"])
  next
    case (Cons e es)
    have again: ?case if "c1 = client_run sb rt c es1" "start_wait sb rt c1 es = (r, c')" "\<not> owner_gone c1"
        "received c1 \<le> length (client_events c1)" for c1 es1
      using Cons.IH [OF that(2-4)] by (auto simp: that(1) client_run_def simp flip: foldl_append)
    have task: ?case if "(\<exists>a. e = Actor a) \<or> (\<exists>net. e = Sup_poll net)" "start_wait sb rt (client_step sb rt c e) es = (r, c')"
    proof -
      obtain out where "client_events (client_step sb rt c e) = client_events c @ out"
        using client_events_grow by blast
      with that Cons.prems client_task_keeps(1,2) [OF that(1), of sb rt c] show ?thesis
        by (intro again [of "client_step sb rt c e" "[e]"]) simp_all
    qed
    have n: "snd (EtClient_next_event c) = client_run sb rt c [Owner_next_event]"
      using Cons.prems by (simp add: client_step_def)
    have o: "\<not> owner_gone (snd (EtClient_next_event c))"
      "received (snd (EtClient_next_event c)) \<le> length (client_events (snd (EtClient_next_event c)))"
      using Cons.prems by (simp_all add: EtClient_next_event_def)
    show ?case
    proof (cases e)
      case Owner_next_event
      note again = again [OF n _ o]
      show ?thesis
      proof (cases "received c < length (client_events c)")
        case True
        let ?ev = "client_events c ! received c" and ?c = "c\<lparr>received := Suc (received c)\<rparr>"
        have ev: "EtClient_next_event c = (Ready (Some ?ev), ?c)" using True by (simp add: EtClient_next_event_def)
        show ?thesis
        proof (cases "initial_answer rt ?ev")
          case None
          with Cons.prems(1) ev Owner_next_event show ?thesis by (intro again) simp
        next
          case (Some a)
          with Cons.prems(1) ev Owner_next_event have r: "r = a" "c' = ?c" by simp_all
          have "\<exists>es'. c' = client_run sb rt c es'" using n ev r(2) by (metis snd_conv)
          moreover have "r = Ok () \<longrightarrow> session_granted rt ?ev" using Some r by (simp add: session_granted_def)
          ultimately show ?thesis using Cons.prems(2) True by (simp add: r(2))
        qed
      next
        case False
        then have ev: "EtClient_next_event c = (if sup c = Sup_done then Ready None else Pending, c)"
          by (simp add: EtClient_next_event_def)
        have c: "c = client_run sb rt c []" by simp
        show ?thesis
        proof (cases "sup c = Sup_done")
          case True
          with Cons.prems ev Owner_next_event have "r = Err StartUnexpectedPacket \<and> c' = c" by simp
          with Cons.prems(2,3) c show ?thesis by (metis Inl_Inr_False)
        next
          case False
          with Cons.prems(1) ev Owner_next_event show ?thesis by (intro again) simp
        qed
      qed
    qed (use Cons.prems task again [of c "[]"] in auto)
  qed
  then show "\<exists>es'. c' = client_run sb rt c es'" "\<not> owner_gone c'" "received c' \<le> length (client_events c')"
    "r = Ok () \<Longrightarrow> 0 < received c' \<and> session_granted rt (client_events c' ! (received c' - 1))"
    by blast+
qed

lemma start_session_Ok:
  assumes "start_session sb rt nets ep i passkey ip ka es now = Some (Ok s)"
  obtains net t0 t c c1 es' where "connect rt net ep i passkey ka t0 = (Ok c, t)"
    "EtClient_write sb rt INITIAL_PAYLOAD (write_to_InitialPayload rt ip) c = (Ok (), c1)"
    "client s = client_run sb rt c1 es'" "\<not> owner_gone (client s)" "received (client s) \<le> length (client_events (client s))"
    "0 < received (client s)" "session_granted rt (client_events (client s) ! (received (client s) - 1))"
    "s = session_new (InitialPayload_reversetunnels ip \<noteq> []) (client s)"
proof -
  from assms obtain c t c1 c2 where c: "start_connect rt nets ep i passkey ka (now + INITIAL_INVALID_KEY_RETRY) now = Some (Ok c, t)"
    and w: "EtClient_write sb rt INITIAL_PAYLOAD (write_to_InitialPayload rt ip) c = (Ok (), c1)"
    and wait: "start_wait sb rt c1 es = (Ok (), c2)" and s: "s = session_new (InitialPayload_reversetunnels ip \<noteq> []) c2"
    by (auto simp: start_session_def split: option.splits prod.splits sum.splits)
  obtain net t0 where con: "connect rt net ep i passkey ka t0 = (Ok c, t)"
    using start_connect_Ok [OF c] by blast
  obtain st where "c = \<lparr>backed = backed_spawn
      \<lparr>key = str_bytes passkey, reader_msb = SERVER_CLIENT_NONCE_MSB, writer_msb = CLIENT_SERVER_NONCE_MSB, keepalive = Some ka\<rparr> t st,
      sup_endpoint = ep, sup_id = i, taken = 0, sup = Sup_select, client_events = [], received = 0, owner_gone = False\<rparr>"
    using con [unfolded connect_def] by (rule connect_with_Ok)
  moreover have "c1 = snd (EtClient_write sb rt INITIAL_PAYLOAD (write_to_InitialPayload rt ip) c)" by (simp add: w)
  ultimately have "\<not> owner_gone c1" "received c1 \<le> length (client_events c1)" by simp_all
  note wait = start_wait_run [OF wait this]
  from wait(1) obtain es' where "c2 = client_run sb rt c1 es'" by blast
  moreover have "client s = c2" by (simp add: s session_new_def)
  ultimately show thesis using that [OF con w] wait(2-4) s by simp
qed

lemma start_session_inv:
  assumes "start_session sb rt nets ep i passkey ip ka es now = Some (Ok s)"
  shows "session_inv sb rt s"
proof (rule start_session_Ok [OF assms])
  fix net t0 t c c1 es'
  assume "connect rt net ep i passkey ka t0 = (Ok c, t)"
    and w: "EtClient_write sb rt INITIAL_PAYLOAD (write_to_InitialPayload rt ip) c = (Ok (), c1)"
    and c: "client s = client_run sb rt c1 es'" "\<not> owner_gone (client s)" "received (client s) \<le> length (client_events (client s))"
      "s = session_new (InitialPayload_reversetunnels ip \<noteq> []) (client s)"
  then have "client_inv sb c" by (simp add: connect_def connect_with_inv)
  moreover have "\<not> owner_gone c" using \<open>connect rt net ep i passkey ka t0 = (Ok c, t)\<close> [unfolded connect_def] by (rule connect_with_Ok) simp
  ultimately have "client_inv sb c1" using client_calls_inv(1) [of sb c] w by (metis snd_conv)
  then have "client_inv sb (client s)" unfolding c(1) by (rule client_run_inv)
  then have "session_inv sb rt (session_new (InitialPayload_reversetunnels ip \<noteq> []) (client s))"
    by (rule session_new_inv) (fact c(2,3))+
  then show "session_inv sb rt s" unfolding c(4) [symmetric] .
qed

section \<open>A packet of the server reaches the session\<close>

text \<open>A client that has just connected, and its first write.\<close>

lemmas connected_at_rest = connected_with_at_rest [OF trans [OF connect_def [symmetric]]]

lemma first_write:
  assumes "connect rt net ep i passkey ka now = (Ok c, t)"
  obtains c1 where "EtClient_write sb rt h p c = (Ok (), c1)" "at_rest sb c1" "client_events c1 = []" "received c1 = 0"
    "accepted (backed c1) = []" "written (backed c1) = [(h, p)]" "opened (backed c1) = []" "cfg (backed c1) = cfg (backed c)"
proof -
  note rest = connected_at_rest(1) [OF assms, of sb] connected_at_rest(2-7) [OF assms]
  let ?s = "backed c"
  obtain st where s: "?s = backed_spawn
      \<lparr>key = str_bytes passkey, reader_msb = SERVER_CLIENT_NONCE_MSB, writer_msb = CLIENT_SERVER_NONCE_MSB, keepalive = Some ka\<rparr> t st"
    using assms [unfolded connect_def] by (elim connect_with_Ok) simp
  have inv: "client_inv sb c" and g: "\<not> owner_gone c" "sup c = Sup_select" "taken c = length (events ?s)"
    using rest(1) by (simp_all add: at_rest_def)
  then have w: "writer_inv sb ?s" by (simp add: client_inv_def backed_inv_def)
  have f: "live ?s = Some \<lparr>write_q = [], write_closed = False, read_half = t_in st\<rparr>" "\<not> shutting_down ?s" "disconnected_bytes ?s = None"
    "pc ?s = AtSelect" "inbox ?s = []" "\<not> socket_down_pending ?s" "replies ?s = []"
    by (simp_all add: s backed_spawn_def BackedActor_new_def spawn_socket_tasks_def)
  obtain l where "backed_write sb h p ?s = (Ok (), (trimmed (pushed sb h p ?s))\<lparr>live := Some l, last_activity := clock ?s\<rparr>)"
    using f by (auto simp: backed_write_eq [OF w] over_budget_def try_send_def WRITE_QUEUE_DEPTH_def Let_def)
  then have step: "backed_step sb rt ?s (Cmd_recv (Some (Cmd_Write h p))) =
      (trimmed (pushed sb h p ?s))\<lparr>live := Some l, last_activity := clock ?s, replies := [Write_reply (Ok ())], pc := AtSelect\<rparr>"
    using f by (simp add: backed_step_def select_step_def handle_cmd_def environment_step_def after_select_def deliver_inbox_def
        run_loop_def trimmed_def pushed_def Let_def case_prod_unfold)
  let ?c1 = "c\<lparr>backed := (trimmed (pushed sb h p ?s))\<lparr>live := Some l, last_activity := clock ?s, replies := [Write_reply (Ok ())], pc := AtSelect\<rparr>\<rparr>"
  have wrote: "EtClient_write sb rt h p c = (Ok (), ?c1)"
    using step f(7) by (simp add: EtClient_write_def BackedHandle_write_def Let_def)
  moreover have "client_inv sb ?c1"
    using client_calls_inv(1) [OF inv g(1), of rt h p] wrote by simp
  then have "at_rest sb ?c1"
    using rest(1) by (simp add: at_rest_def trimmed_def pushed_def Let_def case_prod_unfold)
  ultimately show thesis
    using that rest by (simp add: trimmed_def pushed_def Let_def case_prod_unfold)
qed

section \<open>Runs of a session\<close>

lemma session_run_simps [simp]:
  "session_run sb rt show_io s [] = s"
  "session_run sb rt show_io s (e # es) = session_run sb rt show_io (session_step sb rt show_io s e) es"
  "session_run sb rt show_io s (es @ es') = session_run sb rt show_io (session_run sb rt show_io s es) es'"
  by (simp_all add: session_run_def)

definition is_task :: "client_stimulus \<Rightarrow> bool" where
  "is_task e \<longleftrightarrow> (\<exists>a. e = Actor a) \<or> (\<exists>net. e = Sup_poll net)"

lemma session_run_tasks:
  "list_all is_task es \<Longrightarrow> session_run sb rt show_io s (map Client_task es) = s\<lparr>client := client_run sb rt (client s) es\<rparr>"
  by (induction es arbitrary: s) (auto simp: is_task_def session_step_def client_side_def)

lemma start_wait_tasks:
  "list_all is_task es \<Longrightarrow> start_wait sb rt c (es @ es') = start_wait sb rt (client_run sb rt c es) es'"
  by (induction es arbitrary: c) (auto simp: is_task_def)

lemma arrival_tasks [simp]: "list_all is_task (arrival sb h n x)"
  by (simp add: arrival_def is_task_def)

lemma client_cfg [simp]:
  "cfg (backed (client_step sb rt c e)) = cfg (backed c)"
  "cfg (backed (snd (EtClient_write sb rt h p c))) = cfg (backed c)"
  "cfg (backed (EtClient_kill_socket sb rt c)) = cfg (backed c)"
  "cfg (backed (EtClient_shutdown sb rt c)) = cfg (backed c)"
  "cfg (backed (snd (EtClient_next_event c))) = cfg (backed c)"
  using client_run_cfg [of sb rt c "[e]"]
  by (simp_all add: EtClient_write_def EtClient_kill_socket_def EtClient_shutdown_def EtClient_next_event_def
      BackedHandle_kill_socket_def BackedHandle_shutdown_def case_prod_unfold client_frame cfg_step)

lemma session_step_cfg: "cfg (backed (client (session_step sb rt show_io s e))) = cfg (backed (client s))"
proof -
  have w: "cfg (backed (client (snd (session_write sb rt h p s)))) = cfg (backed (client s))" for h p
    by (simp add: session_write_def case_prod_unfold)
  then have w': "session_write sb rt h p s = (r, s1) \<Longrightarrow> cfg (backed (client s1)) = cfg (backed (client s))" for h p r s1
    by (metis snd_conv)
  have n: "EtClient_next_event (client s) = (r, c) \<Longrightarrow> cfg (backed c) = cfg (backed (client s))" for r c
    using client_cfg(5) [of "client s"] by simp
  have a: "engine_advance rt show_io e' eng s = Some s' \<Longrightarrow> client s' = client s" for e' eng s'
    by (auto simp: engine_advance_def Let_def split: if_splits)
  have "cfg (backed (client (pump_side sb rt e s))) = cfg (backed (client s))"
    by (auto simp: pump_side_def pump_outbound_def pump_event_def pump_permit_cases pump_tick_def deliver_return_def Let_def w
        split: session_stimulus.split pump_pc.split option.split prod.split poll.split Event.split dest: n w')
  moreover have "client (engine_side rt show_io e s) = client s"
    by (auto simp: engine_side_def split: session_stimulus.split option.split list.split engine_stimulus.split dest: a)
  moreover have "cfg (backed (client (client_side sb rt e s))) = cfg (backed (client s))"
    by (simp add: client_side_def split: session_stimulus.split client_stimulus.split)
  moreover have "cfg (backed (client (session_call sb rt show_io e s))) = cfg (backed (client s))"
    by (simp add: session_call_def send_input_def send_terminal_info_def send_packet_def session_kill_socket_def session_shutdown_def
        start_port_forwarding_def EngineHandle_add_sources_def Let_def w split: session_stimulus.split option.split prod.split)
  ultimately show ?thesis
    by (cases e; cases "pump s") (simp_all add: session_step_def)
qed

lemma session_run_cfg: "cfg (backed (client (session_run sb rt show_io s es))) = cfg (backed (client s))"
  by (induction es arbitrary: s) (simp_all add: session_step_cfg)

section \<open>The retries of a start\<close>

lemma connect_time:
  "now \<le> snd (connect rt net ep i passkey ka now) \<and> snd (connect rt net ep i passkey ka now) \<le> now + HANDSHAKE_TIMEOUT"
  using handshake_within_timeout [of now rt net ep i]
  by (auto simp: connect_def connect_with_def split: option.split prod.split sum.split Handshake.split)

lemma start_connect_bounded:
  assumes "deadline \<le> now + n * invalid_key_pause" and "n < length nets" and "now \<le> deadline + invalid_key_pause"
  shows "\<exists>r t. start_connect rt nets ep i passkey ka deadline now = Some (r, t) \<and>
    t \<le> deadline + invalid_key_pause + HANDSHAKE_TIMEOUT \<and> (\<forall>e. r = Err (CF_Rejected INVALID_KEY e) \<longrightarrow> deadline \<le> t)"
  using assms
proof (induction n arbitrary: nets now)
  case (0 nets)
  then obtain net nets' where nets: "nets = net # nets'" by (cases nets) auto
  obtain r t where r: "connect rt net ep i passkey ka now = (r, t)" by fastforce
  then have "now \<le> t" "t \<le> now + HANDSHAKE_TIMEOUT" using connect_time [of now rt net ep i passkey ka] by simp_all
  with 0 show ?case
    by (cases r) (auto simp: nets r split: ConnectFailure.split ConnectStatus.split)
next
  case (Suc n nets)
  then obtain net nets' where nets: "nets = net # nets'" "n < length nets'" by (cases nets) auto
  obtain r t where r: "connect rt net ep i passkey ka now = (r, t)" by fastforce
  then have t: "now \<le> t" "t \<le> now + HANDSHAKE_TIMEOUT" using connect_time [of now rt net ep i passkey ka] by simp_all
  have "\<exists>r t'. start_connect rt nets' ep i passkey ka deadline (t + invalid_key_pause) = Some (r, t') \<and>
      t' \<le> deadline + invalid_key_pause + HANDSHAKE_TIMEOUT \<and> (\<forall>e. r = Err (CF_Rejected INVALID_KEY e) \<longrightarrow> deadline \<le> t')"
    if "t < deadline"
    using Suc.prems t that nets(2) by (intro Suc.IH) simp_all
  with t Suc.prems show ?case
    by (cases r) (auto simp: nets r split: ConnectFailure.split ConnectStatus.split)
qed

section \<open>The pump comes to an end\<close>

text \<open>What \<^verbatim>\<open>next_event\<close> returns of an event, given whether there is an engine.\<close>

definition surfaces :: "TerminalSession \<Rightarrow> Event \<Rightarrow> bool" where
  "surfaces s ev \<longleftrightarrow> \<not> (for_engine ev \<and> pf_engine s \<noteq> None)"

lemma pump_event_next:
  assumes "received (client s) < length (client_events (client s))" and "EtClient_session_ended (client s) \<or> surfaces s ev"
    and "ev = client_events (client s) ! received (client s)"
    and "s' = pump_event rt s"
  shows "client s' = (client s)\<lparr>received := Suc (received (client s))\<rparr>" "pump s' = pump s" "pf_engine s' = pf_engine s"
    "surfaced s' = surfaced s @ (if surfaces s ev then [shown rt ev] else [])"
proof -
  have "EtClient_next_event (client s) = (Ready (Some ev), (client s)\<lparr>received := Suc (received (client s))\<rparr>)"
    using assms(1,3) by (simp add: EtClient_next_event_def)
  with assms(2) show "client s' = (client s)\<lparr>received := Suc (received (client s))\<rparr>" "pump s' = pump s" "pf_engine s' = pf_engine s"
    "surfaced s' = surfaced s @ (if surfaces s ev then [shown rt ev] else [])"
    by (cases ev; auto simp: assms(4) pump_event_def Let_def surfaces_def for_engine_def shown_def EtClient_session_ended_def)+
qed

text \<open>Polls of \<^verbatim>\<open>next_event\<close> after the session has ended.\<close>

definition polls :: "nat \<Rightarrow> session_stimulus list" where
  "polls n = concat (replicate n [Pump_tick, Pump_event])"

lemma polls_simps [simp]: "polls 0 = []" "polls (Suc n) = Pump_tick # Pump_event # polls n"
  by (simp_all add: polls_def)

lemma polls_drain:
  assumes "EtClient_session_ended (client s)" and "pump s = In_select" and "received (client s) \<le> length (client_events (client s))"
    and "n = length (client_events (client s)) - received (client s)" and "s' = session_run sb rt show_io s (polls (Suc n))"
  shows "finished s' \<and> pump s' = In_select \<and> received (client s') = length (client_events (client s')) \<and>
    surfaced s' = surfaced s @ map (shown rt) (filter (surfaces s) (drop (received (client s)) (client_events (client s))))"
  using assms
proof (induction n arbitrary: s)
  case 0
  then have "EtClient_next_event (client s) = (Ready None, client s)"
    by (simp add: EtClient_next_event_def EtClient_session_ended_def)
  with 0 show ?case by (simp add: session_step_def pump_side_def pump_event_def)
next
  case (Suc n)
  let ?ev = "client_events (client s) ! received (client s)" and ?s1 = "pump_event rt s"
  have lt: "received (client s) < length (client_events (client s))" using Suc.prems(4) by linarith
  note ev = pump_event_next [OF lt disjI1 [OF Suc.prems(1)] refl refl, of rt]
  have run: "s' = session_run sb rt show_io ?s1 (polls (Suc n))"
    using Suc.prems(2,5) by (simp add: session_step_def pump_side_def)
  have "surfaces ?s1 = surfaces s" by (rule ext) (simp add: surfaces_def ev(3))
  moreover have "EtClient_session_ended (client ?s1)" "received (client ?s1) \<le> length (client_events (client ?s1))"
    "n = length (client_events (client ?s1)) - received (client ?s1)" "pump ?s1 = In_select"
    using Suc.prems ev lt by (simp_all add: EtClient_session_ended_def)
  note this = Suc.IH [OF this(1,4,2,3) run]
  moreover have "drop (received (client s)) (client_events (client s)) = ?ev # drop (Suc (received (client s))) (client_events (client s))"
    using lt by (simp add: Cons_nth_drop_Suc)
  ultimately show ?case using ev by simp
qed

lemma outbound_keeps:
  "s' = session_run sb rt show_io s (replicate n Pump_outbound) \<Longrightarrow>
    pf_engine s' = pf_engine s \<and> pf_queue s' = pf_queue s \<and> pump s' = pump s \<and> routed s' = routed s"
proof (induction n arbitrary: s)
  case (Suc n)
  have "pf_engine (pump_outbound sb rt s) = pf_engine s \<and> pf_queue (pump_outbound sb rt s) = pf_queue s \<and>
      pump (pump_outbound sb rt s) = pump s \<and> routed (pump_outbound sb rt s) = routed s"
    by (simp add: pump_outbound_def session_write_def Let_def case_prod_unfold split: option.split)
  with Suc show ?case by (simp add: session_step_def pump_side_def)
qed simp

lemma outbound_drained:
  assumes "pf_engine s = Some eng" and "pf_outbound s" and "out_taken s \<le> length (outbound eng)"
    and "length (outbound eng) \<le> out_taken s + n" and "engine_alive eng"
  shows "out_taken (session_run sb rt show_io s (replicate n Pump_outbound)) = length (outbound eng)"
  using assms
proof (induction n arbitrary: s)
  case (Suc n)
  let ?s1 = "pump_outbound sb rt s"
  have "pf_engine ?s1 = Some eng" "pf_outbound ?s1"
    "out_taken ?s1 = (if out_taken s < length (outbound eng) then Suc (out_taken s) else out_taken s)"
    using Suc.prems(1,2,5) by (simp_all add: pump_outbound_def session_write_def Let_def case_prod_unfold)
  with Suc.prems Suc.IH [of ?s1] show ?case by (simp add: session_step_def pump_side_def)
qed simp

text \<open>With the engine's packets written out, it can take the next packet of its queue.\<close>

lemma engine_recv_room:
  assumes "pf_engine s = Some eng" and "status eng \<noteq> Engine_waiting" and "engine_alive eng \<Longrightarrow> out_taken s = length (outbound eng)"
    and "queues_le (CONN_WRITE_QUEUE_DEPTH - 1) eng" and "length (pf_queue s) \<le> INBOUND_QUEUE_DEPTH"
  obtains eng' where "pump (engine_side rt show_io (Engine_recv net) s) = pump s"
    "routed (engine_side rt show_io (Engine_recv net) s) = routed s" "pf_engine (engine_side rt show_io (Engine_recv net) s) = Some eng'"
    "engine_alive eng' \<Longrightarrow> length (pf_queue (engine_side rt show_io (Engine_recv net) s)) < INBOUND_QUEUE_DEPTH"
proof (cases "engine_alive eng \<and> pf_queue s \<noteq> []")
  case True
  then obtain q qs where q: "pf_queue s = q # qs" by (cases "pf_queue s") auto
  have run: "status eng = Engine_running" using True assms(2) by (simp add: engine_alive_def)
  let ?eng = "handle_peer_packet rt True net q eng"
  have e: "engine_step rt show_io True eng (Peer (Some q) net) = ?eng" using run by (simp add: engine_step_def)
  have "length (outbound ?eng) \<le> length (outbound eng) + OUTBOUND_QUEUE_DEPTH"
    using handle_peer_packet_sends [of eng rt True net q] by (auto simp: sends_le_def OUTBOUND_QUEUE_DEPTH_def)
  moreover have "queues_le CONN_WRITE_QUEUE_DEPTH ?eng"
    using handle_peer_packet_queues [OF assms(4), of rt True net q] by (simp add: CONN_WRITE_QUEUE_DEPTH_def)
  ultimately have "engine_side rt show_io (Engine_recv net) s = s\<lparr>pf_engine := Some ?eng, pf_queue := qs\<rparr>"
    using assms(1,3) True q run by (simp add: engine_side_def engine_advance_def e engine_room_alt Let_def)
  with that [of ?eng] q assms(5) show thesis by simp
next
  case False
  then have "engine_side rt show_io (Engine_recv net) s = s"
    using assms(1) by (auto simp: engine_side_def engine_advance_def engine_alive_def Let_def split: list.split)
  with that [of eng] False assms(1) show thesis by (auto simp: INBOUND_QUEUE_DEPTH_def)
qed

section \<open>Live traffic\<close>

text \<open>The frames of the server from number \<open>n\<close> on arrive one after the other, with a poll after each.\<close>

fun arrivals :: "secretbox \<Rightarrow> CryptoHandler \<Rightarrow> nat \<Rightarrow> (u8 \<times> bytes) list \<Rightarrow> session_stimulus list" where
  "arrivals sb h n [] = []"
| "arrivals sb h n (x # xs) = map Client_task (arrival sb h n x) @ Pump_event # arrivals sb h (Suc n) xs"

text \<open>A session waiting for the server, with every event received so far taken.\<close>

definition waiting :: "secretbox \<Rightarrow> TerminalSession \<Rightarrow> bool" where
  "waiting sb s \<longleftrightarrow> at_rest sb (client s) \<and> received (client s) = length (client_events (client s)) \<and> pump s = In_select"

lemma at_rest_next: "at_rest sb c \<Longrightarrow> received c < length (client_events c) \<Longrightarrow> at_rest sb (c\<lparr>received := Suc (received c)\<rparr>)"
  using client_calls_inv(4) [of sb c] by (simp add: at_rest_def EtClient_next_event_def)

lemma arrived:
  assumes "secretbox_ok sb" and "waiting sb s"
    and "s' = session_run sb rt show_io s
        (map Client_task (arrival sb (reader0 (cfg (backed (client s)))) (length (accepted (backed (client s)))) x))"
  shows "at_rest sb (client s')" "client_events (client s') = client_events (client s) @ [Event_Packet (plain x)]"
    "received (client s') = length (client_events (client s))" "cfg (backed (client s')) = cfg (backed (client s))"
    "accepted (backed (client s')) = accepted (backed (client s)) @ [plain x]" "\<exists>c. s' = s\<lparr>client := c\<rparr>"
proof -
  let ?c = "client_run sb rt (client s) (arrival sb (reader0 (cfg (backed (client s)))) (length (accepted (backed (client s)))) x)"
  have s': "s' = s\<lparr>client := ?c\<rparr>" unfolding assms(3) by (rule session_run_tasks) simp
  have w: "at_rest sb (client s)" "received (client s) = length (client_events (client s))"
    using assms(2) by (simp_all add: waiting_def)
  then have "length (client_events (client s)) - received (client s) < client_queue_depth"
    by (simp add: client_queue_depth_def)
  note a = at_rest_arrival [OF assms(1) w(1) this refl, of rt x]
  show "at_rest sb (client s')" "client_events (client s') = client_events (client s) @ [Event_Packet (plain x)]"
    "received (client s') = length (client_events (client s))" "cfg (backed (client s')) = cfg (backed (client s))"
    "accepted (backed (client s')) = accepted (backed (client s)) @ [plain x]" "\<exists>c. s' = s\<lparr>client := c\<rparr>"
    using a w(2) s' by auto
qed

lemma arrivals_shown:
  assumes "secretbox_ok sb" and "waiting sb s" and "list_all (\<lambda>x. surfaces s (Event_Packet (plain x))) xs"
    and "s' = session_run sb rt show_io s
        (arrivals sb (reader0 (cfg (backed (client s)))) (length (accepted (backed (client s)))) xs)"
  shows "waiting sb s' \<and> surfaced s' = surfaced s @ map (from_packet rt \<circ> plain) xs \<and> pf_engine s' = pf_engine s"
  using assms(2-)
proof (induction xs arbitrary: s)
  case Nil
  then show ?case by simp
next
  case (Cons x xs)
  let ?h = "reader0 (cfg (backed (client s)))" and ?n = "length (accepted (backed (client s)))"
  let ?s1 = "session_run sb rt show_io s (map Client_task (arrival sb ?h ?n x))"
  let ?s2 = "pump_event rt ?s1"
  note a = arrived [OF assms(1) Cons.prems(1) refl, of rt show_io x]
  obtain c where s1: "?s1 = s\<lparr>client := c\<rparr>" using a(6) by blast
  have p: "pump ?s1 = In_select" using Cons.prems(1) by (simp add: s1 waiting_def)
  have lt: "received (client ?s1) < length (client_events (client ?s1))" using a(2,3) by simp
  have ev: "client_events (client ?s1) ! received (client ?s1) = Event_Packet (plain x)" using a(2,3) by simp
  have "surfaces ?s1 = surfaces s" by (rule ext) (simp add: surfaces_def s1)
  with Cons.prems(2) have sf: "surfaces ?s1 (Event_Packet (plain x))" by simp
  note n = pump_event_next [OF lt disjI2 [OF sf] ev [symmetric] refl, of rt]
  have w: "waiting sb ?s2" using at_rest_next [OF a(1) lt] a(2,3) p n(1,2) unfolding waiting_def n(1) by simp
  have "?s2 = session_step sb rt show_io ?s1 Pump_event" using p by (simp add: session_step_def pump_side_def)
  then have run: "s' = session_run sb rt show_io ?s2
      (arrivals sb (reader0 (cfg (backed (client ?s2)))) (length (accepted (backed (client ?s2)))) xs)"
    using Cons.prems(3) a(4,5) n(1) by simp
  have e: "pf_engine ?s2 = pf_engine s" using n(3) s1 by simp
  then have "surfaces ?s2 = surfaces s" by (intro ext) (simp add: surfaces_def)
  then have "list_all (\<lambda>x. surfaces ?s2 (Event_Packet (plain x))) xs" using Cons.prems(2) by simp
  moreover have "surfaced ?s2 = surfaced s @ [from_packet rt (plain x)]"
    using n(4) sf s1 by (simp add: shown_def)
  ultimately show ?case using Cons.IH [OF w _ run] e by simp
qed

end
