(* ===== verification/Session_Spec.thy ===== *)
theory Session_Spec
  imports Session_Life
begin

text \<open>
  The properties of the terminal session: what the user is shown is what the server wrote, every
  event has one place to go, a parked pump and an ended session come to an end, and a start
  grants a session only on the server's word.
\<close>

section \<open>Concrete instances\<close>

text \<open>A start that the server grants.\<close>

lemma start_succeeds:
  assumes "secretbox_ok sb" and "buffa_ok rt" and "wf_InitialResponse rt response" and "InitialResponse_error response = None"
    and "connect rt net ep i passkey ka now = (Ok c, t)"
    and "es = arrival sb (CryptoHandler_new (str_bytes passkey) SERVER_CLIENT_NONCE_MSB) 0
        (INITIAL_RESPONSE, write_to_InitialResponse rt response) @ [Owner_next_event]"
  obtains s where "start_session sb rt (net # nets) ep i passkey ip ka es now = Some (Ok s)" "waiting sb s"
    "s = session_new (InitialPayload_reversetunnels ip \<noteq> []) (client s)"
    "reader0 (cfg (backed (client s))) = CryptoHandler_new (str_bytes passkey) SERVER_CLIENT_NONCE_MSB"
    "length (accepted (backed (client s))) = 1"
    "opened (backed (client s)) = [sealed_packet sb (CryptoHandler_new (str_bytes passkey) SERVER_CLIENT_NONCE_MSB) 0
      (INITIAL_RESPONSE, write_to_InitialResponse rt response)]"
proof -
  let ?x = "(INITIAL_RESPONSE, write_to_InitialResponse rt response)"
  obtain c1 where c1: "EtClient_write sb rt INITIAL_PAYLOAD (write_to_InitialPayload rt ip) c = (Ok (), c1)"
    and rest: "at_rest sb c1" "client_events c1 = []" "received c1 = 0" "accepted (backed c1) = []"
      "cfg (backed c1) = cfg (backed c)" "opened (backed c1) = []"
    using first_write [OF assms(5)] by blast
  let ?h = "reader0 (cfg (backed c1))"
  have h: "?h = CryptoHandler_new (str_bytes passkey) SERVER_CLIENT_NONCE_MSB"
    using connected_at_rest(7) [OF assms(5)] rest(5) by simp
  let ?c2 = "client_run sb rt c1 (arrival sb ?h (length (accepted (backed c1))) ?x)"
  let ?c3 = "?c2\<lparr>received := Suc (received ?c2)\<rparr>"
  have "length (client_events c1) - received c1 < client_queue_depth" by (simp add: rest client_queue_depth_def)
  note a = at_rest_arrival [OF assms(1) rest(1) this refl, of rt ?x]
  have n: "EtClient_next_event ?c2 = (Ready (Some (Event_Packet (plain ?x))), ?c3)"
    using a(2,3) rest by (simp add: EtClient_next_event_def)
  have "initial_answer rt (Event_Packet (plain ?x)) = Some (Ok ())"
    using decode_write_InitialResponse [OF assms(2,3)] assms(4) by (simp add: initial_answer_def plain_def Packet_new_def)
  then have wait: "start_wait sb rt c1 es = (Ok (), ?c3)"
    unfolding assms(6) h [symmetric] using n rest(4) start_wait_tasks [OF arrival_tasks, of sb rt c1 sb ?h 0 ?x "[Owner_next_event]"]
    by simp
  let ?s = "session_new (InitialPayload_reversetunnels ip \<noteq> []) ?c3"
  have "start_session sb rt (net # nets) ep i passkey ip ka es now = Some (Ok ?s)"
    using assms(5) c1 wait by (simp add: start_session_def)
  moreover have "at_rest sb ?c3" using a(2,3) rest by (intro at_rest_next [OF a(1)]) simp
  ultimately show thesis
    using that [of ?s] a(2-6) rest h by (simp add: waiting_def session_new_def)
qed

definition sample_passkey :: string where
  "sample_passkey = replicate 32 CHR ''k''"

definition sample_ip :: InitialPayload where
  "sample_ip = InitialPayload_default\<lparr>InitialPayload_reversetunnels := [PortForwardSourceRequest_default]\<rparr>"

definition sample_start :: "secretbox \<Rightarrow> client_stimulus list" where
  "sample_start sb = arrival sb (CryptoHandler_new (str_bytes sample_passkey) SERVER_CLIENT_NONCE_MSB) 0
     (INITIAL_RESPONSE, write_to_InitialResponse wire InitialResponse_default) @ [Owner_next_event]"

lemma sample_session:
  assumes "secretbox_ok sb"
  obtains s where
    "start_session sb wire [serving NEW_CLIENT [] []] ''h:2022'' ''id'' sample_passkey sample_ip 5000 (sample_start sb) 0 = Some (Ok s)"
    "waiting sb s" "s = session_new True (client s)"
    "reader0 (cfg (backed (client s))) = CryptoHandler_new (str_bytes sample_passkey) SERVER_CLIENT_NONCE_MSB"
    "length (accepted (backed (client s))) = 1"
    "opened (backed (client s)) = [sealed_packet sb (CryptoHandler_new (str_bytes sample_passkey) SERVER_CLIENT_NONCE_MSB) 0
      (INITIAL_RESPONSE, write_to_InitialResponse wire InitialResponse_default)]"
proof -
  obtain c where c: "connect wire (serving NEW_CLIENT [] []) ''h:2022'' ''id'' sample_passkey 5000 0 = (Ok c, 0)"
    using connect_with_serving by (auto simp: connect_def sample_passkey_def)
  have "wf_InitialResponse wire InitialResponse_default" "InitialResponse_error InitialResponse_default = None"
    by (simp_all add: wf_InitialResponse_def InitialResponse_default_def)
  from start_succeeds [OF assms buffa_ok_wire this c sample_start_def, of "[]" sample_ip] that
  show thesis by (simp add: sample_ip_def) blast
qed

text \<open>A packet for the engine parks the pump; a shutdown ends the session.\<close>

lemma header_plain: "header (plain x) = fst x"
  by (simp add: plain_def Packet_new_def case_prod_unfold)

lemma parked_session:
  assumes "secretbox_ok sb" and "waiting sb s" and "pf_engine s = Some eng" and "is_port_forward_header (fst x)"
    and "s' = session_run sb rt show_io s
        (map Client_task (arrival sb (reader0 (cfg (backed (client s)))) (length (accepted (backed (client s)))) x) @ [Pump_event])"
  shows "pump s' = In_deliver (plain x)" "pf_engine s' = Some eng"
proof -
  let ?s1 = "session_run sb rt show_io s
        (map Client_task (arrival sb (reader0 (cfg (backed (client s)))) (length (accepted (backed (client s)))) x))"
  note a = arrived [OF assms(1,2) refl, of rt show_io x]
  obtain c where s1: "?s1 = s\<lparr>client := c\<rparr>" using a(6) by blast
  have "EtClient_next_event (client ?s1) = (Ready (Some (Event_Packet (plain x))), (client ?s1)\<lparr>received := Suc (received (client ?s1))\<rparr>)"
    using a(2,3) by (simp add: EtClient_next_event_def)
  moreover have "pump ?s1 = In_select" "pf_engine ?s1 = Some eng" using assms(2,3) by (simp_all add: s1 waiting_def)
  moreover have "sup (client ?s1) = Sup_select" using a(1) by (simp add: at_rest_def)
  ultimately show "pump s' = In_deliver (plain x)" "pf_engine s' = Some eng"
    using assms(4) by (simp_all add: assms(5) session_step_def pump_side_def pump_event_def Let_def EtClient_session_ended_def header_plain)
qed

definition last_steps :: "client_stimulus list" where
  "last_steps = [Actor (Event_sent True), Sup_poll (\<lambda>ep. None), Sup_poll (\<lambda>ep. None)]"

lemma shutdown_ends:
  assumes "at_rest sb c" and "received c = length (client_events c)"
  shows "EtClient_session_ended (client_run sb rt (EtClient_shutdown sb rt c) last_steps)"
proof -
  let ?s = "backed c"
  have r: "pc ?s = AtSelect" "sup c = Sup_select" "taken c = length (events ?s)" "\<not> owner_gone c" "\<not> consumer_gone ?s" "\<not> dead_sent ?s"
    using assms(1) by (auto simp: at_rest_def client_inv_def backed_inv_def running_def)
  then have "BackedHandle_shutdown sb rt ?s = ?s\<lparr>shutting_down := True, live := None, pc := Dying DR_Shutdown\<rparr>"
    by (simp add: BackedHandle_shutdown_def backed_step_def select_step_def handle_cmd_def after_select_def run_end_def
        environment_step_def Let_def)
  with r assms(2) show ?thesis
    by (simp add: last_steps_def EtClient_shutdown_def client_step_def actor_step_def backed_step_def dying_step_def environment_step_def
        log_event_def sup_step_def sup_select_def backed_recv_def sup_send_def EVENT_QUEUE_DEPTH_def client_queue_depth_def
        EtClient_session_ended_def Let_def)
qed

text \<open>A \<^verbatim>\<open>next_event\<close> that is dropped while it holds a packet loses it, although the engine runs.\<close>

lemma dropped_next_event_loses:
  "pump s = In_deliver p \<Longrightarrow>
    routed (session_step sb rt show_io s Pump_dropped) = routed s @ [(p, False)] \<and>
    pump (session_step sb rt show_io s Pump_dropped) = In_select \<and> pf_engine (session_step sb rt show_io s Pump_dropped) = pf_engine s"
  by (simp add: session_step_def pump_side_def deliver_return_def)

section \<open>Properties\<close>

lemma session_reader:
  assumes "start_session sb rt nets ep i passkey ip ka es now = Some (Ok s)"
  shows "reader0 (cfg (backed (client s))) = CryptoHandler_new (str_bytes passkey) SERVER_CLIENT_NONCE_MSB"
proof (rule start_session_Ok [OF assms])
  fix net t0 t c c1 es'
  assume con: "connect rt net ep i passkey ka t0 = (Ok c, t)"
    and w: "EtClient_write sb rt INITIAL_PAYLOAD (write_to_InitialPayload rt ip) c = (Ok (), c1)"
    and c: "client s = client_run sb rt c1 es'"
  have "cfg (backed c1) = cfg (backed c)"
    using client_cfg(2) [of sb rt INITIAL_PAYLOAD "write_to_InitialPayload rt ip" c] w by simp
  then show ?thesis
    using connected_at_rest(7) [OF con] by (simp add: c client_run_cfg)
qed

text \<open>C1. What the user is shown is what the server wrote: in every run of a session from its start on, and
  across any number of reconnects, the payloads of the packets received are a prefix of the payloads the
  server wrote, in order, if no frame that was opened is a forgery; and the packets themselves are, header
  bytes included, if the network has not changed the header bytes, which are outside the MAC. Of the
  events received, the start took the first ones, and every later one was returned to the user or went the
  engine's way, as its header asks, each once and in order. Packets of the port-forwarding protocol are
  returned only from before there was an engine.\<close>

theorem session_end_to_end:
  assumes "start_session sb rt nets ep i passkey ip ka es now = Some (Ok s0)" and "s = session_run sb rt show_io s0 es'"
    and "evs = take (received (client s)) (client_events (client s))"
    and "h = CryptoHandler_new (str_bytes passkey) SERVER_CLIENT_NONCE_MSB"
    and "length (accepted (backed (client s))) < 256 ^ 23" and "length ps < 256 ^ 23"
  shows "(list_all (genuine sb h ps) (opened (backed (client s))) \<longrightarrow> prefix (map payload (client_packets evs)) (map snd ps)) \<and>
    (secretbox_ok sb \<and> list_all (untouched sb h ps) (opened (backed (client s))) \<longrightarrow> prefix (client_packets evs) (map plain ps)) \<and>
    base s \<le> length evs \<and>
    (\<exists>m. surfaced s = map (shown rt) (take m (drop (base s) evs) @ filter (\<lambda>ev. \<not> for_engine ev) (drop m (drop (base s) evs))) \<and>
      map fst (routed s) @ in_hand s = client_packets (filter for_engine (drop m (drop (base s) evs))))"
proof -
  let ?c = "client s"
  have inv: "session_inv sb rt s" unfolding assms(2) by (rule session_run_inv [OF start_session_inv [OF assms(1)]])
  then have ci: "client_inv sb ?c" by (simp add: session_inv_def connection_inv_def)
  have h: "reader0 (cfg (backed ?c)) = h"
    unfolding assms(2,4) session_run_cfg by (rule session_reader [OF assms(1)])
  have pre: "prefix (client_packets evs) (client_packets (client_events ?c))"
    unfolding assms(3) by (metis append_take_drop_id client_packets_append prefixI)
  note all = client_inv_prefix [OF ci assms(5,6), unfolded h]
  have "prefix (map payload (client_packets evs)) (map snd ps)" if "list_all (genuine sb h ps) (opened (backed ?c))"
    using map_mono_prefix [OF pre] all(1) [OF that] by (rule prefix_order.trans)
  moreover have "prefix (client_packets evs) (map plain ps)" if "secretbox_ok sb" "list_all (untouched sb h ps) (opened (backed ?c))"
    using pre all(2) [OF that] by (rule prefix_order.trans)
  moreover obtain m where "routes rt m s" using inv by (auto simp: session_inv_def)
  moreover have "base s \<le> length evs" using inv by (simp add: assms(3) session_inv_def connection_inv_def)
  ultimately show ?thesis unfolding routes_def got_def assms(3) by blast
qed

theorem session_end_to_end_witness:
  "\<exists>s. start_session (tag_box sample_nonce1) wire [serving NEW_CLIENT [] []] ''h:2022'' ''id'' sample_passkey sample_ip 5000
        (sample_start (tag_box sample_nonce1)) 0 = Some (Ok s) \<and> length (accepted (backed (client s))) = 1 \<and>
    prefix (client_packets (take (received (client s)) (client_events (client s))))
      (map plain [(INITIAL_RESPONSE, write_to_InitialResponse wire InitialResponse_default), (1, [33])])"
proof (rule sample_session [OF secretbox_ok_tag_box [of sample_nonce1]])
  fix s
  let ?x = "(INITIAL_RESPONSE, write_to_InitialResponse wire InitialResponse_default)"
  let ?h = "CryptoHandler_new (str_bytes sample_passkey) SERVER_CLIENT_NONCE_MSB"
  assume s: "start_session (tag_box sample_nonce1) wire [serving NEW_CLIENT [] []] ''h:2022'' ''id'' sample_passkey sample_ip 5000
        (sample_start (tag_box sample_nonce1)) 0 = Some (Ok s)"
    and a: "length (accepted (backed (client s))) = 1"
    and o: "opened (backed (client s)) = [sealed_packet (tag_box sample_nonce1) ?h 0 ?x]"
  have "?h = CryptoHandler_new (replicate 32 107) SERVER_CLIENT_NONCE_MSB"
    by (simp add: sample_passkey_def str_bytes_def)
  from first_frame_untouched [OF this, of ?x "[(1, [33])]"]
  have "list_all (untouched (tag_box sample_nonce1) ?h [?x, (1, [33])]) (opened (backed (client s)))" by (simp add: o)
  with session_end_to_end [OF s _ refl refl, of s "\<lambda>_. []" "[]" "[?x, (1, [33])]"] s a show ?thesis
    by (auto simp: session_run_def secretbox_ok_tag_box)
qed

text \<open>C12. No silent loss: in every run of a session, the packets for the engine were all handed to it, in the
  order of their arrival, unless the session has ended, the engine has stopped, or the owner
  dropped a call of \<^verbatim>\<open>next_event\<close> that held one; what the engine has not taken yet is what its queue
  holds; the packets taken from the engine are those it sent, in order, and those the connection
  accepted were written to it in that order; and the queue to the engine, its commands, the queue from it and the queues to its local
  connections stay within their bounds.\<close>

theorem session_no_silent_loss:
  assumes "start_session sb rt nets ep i passkey ip ka es now = Some (Ok s0)" and "s = session_run sb rt show_io s0 es'"
  shows "(list_all snd (routed s) \<or> EtClient_session_ended (client s) \<or> cancelled s \<or>
      (\<exists>eng. pf_engine s = Some eng \<and> \<not> engine_alive eng)) \<and>
    (\<exists>fed. map fst (filter snd (routed s)) = fed @ pf_queue s) \<and>
    length (pf_queue s) \<le> INBOUND_QUEUE_DEPTH \<and> length (pf_cmds s) \<le> CMD_QUEUE_DEPTH \<and>
    (\<forall>eng. pf_engine s = Some eng \<longrightarrow> map fst (relayed s) = take (out_taken s) (outbound eng) \<and>
      length (outbound eng) - out_taken s \<le> OUTBOUND_QUEUE_DEPTH \<and> queues_le CONN_WRITE_QUEUE_DEPTH eng) \<and>
    subseq (map (frame_of \<circ> fst) (filter snd (relayed s))) (written (backed (client s)))"
proof -
  have "session_inv sb rt s" unfolding assms(2) by (rule session_run_inv [OF start_session_inv [OF assms(1)]])
  then show ?thesis by (auto simp: session_defs engine_room_alt relay_out_inv_def split: option.splits)
qed

theorem session_no_silent_loss_witness:
  "\<exists>s. start_session sum_box wire [serving NEW_CLIENT [] []] ''h:2022'' ''id'' sample_passkey sample_ip 5000 (sample_start sum_box) 0 = Some (Ok s) \<and>
    length (pf_queue (session_run sum_box wire (\<lambda>_. []) s [Pump_event, Shutdown_session []])) \<le> INBOUND_QUEUE_DEPTH"
proof (rule sample_session [OF secretbox_ok_sum_box])
  fix s
  assume s: "start_session sum_box wire [serving NEW_CLIENT [] []] ''h:2022'' ''id'' sample_passkey sample_ip 5000 (sample_start sum_box) 0 = Some (Ok s)"
  with session_no_silent_loss [OF s refl, of "\<lambda>_. []" "[Pump_event, Shutdown_session []]"] show ?thesis by blast
qed

text \<open>C13. Terminal output is shown: while the connection is up, whatever chunks of output the server sends, one
  frame each in its stream, \<^verbatim>\<open>next_event\<close> returns exactly these chunks, in order, whether or not
  there is an engine.\<close>

theorem terminal_output_shown:
  assumes "secretbox_ok sb" and "buffa_ok rt" and "waiting sb s" and "list_all wire_bytes chunks"
    and "s' = session_run sb rt show_io s
        (arrivals sb (reader0 (cfg (backed (client s)))) (length (accepted (backed (client s))))
          (map (\<lambda>b. (TERMINAL_BUFFER, write_to_TerminalBuffer rt (TerminalBuffer_default\<lparr>TerminalBuffer_buffer := Some b\<rparr>))) chunks))"
  shows "surfaced s' = surfaced s @ map SE_TerminalBuffer chunks \<and> waiting sb s'"
proof -
  let ?x = "\<lambda>b. (TERMINAL_BUFFER, write_to_TerminalBuffer rt (TerminalBuffer_default\<lparr>TerminalBuffer_buffer := Some b\<rparr>))"
  have "surfaces s (Event_Packet (plain (?x b)))" for b
    by (simp add: surfaces_def for_engine_def is_port_forward_header_def plain_def Packet_new_def TERMINAL_BUFFER_def PORT_FORWARD_DATA_def
        PORT_FORWARD_DESTINATION_REQUEST_def PORT_FORWARD_DESTINATION_RESPONSE_def)
  then have "list_all (\<lambda>x. surfaces s (Event_Packet (plain x))) (map ?x chunks)"
    by (simp add: list_all_iff)
  note shown = arrivals_shown [OF assms(1,3) this assms(5)]
  have "from_packet rt (plain (?x b)) = SE_TerminalBuffer b" if "wire_bytes b" for b
    using decode_write_TerminalBuffer [OF assms(2), of "TerminalBuffer_default\<lparr>TerminalBuffer_buffer := Some b\<rparr>"] that
    by (simp add: from_packet_def plain_def Packet_new_def wf_TerminalBuffer_def TerminalBuffer_default_def)
  then have "map (from_packet rt \<circ> plain) (map ?x chunks) = map SE_TerminalBuffer chunks"
    using assms(4) by (induction chunks) simp_all
  with shown show ?thesis by simp
qed

theorem terminal_output_shown_witness:
  "\<exists>s es. start_session sum_box wire [serving NEW_CLIENT [] []] ''h:2022'' ''id'' sample_passkey sample_ip 5000 (sample_start sum_box) 0 = Some (Ok s) \<and>
    surfaced (session_run sum_box wire (\<lambda>_. []) s es) = [SE_TerminalBuffer [104, 105], SE_TerminalBuffer [33]]"
proof (rule sample_session [OF secretbox_ok_sum_box])
  fix s
  assume s: "start_session sum_box wire [serving NEW_CLIENT [] []] ''h:2022'' ''id'' sample_passkey sample_ip 5000 (sample_start sum_box) 0 = Some (Ok s)"
    and w: "waiting sum_box s" and new: "s = session_new True (client s)"
  have "list_all wire_bytes [[104, 105], [33]]" by (simp add: wire_bytes_def)
  from terminal_output_shown [OF secretbox_ok_sum_box buffa_ok_wire w this refl, of "\<lambda>_. []"]
  have "\<exists>es. surfaced (session_run sum_box wire (\<lambda>_. []) s es) = surfaced s @ map SE_TerminalBuffer [[104, 105], [33]]" by blast
  moreover have "surfaced s = []" by (subst new) (simp add: session_new_def)
  ultimately show ?thesis using s by auto
qed

text \<open>C11. The pump is never stuck: a \<^verbatim>\<open>next_event\<close> parked on a saturated engine goes on once it has written
  out what the engine sent, however full both queues were, provided the local connections take
  their data; the packet it held has then been handed over, or the engine has gone. Without writing out
  the engine's packets while parked, the two queues could block each other.\<close>

theorem pump_never_stuck:
  assumes "start_session sb rt nets ep i passkey ip ka es now = Some (Ok s0)" and "s = session_run sb rt show_io s0 es'"
    and "pump s = In_deliver p" and "pf_engine s = Some eng" and "status eng \<noteq> Engine_waiting"
    and "queues_le (CONN_WRITE_QUEUE_DEPTH - 1) eng"
    and "s' = session_run sb rt show_io s (replicate OUTBOUND_QUEUE_DEPTH Pump_outbound @ [Engine_recv net, Pump_permit])"
  shows "pump s' = In_select \<and>
    (routed s' = routed s @ [(p, True)] \<or>
     routed s' = routed s @ [(p, False)] \<and> (\<exists>eng'. pf_engine s' = Some eng' \<and> \<not> engine_alive eng'))"
proof -
  have "session_inv sb rt s" unfolding assms(2) by (rule session_run_inv [OF start_session_inv [OF assms(1)]])
  then have inv: "out_taken s \<le> length (outbound eng)" "length (outbound eng) \<le> out_taken s + OUTBOUND_QUEUE_DEPTH"
    "engine_alive eng \<Longrightarrow> pf_outbound s" "length (pf_queue s) \<le> INBOUND_QUEUE_DEPTH"
    using assms(4) by (simp_all add: session_defs engine_room_alt)
  let ?s1 = "session_run sb rt show_io s (replicate OUTBOUND_QUEUE_DEPTH Pump_outbound)"
  have keeps: "pf_engine ?s1 = pf_engine s" "pf_queue ?s1 = pf_queue s" "pump ?s1 = pump s" "routed ?s1 = routed s"
    using outbound_keeps [OF refl, of sb rt show_io s OUTBOUND_QUEUE_DEPTH] by simp_all
  obtain eng' where "pump (engine_side rt show_io (Engine_recv net) ?s1) = In_deliver p"
    "routed (engine_side rt show_io (Engine_recv net) ?s1) = routed s" "pf_engine (engine_side rt show_io (Engine_recv net) ?s1) = Some eng'"
    "engine_alive eng' \<Longrightarrow> length (pf_queue (engine_side rt show_io (Engine_recv net) ?s1)) < INBOUND_QUEUE_DEPTH"
  proof (rule engine_recv_room [of ?s1 eng rt show_io net])
    show "out_taken ?s1 = length (outbound eng)" if "engine_alive eng"
      by (rule outbound_drained [OF assms(4) inv(3) [OF that] inv(1,2) that])
  qed (use keeps assms(3-6) inv(4) in simp_all)
  moreover have "s' = session_step sb rt show_io (engine_side rt show_io (Engine_recv net) ?s1) Pump_permit"
    by (simp add: assms(7) session_step_def)
  ultimately show ?thesis
    by (cases "engine_alive eng'") (simp_all add: session_step_def pump_side_def pump_permit_cases deliver_return_def)
qed

theorem pump_never_stuck_witness:
  "\<exists>s es. start_session sum_box wire [serving NEW_CLIENT [] []] ''h:2022'' ''id'' sample_passkey sample_ip 5000 (sample_start sum_box) 0 = Some (Ok s) \<and>
    pump (session_run sum_box wire (\<lambda>_. []) s es) = In_deliver (plain (PORT_FORWARD_DATA, [])) \<and>
    pump (session_run sum_box wire (\<lambda>_. []) (session_run sum_box wire (\<lambda>_. []) s es)
      (replicate OUTBOUND_QUEUE_DEPTH Pump_outbound @ [Engine_recv sample_net, Pump_permit])) = In_select"
proof (rule sample_session [OF secretbox_ok_sum_box])
  fix s
  let ?x = "(PORT_FORWARD_DATA, [])"
  assume s: "start_session sum_box wire [serving NEW_CLIENT [] []] ''h:2022'' ''id'' sample_passkey sample_ip 5000 (sample_start sum_box) 0 = Some (Ok s)"
    and w: "waiting sum_box s" and new: "s = session_new True (client s)"
  have e: "pf_engine s = Some (EngineState_new [])" by (subst new) (simp add: session_new_def)
  have "is_port_forward_header (fst ?x)" by (simp add: is_port_forward_header_def)
  note p = parked_session [OF secretbox_ok_sum_box w e this refl, of wire "\<lambda>_. []"]
  have "queues_le (CONN_WRITE_QUEUE_DEPTH - 1) (EngineState_new [])" "status (EngineState_new []) \<noteq> Engine_waiting"
    by (simp_all add: queues_le_def EngineState_new_def)
  with pump_never_stuck [OF s refl p(1,2) _ _ refl, of sample_net] s p(1) show ?thesis by blast
qed

text \<open>C25. An ended session drains and returns: once the supervisor has returned, polling \<^verbatim>\<open>next_event\<close> once for
  each event left, and once more, gives every event left that is not for the engine, in order,
  and then \<^verbatim>\<open>None\<close>; no saturated engine can hold it up.\<close>

theorem session_end_drains:
  assumes "start_session sb rt nets ep i passkey ip ka es now = Some (Ok s0)" and "s = session_run sb rt show_io s0 es'"
    and "EtClient_session_ended (client s)" and "n = length (client_events (client s)) - received (client s)"
    and "s' = session_run sb rt show_io s (polls (Suc n))"
  shows "finished s' \<and> pump s' = In_select \<and> received (client s') = length (client_events (client s')) \<and>
    surfaced s' = surfaced s @ map (shown rt) (filter (surfaces s) (drop (received (client s)) (client_events (client s))))"
proof -
  have "session_inv sb rt s" unfolding assms(2) by (rule session_run_inv [OF start_session_inv [OF assms(1)]])
  then have r: "received (client s) \<le> length (client_events (client s))" by (simp add: session_inv_def connection_inv_def)
  show ?thesis
  proof (cases "pump s")
    case In_select
    from polls_drain [OF assms(3) this r assms(4,5)] show ?thesis .
  next
    case (In_deliver p)
    let ?s1 = "deliver_return p False s"
    have f: "client ?s1 = client s" "pump ?s1 = In_select" "surfaced ?s1 = surfaced s" "surfaces ?s1 = surfaces s"
      by (simp_all add: deliver_return_def surfaces_def fun_eq_iff)
    have "s' = session_run sb rt show_io ?s1 (polls (Suc n))"
      using In_deliver assms(3) f(2) by (simp add: assms(5) session_step_def pump_side_def pump_tick_def)
    from polls_drain [OF _ f(2) _ _ this] assms(3,4) r f show ?thesis by simp
  qed
qed

theorem session_end_drains_witness:
  "\<exists>s. start_session sum_box wire [serving NEW_CLIENT [] []] ''h:2022'' ''id'' sample_passkey sample_ip 5000 (sample_start sum_box) 0 = Some (Ok s) \<and>
    (\<exists>n. finished (session_run sum_box wire (\<lambda>_. []) (session_run sum_box wire (\<lambda>_. []) s
      (Shutdown_session [] # map Client_task last_steps)) (polls n)))"
proof (rule sample_session [OF secretbox_ok_sum_box])
  fix s
  assume s: "start_session sum_box wire [serving NEW_CLIENT [] []] ''h:2022'' ''id'' sample_passkey sample_ip 5000 (sample_start sum_box) 0 = Some (Ok s)"
    and w: "waiting sum_box s" and new: "s = session_new True (client s)"
  have e: "pf_engine s = Some (EngineState_new [])" "pf_cmds s = []" by (subst new, simp add: session_new_def)+
  have "client (session_step sum_box wire (\<lambda>_. []) s (Shutdown_session [])) = EtClient_shutdown sum_box wire (client s)"
    using w e by (simp add: waiting_def session_step_def session_call_def session_shutdown_def engine_alive_def EngineState_new_def
        CMD_QUEUE_DEPTH_def Let_def)
  moreover have "list_all is_task last_steps" by (simp add: last_steps_def is_task_def)
  ultimately have "EtClient_session_ended (client (session_run sum_box wire (\<lambda>_. []) s (Shutdown_session [] # map Client_task last_steps)))"
    using shutdown_ends [of sum_box "client s" wire] w by (simp add: session_run_tasks waiting_def)
  from session_end_drains [OF s refl this refl refl] s show ?thesis by blast
qed

text \<open>C26. A session is granted only on the server's word: a start returns a session only after it has written
  the initial payload as the first packet of the connection and received, as the last event it
  took, an \<^verbatim>\<open>INITIAL_RESPONSE\<close> that decodes and carries no error; the session then runs an engine
  exactly if the payload asks for reverse tunnels.\<close>

theorem start_gate:
  assumes "start_session sb rt nets ep i passkey ip ka es now = Some (Ok s)"
  shows "0 < base s \<and> base s = received (client s) \<and>
    (\<exists>p response. client_events (client s) ! (base s - 1) = Event_Packet p \<and> header p = INITIAL_RESPONSE \<and>
      decode_InitialResponse rt (payload p) = Ok response \<and> InitialResponse_error response = None) \<and>
    (\<exists>rest. written (backed (client s)) = (INITIAL_PAYLOAD, write_to_InitialPayload rt ip) # rest) \<and>
    (pf_engine s \<noteq> None \<longleftrightarrow> InitialPayload_reversetunnels ip \<noteq> [])"
proof (rule start_session_Ok [OF assms])
  fix net t0 t c c1 es'
  assume con: "connect rt net ep i passkey ka t0 = (Ok c, t)"
    and w: "EtClient_write sb rt INITIAL_PAYLOAD (write_to_InitialPayload rt ip) c = (Ok (), c1)"
    and c: "client s = client_run sb rt c1 es'" and granted: "0 < received (client s)"
      "session_granted rt (client_events (client s) ! (received (client s) - 1))"
    and s: "s = session_new (InitialPayload_reversetunnels ip \<noteq> []) (client s)"
  obtain c2 where "EtClient_write sb rt INITIAL_PAYLOAD (write_to_InitialPayload rt ip) c = (Ok (), c2)"
    and "written (backed c2) = [(INITIAL_PAYLOAD, write_to_InitialPayload rt ip)]"
    using first_write [OF con] by blast
  then have "written (backed c1) = [(INITIAL_PAYLOAD, write_to_InitialPayload rt ip)]" using w by simp
  then have "\<exists>rest. written (backed (client s)) = (INITIAL_PAYLOAD, write_to_InitialPayload rt ip) # rest"
    using client_run_written [of sb rt c1 es'] by (auto simp: c)
  moreover have "base s = received (client s)" "pf_engine s \<noteq> None \<longleftrightarrow> InitialPayload_reversetunnels ip \<noteq> []"
    by (subst s, simp add: session_new_def)+
  ultimately show ?thesis using granted by (simp add: session_granted_iff)
qed

theorem start_gate_witness:
  "\<exists>s rest. start_session sum_box wire [serving NEW_CLIENT [] []] ''h:2022'' ''id'' sample_passkey sample_ip 5000 (sample_start sum_box) 0 = Some (Ok s) \<and>
    written (backed (client s)) = (INITIAL_PAYLOAD, write_to_InitialPayload wire sample_ip) # rest"
proof (rule sample_session [OF secretbox_ok_sum_box])
  fix s
  assume s: "start_session sum_box wire [serving NEW_CLIENT [] []] ''h:2022'' ''id'' sample_passkey sample_ip 5000 (sample_start sum_box) 0 = Some (Ok s)"
  from start_gate [OF s] s show ?thesis by blast
qed

text \<open>C27. The retries of a start are bounded: whatever sixteen attempts meet, the connect loop returns, at the
  latest when the window of the retries, one pause and one handshake are over, and it gives up on a
  server that answers \<open>INVALID_KEY\<close> only after the window has passed.\<close>

theorem start_retry_bounded:
  assumes "16 \<le> length nets"
  shows "\<exists>r t. start_connect rt nets ep i passkey ka (now + INITIAL_INVALID_KEY_RETRY) now = Some (r, t) \<and>
    t \<le> now + INITIAL_INVALID_KEY_RETRY + invalid_key_pause + HANDSHAKE_TIMEOUT \<and>
    (\<forall>e. r = Err (CF_Rejected INVALID_KEY e) \<longrightarrow> now + INITIAL_INVALID_KEY_RETRY \<le> t)"
  using assms by (intro start_connect_bounded [where n = 15]) (simp_all add: INITIAL_INVALID_KEY_RETRY_def invalid_key_pause_def)

theorem start_retry_bounded_witness:
  "\<exists>r t. start_connect wire (replicate 16 (serving INVALID_KEY [] [])) ''h:2022'' ''id'' sample_passkey 5000 INITIAL_INVALID_KEY_RETRY 0 = Some (r, t) \<and>
    t \<le> INITIAL_INVALID_KEY_RETRY + invalid_key_pause + HANDSHAKE_TIMEOUT"
  using start_retry_bounded [of "replicate 16 (serving INVALID_KEY [] [])" wire "''h:2022''" "''id''" sample_passkey 5000 0] by auto

end
