(* ===== verification/Ssh.thy ===== *)
theory Ssh
  imports Ids Framing
begin

text \<open>
  \<^verbatim>\<open>crates/et-client/src/ssh.rs\<close>: the helpers of the SSH handshake that hands a client its id and
  passkey. The environment variable \<^verbatim>\<open>TERM\<close> and the run of the system's \<^verbatim>\<open>ssh\<close> (from its arguments to
  its exit status and its output) are parameters. The lemmas reduce the search for the marker to
  a recursion over the output, which carries the comparison of the raw and the lossily decoded
  output.
\<close>

section \<open>The remote command\<close>

record IdPasskey =
  ip_id :: string
  ip_passkey :: string

definition IDPASSKEY_MARKER :: string where
  "IDPASSKEY_MARKER = ''IDPASSKEY:''"

definition DEFAULT_TERMINAL :: string where
  "DEFAULT_TERMINAL = ''xterm-256color''"

record TerminalCommandOptions =
  verbose :: i32
  server_fifo :: "string option"
  etterminal_path :: string
  kill_existing :: bool
  opt_user :: string

definition TerminalCommandOptions_default :: TerminalCommandOptions where
  "TerminalCommandOptions_default =
     \<lparr>verbose = 0, server_fifo = None, etterminal_path = [], kill_existing = False, opt_user = []\<rparr>"

definition etterminal_command :: "string \<Rightarrow> string \<Rightarrow> string \<Rightarrow> TerminalCommandOptions \<Rightarrow> string" where
  "etterminal_command i passkey client_term opts =
     (let bin = (if etterminal_path opts = [] then ''etterminal'' else etterminal_path opts);
          command = ''echo '' @ [CHR 0x27] @ i @ ''/'' @ passkey @ ''_'' @ client_term @ [CHR 0x27] @ '' | '' @ bin @
            '' --verbose='' @ show_int (sint (verbose opts));
          command = (case server_fifo opts of None \<Rightarrow> command | Some fifo \<Rightarrow> command @ '' --serverfifo='' @ fifo)
      in
      if kill_existing opts then
        (let user = (if opt_user opts = [] then [CHR 0x24] @ ''USER'' else opt_user opts) in
         ''pkill etterminal -u '' @ user @ ''; sleep 0.5; '' @ command)
      else command)"

definition ssh_generate_id_passkey :: "bytes option list \<Rightarrow> IdPasskey drawn" where
  "ssh_generate_id_passkey fills =
     (case generate_id_passkey fills of
        Drawn (i, p) rest \<Rightarrow> Drawn \<lparr>ip_id = i, ip_passkey = p\<rparr> rest
      | Panicked \<Rightarrow> Panicked
      | Waiting \<Rightarrow> Waiting)"

definition default_client_term :: "string option \<Rightarrow> string" where
  "default_client_term term_var = (case term_var of Some t \<Rightarrow> t | None \<Rightarrow> DEFAULT_TERMINAL)"

section \<open>The command line of ssh\<close>

record SshDestination =
  dest_user :: string
  dest_host :: string
  dest_port :: "u16 option"
  jumphost :: "string option"
  ssh_options :: "string list"

definition build_ssh_args :: "SshDestination \<Rightarrow> string \<Rightarrow> string list" where
  "build_ssh_args dest command =
     (case jumphost dest of None \<Rightarrow> [] | Some jump \<Rightarrow> [''-J'', jump]) @
     [(if dest_user dest = [] then [] else dest_user dest @ ''@'') @ dest_host dest] @
     (case dest_port dest of None \<Rightarrow> [] | Some port \<Rightarrow> [''-p'', show_nat (unat port)]) @
     map (\<lambda>opt. ''-o'' @ opt) (ssh_options dest) @
     [command]"

section \<open>Reading the server's answer\<close>

definition parse_idpasskey_bytes :: "bytes \<Rightarrow> IdPasskey option" where
  "parse_idpasskey_bytes output =
     (let marker = str_bytes IDPASSKEY_MARKER in
      case find (\<lambda>i. take (length marker) (drop i output) = marker) [0..<length output - (length marker - 1)] of
        None \<Rightarrow> None
      | Some i \<Rightarrow>
          (let start = i + length marker;
               stop = start + (ID_LEN + 1 + PASSKEY_LEN)
           in
           if length output < stop then None
           else
             (let idpasskey = bytes_str (take (stop - start) (drop start output)) in
              if \<not> utf8_valid idpasskey then None
              else
                (case split_once CHR ''/'' idpasskey of
                   None \<Rightarrow> None
                 | Some (i, passkey) \<Rightarrow>
                     if list_all is_ascii_alphanumeric (i @ passkey)
                     then Some \<lparr>ip_id = i, ip_passkey = passkey\<rparr> else None))))"

definition parse_idpasskey_output :: "string \<Rightarrow> IdPasskey option" where
  "parse_idpasskey_output output = parse_idpasskey_bytes (str_bytes output)"

datatype SshHandshakeError = SshFailed | MissingMarker | SshIo io_kind

definition run_ssh_handshake ::
    "(string list \<Rightarrow> io_kind + bool \<times> bytes) \<Rightarrow> SshDestination \<Rightarrow> string \<Rightarrow> SshHandshakeError + IdPasskey" where
  "run_ssh_handshake ssh dest command =
     (case ssh (build_ssh_args dest command) of
        Inl e \<Rightarrow> Err (SshIo e)
      | Inr (success, stdout) \<Rightarrow>
          if \<not> success \<and> stdout = [] then Err SshFailed
          else
            (case parse_idpasskey_output (from_utf8_lossy stdout) of
               None \<Rightarrow> Err MissingMarker
             | Some ip \<Rightarrow> Ok ip))"

section \<open>The search as a recursion\<close>

lemma find_map: "find P (map f xs) = map_option f (find (\<lambda>x. P (f x)) xs)"
  by (induction xs) auto

lemma find_after:
  assumes "m \<noteq> []"
  shows "map_option (\<lambda>i. drop (i + length m) xs)
      (find (\<lambda>i. take (length m) (drop i xs) = m) [0..<length xs - (length m - 1)]) = after m xs"
proof (induction xs)
  case Nil
  with assms show ?case by simp
next
  case (Cons x xs)
  show ?case
  proof (cases "length m \<le> length (x # xs)")
    case True
    then have "[0..<length (x # xs) - (length m - 1)] = 0 # map Suc [0..<length xs - (length m - 1)]"
      using assms by (cases m) (auto simp: Suc_diff_le upt_conv_Cons map_Suc_upt)
    with Cons show ?thesis
      by (simp add: find_map option.map_comp comp_def)
  next
    case False
    moreover have "after m ys = None" if "length ys < length m" for ys
      using that by (induction ys) auto
    moreover have "x # xs \<noteq> m" using False by auto
    ultimately show ?thesis by simp
  qed
qed

text \<open>The part of the parser that follows the marker, on the codes of the bytes.\<close>

definition credentials :: "nat list \<Rightarrow> IdPasskey option" where
  "credentials rest =
     (if length rest < ID_LEN + 1 + PASSKEY_LEN then None
      else
        (let w = take (ID_LEN + 1 + PASSKEY_LEN) rest in
         if \<not> utf8_codes w then None
         else
           (case split_once CHR ''/'' (map char_of w) of
              None \<Rightarrow> None
            | Some (i, passkey) \<Rightarrow>
                if list_all is_ascii_alphanumeric (i @ passkey)
                then Some \<lparr>ip_id = i, ip_passkey = passkey\<rparr> else None)))"

definition marker_codes :: "nat list" where
  "marker_codes = map of_char IDPASSKEY_MARKER"

lemma after_map: "inj f \<Longrightarrow> after (map f m) (map f xs) = map_option (map f) (after m xs)"
proof (induction xs)
  case (Cons x xs)
  have "take (length m) (f x # map f xs) = map f (take (length m) (x # xs))"
    "drop (length m) (f x # map f xs) = map f (drop (length m) (x # xs))"
    by (metis take_map list.simps(9), metis drop_map list.simps(9))
  with Cons show ?case by (simp add: inj_map_eq_map)
qed simp

lemma utf8_valid_bytes_str: "utf8_valid (bytes_str bs) = utf8_codes (map unat bs)"
proof -
  have "map of_char (bytes_str bs) = map unat bs"
    using unat_u8_less by (simp add: bytes_str_def)
  then show ?thesis by (simp add: utf8_valid_def)
qed

lemma parse_idpasskey_bytes_eq:
  "parse_idpasskey_bytes output = Option.bind (after marker_codes (map unat output)) credentials"
proof -
  let ?m = "str_bytes IDPASSKEY_MARKER"
  let ?f = "find (\<lambda>i. take (length ?m) (drop i output) = ?m) [0..<length output - (length ?m - 1)]"
  have m: "map unat ?m = marker_codes"
    by (simp add: marker_codes_def str_bytes_def unat_of_char)
  have "?m \<noteq> []" by (simp add: IDPASSKEY_MARKER_def str_bytes_def)
  note fa = find_after [OF this, of "output"]
  have "after marker_codes (map unat output) = map_option (map unat) (after ?m output)"
    unfolding m [symmetric] by (rule after_map, rule injI) (simp add: word_unat_eq_iff)
  also have "\<dots> = map_option (\<lambda>i. map unat (drop (i + length ?m) output)) ?f"
    unfolding fa [symmetric] by (simp only: option.map_comp comp_def)
  finally have "after marker_codes (map unat output) = map_option (\<lambda>i. map unat (drop (i + length ?m) output)) ?f" .
  then show ?thesis
    by (cases ?f) (auto simp: parse_idpasskey_bytes_def credentials_def Let_def take_map bytes_str_def comp_def
        utf8_valid_bytes_str [unfolded bytes_str_def])
qed

section \<open>What the parser accepts\<close>

lemma char_of_of_char_map: "list_all (\<lambda>c. c < 256) cs \<Longrightarrow> map of_char (map char_of cs :: string) = (cs :: nat list)"
  by (induction cs) auto

lemma credentials_Some:
  assumes "credentials rest = Some ip"
  shows "ip_id ip @ ''/'' @ ip_passkey ip = map char_of (take (ID_LEN + 1 + PASSKEY_LEN) rest)"
    "list_all is_ascii_alphanumeric (ip_id ip @ ip_passkey ip)"
    "length (ip_id ip) + length (ip_passkey ip) = ID_LEN + PASSKEY_LEN"
    "ID_LEN + 1 + PASSKEY_LEN \<le> length rest"
proof -
  let ?w = "map char_of (take (ID_LEN + 1 + PASSKEY_LEN) rest) :: string"
  from assms obtain i p where l: "ID_LEN + 1 + PASSKEY_LEN \<le> length rest"
    and s: "split_once CHR ''/'' ?w = Some (i, p)" and a: "list_all is_ascii_alphanumeric (i @ p)"
    and ip: "ip = \<lparr>ip_id = i, ip_passkey = p\<rparr>"
    by (auto simp: credentials_def Let_def not_less split: if_splits option.splits)
  from s have w: "?w = i @ CHR ''/'' # p" by (simp add: split_once_Some)
  from w l have "length (i @ CHR ''/'' # p) = ID_LEN + 1 + PASSKEY_LEN" by (metis length_map length_take min.absorb2)
  with w l a ip show "ip_id ip @ ''/'' @ ip_passkey ip = ?w"
    "list_all is_ascii_alphanumeric (ip_id ip @ ip_passkey ip)"
    "length (ip_id ip) + length (ip_passkey ip) = ID_LEN + PASSKEY_LEN" "ID_LEN + 1 + PASSKEY_LEN \<le> length rest"
    by simp_all
qed

lemma credentials_ascii:
  assumes "credentials rest = Some ip" and "list_all (\<lambda>c. c < 256) rest"
  shows "list_all (\<lambda>c. c < 128) (take (ID_LEN + 1 + PASSKEY_LEN) rest)"
proof -
  note c = credentials_Some [OF assms(1)]
  have "list_all (\<lambda>c. (of_char c :: nat) < 128) (ip_id ip @ ''/'' @ ip_passkey ip)"
    using c(2) alphanumeric_neq(4) by (auto simp: list_all_iff)
  then have "list_all (\<lambda>c. c < 128) (map of_char (map char_of (take (ID_LEN + 1 + PASSKEY_LEN) rest) :: string) :: nat list)"
    unfolding c(1) by (auto simp: list_all_iff)
  moreover have "list_all (\<lambda>c. c < 256) (take (ID_LEN + 1 + PASSKEY_LEN) rest)"
    using assms(2) by (auto simp: list_all_iff dest: in_set_takeD)
  ultimately show ?thesis by (simp only: char_of_of_char_map)
qed

lemma credentials_same_ascii:
  assumes "same_ascii r r'" and "credentials r = Some ip" and "list_all (\<lambda>c. c < 256) r"
  shows "credentials r' = Some ip"
proof -
  have "ID_LEN + 1 + PASSKEY_LEN \<le> length r" by (rule credentials_Some [OF assms(2)])
  from same_ascii_take [OF assms(1) this credentials_ascii [OF assms(2,3)]] assms(2) show ?thesis
    by (simp add: credentials_def Let_def split: if_splits)
qed

lemma after_subset: "after m xs = Some r \<Longrightarrow> set r \<subseteq> set xs"
  by (induction xs) (auto split: if_splits dest: in_set_dropD)

lemma bind_after_same_ascii:
  assumes "same_ascii xs ys" and "list_all (\<lambda>c. c < 256) xs" and "list_all (\<lambda>c. c < 256) ys"
  shows "Option.bind (after marker_codes xs) credentials = Option.bind (after marker_codes ys) credentials"
proof -
  have m: "marker_codes \<noteq> []" "list_all (\<lambda>x. x < 128) marker_codes"
    by (simp_all add: marker_codes_def IDPASSKEY_MARKER_def)
  show ?thesis
    using after_same_ascii [OF m assms(1)]
  proof (cases rule: option.rel_cases)
    case (Some r r')
    with assms(2,3) have "list_all (\<lambda>c. c < 256) r" "list_all (\<lambda>c. c < 256) r'"
      using after_subset by (fastforce simp: list_all_iff)+
    with Some(3) have "credentials r = Some ip \<longleftrightarrow> credentials r' = Some ip" for ip
      by (metis credentials_same_ascii same_ascii_sym)
    then have "credentials r = credentials r'" by (metis not_None_eq)
    with Some show ?thesis by simp
  qed simp
qed

lemma lossy_bounded: "list_all (\<lambda>c. c < 256) (map unat (str_bytes s))"
  by (simp add: list_all_iff unat_u8_less)

lemma parse_lossy: "parse_idpasskey_output (from_utf8_lossy out) = parse_idpasskey_bytes out"
proof -
  have "map unat (str_bytes (from_utf8_lossy out)) = lossy_codes (map unat out)"
    using from_utf8_lossy_codes [of out] by (simp add: str_bytes_def unat_of_char comp_def)
  moreover have "Option.bind (after marker_codes (map unat out)) credentials =
      Option.bind (after marker_codes (map unat (str_bytes (from_utf8_lossy out)))) credentials"
  proof (rule bind_after_same_ascii)
    show "same_ascii (map unat out) (map unat (str_bytes (from_utf8_lossy out)))"
      unfolding \<open>map unat (str_bytes (from_utf8_lossy out)) = _\<close> by (rule lossy_same_ascii)
  qed (simp_all add: list_all_iff unat_u8_less)
  ultimately show ?thesis
    by (simp add: parse_idpasskey_output_def parse_idpasskey_bytes_eq)
qed

section \<open>The answer of a server\<close>

definition server_answer :: "string \<Rightarrow> string \<Rightarrow> bytes" where
  "server_answer i p = str_bytes (IDPASSKEY_MARKER @ i @ ''/'' @ p)"

lemma after_fresh:
  assumes "after m (xs @ butlast m) = None" and "m \<noteq> []"
  shows "after m (xs @ m @ ys) = Some ys"
  using assms(1)
proof (induction xs)
  case Nil
  with assms(2) show ?case by (cases m) auto
next
  case (Cons x xs)
  let ?n = "length m"
  have "take ?n (x # xs @ m @ ys) = take ?n ((x # xs @ butlast m) @ last m # ys)"
    using append_butlast_last_id [OF assms(2)] by (metis append.assoc append_Cons append_Nil)
  also have "\<dots> = take ?n (x # xs @ butlast m)"
    using assms(2) by (cases m rule: rev_cases) auto
  finally have "take ?n (x # xs @ m @ ys) = take ?n (x # xs @ butlast m)" .
  with Cons show ?case by (auto split: if_splits)
qed

lemma length_marker_codes: "length marker_codes = 10"
  by (simp add: marker_codes_def IDPASSKEY_MARKER_def)

lemma after_butlast_marker:
  "after marker_codes xs = None \<Longrightarrow> after marker_codes (xs @ butlast marker_codes) = None"
proof (induction xs)
  case Nil
  then show ?case by (simp add: marker_codes_def IDPASSKEY_MARKER_def)
next
  case (Cons x xs)
  let ?k = "length (x # xs)"
  have "take (length marker_codes) ((x # xs) @ butlast marker_codes) \<noteq> marker_codes"
  proof (cases "length marker_codes \<le> ?k")
    case True
    then have "take (length marker_codes) ((x # xs) @ butlast marker_codes) = take (length marker_codes) (x # xs)"
      by (subst take_append) simp
    with Cons.prems show ?thesis by (auto split: if_splits)
  next
    case False
    have "take (length marker_codes) ((x # xs) @ butlast marker_codes) ! ?k = butlast marker_codes ! 0"
      using False by (simp add: nth_append)
    also have "\<dots> = 73" by (simp add: marker_codes_def IDPASSKEY_MARKER_def)
    finally have "take (length marker_codes) ((x # xs) @ butlast marker_codes) ! ?k = 73" .
    moreover have "?k \<in> {1, 2, 3, 4, 5, 6, 7, 8, 9}" using False
      unfolding length_marker_codes length_Cons insert_iff empty_iff by arith
    then have "marker_codes ! ?k \<noteq> 73"
      by (elim insertE) (simp_all add: marker_codes_def IDPASSKEY_MARKER_def)
    ultimately show ?thesis by metis
  qed
  with Cons show ?case by (auto split: if_splits)
qed

lemma credentials_answer:
  assumes "length i = ID_LEN" and "length p = PASSKEY_LEN" and "list_all is_ascii_alphanumeric (i @ p)"
  shows "credentials (map of_char (i @ ''/'' @ p) @ rest) = Some \<lparr>ip_id = i, ip_passkey = p\<rparr>"
proof -
  let ?w = "map of_char (i @ ''/'' @ p) :: nat list"
  have "list_all (\<lambda>c. c < 128) ?w"
    using assms(3) alphanumeric_neq(4) by (auto simp: list_all_iff)
  then have "utf8_codes ?w" by (rule utf8_codes_ascii)
  moreover have "CHR ''/'' \<notin> set i" using assms(3) alphanumeric_neq(1) by (auto simp: list_all_iff)
  then have "split_once CHR ''/'' (i @ ''/'' @ p) = Some (i, p)" by (simp add: split_once_append)
  moreover have "take (ID_LEN + 1 + PASSKEY_LEN) (?w @ rest) = ?w" using assms(1,2) by simp
  moreover have "map char_of ?w = i @ ''/'' @ p" by (simp add: comp_def char_of_eq_iff)
  ultimately show ?thesis
    using assms by (simp add: credentials_def Let_def)
qed

text \<open>The text between the first pair of single quotes of a command line.\<close>

definition single_quoted :: "string \<Rightarrow> string" where
  "single_quoted s = takeWhile (\<lambda>c. c \<noteq> CHR 0x27) (tl (dropWhile (\<lambda>c. c \<noteq> CHR 0x27) s))"

lemma single_quoted_split:
  assumes "CHR 0x27 \<notin> set pre" and "CHR 0x27 \<notin> set body"
  shows "single_quoted (pre @ CHR 0x27 # body @ CHR 0x27 # rest) = body"
proof -
  have "dropWhile (\<lambda>c. c \<noteq> CHR 0x27) (pre @ CHR 0x27 # body @ CHR 0x27 # rest) = CHR 0x27 # body @ CHR 0x27 # rest"
    using assms(1) by (induction pre) auto
  moreover have "takeWhile (\<lambda>c. c \<noteq> CHR 0x27) (body @ CHR 0x27 # rest) = body"
    using assms(2) by (induction body) auto
  ultimately show ?thesis by (simp add: single_quoted_def)
qed

lemma etterminal_command_shape:
  "\<exists>pre rest. etterminal_command i p t opts = pre @ CHR 0x27 # (i @ ''/'' @ p @ ''_'' @ t) @ CHR 0x27 # rest \<and>
    (CHR 0x27 \<in> set pre \<longrightarrow> kill_existing opts \<and> CHR 0x27 \<in> set (opt_user opts))"
proof (cases "kill_existing opts")
  case True
  let ?user = "if opt_user opts = [] then [CHR 0x24] @ ''USER'' else opt_user opts"
  show ?thesis
    by (cases "server_fifo opts"; rule exI [of _ "''pkill etterminal -u '' @ ?user @ ''; sleep 0.5; '' @ ''echo ''"])
      (auto simp: etterminal_command_def Let_def True)
next
  case False
  show ?thesis
    by (cases "server_fifo opts"; rule exI [of _ "''echo ''"]) (auto simp: etterminal_command_def Let_def False)
qed

section \<open>Properties\<close>

text \<open>C39. Decoding the output of \<^verbatim>\<open>ssh\<close> lossily before parsing changes nothing: for every output, valid
  UTF-8 or not, the result is that of the byte-level parser.\<close>

theorem parse_output_lossless:
  "parse_idpasskey_output (from_utf8_lossy out) = parse_idpasskey_bytes out"
  by (rule parse_lossy)

text \<open>C38. The handshake returns the credentials the server printed: whatever noise surrounds the
  answer, as long as the marker does not occur in what precedes it, and whatever the exit status.\<close>

theorem handshake_roundtrip:
  assumes "ssh (build_ssh_args dest command) = Ok (status, noise @ server_answer i p @ rest)"
    and "after (str_bytes IDPASSKEY_MARKER) noise = None"
    and "length i = ID_LEN" and "length p = PASSKEY_LEN" and "list_all is_ascii_alphanumeric (i @ p)"
  shows "run_ssh_handshake ssh dest command = Ok \<lparr>ip_id = i, ip_passkey = p\<rparr>"
proof -
  let ?m = "str_bytes IDPASSKEY_MARKER" and ?out = "noise @ server_answer i p @ rest"
  have m: "map unat ?m = marker_codes"
    by (simp add: marker_codes_def str_bytes_def unat_of_char)
  have "after marker_codes (map unat noise) = map_option (map unat) (after ?m noise)"
    unfolding m [symmetric] by (rule after_map, rule injI) (simp add: word_unat_eq_iff)
  with assms(2) have none: "after marker_codes (map unat noise) = None" by simp
  have "map unat ?out = map unat noise @ marker_codes @ map of_char (i @ ''/'' @ p) @ map unat rest"
    by (simp add: server_answer_def str_bytes_def marker_codes_def unat_of_char comp_def)
  moreover have "marker_codes \<noteq> []" using length_marker_codes by auto
  ultimately have "after marker_codes (map unat ?out) = Some (map of_char (i @ ''/'' @ p) @ map unat rest)"
    using after_fresh [OF after_butlast_marker [OF none]] by simp
  then have "parse_idpasskey_bytes ?out = Some \<lparr>ip_id = i, ip_passkey = p\<rparr>"
    using credentials_answer [OF assms(3-5)] by (simp add: parse_idpasskey_bytes_eq)
  moreover have "?out \<noteq> []" by (simp add: server_answer_def str_bytes_def)
  ultimately show ?thesis
    by (simp add: run_ssh_handshake_def assms(1) parse_lossy)
qed

theorem handshake_roundtrip_witness:
  "run_ssh_handshake (\<lambda>args. Ok (True, [200, 73] @ server_answer (replicate 16 CHR ''a'') (replicate 32 CHR ''b'') @ [10]))
      \<lparr>dest_user = [], dest_host = ''h'', dest_port = None, jumphost = None, ssh_options = []\<rparr> ''true'' =
    Ok \<lparr>ip_id = replicate 16 CHR ''a'', ip_passkey = replicate 32 CHR ''b''\<rparr>"
  by (rule handshake_roundtrip [OF refl])
    (simp_all add: IDPASSKEY_MARKER_def str_bytes_def ID_LEN_def PASSKEY_LEN_def list_all_iff is_ascii_alphanumeric_def Let_def)

text \<open>C40. Credentials read from the server cannot break out of the quoting of a command built from
  them: the parser lets only alphanumeric ones through, forty-eight characters in all, so the
  quoted word of the command is the id, the passkey and the terminal type.\<close>

theorem parsed_credentials_quote_safe:
  assumes "parse_idpasskey_bytes out = Some ip"
    and "CHR 0x27 \<notin> set client_term" and "CHR 0x27 \<notin> set (opt_user opts)"
  shows "length (ip_id ip) + length (ip_passkey ip) = ID_LEN + PASSKEY_LEN \<and>
    list_all is_ascii_alphanumeric (ip_id ip @ ip_passkey ip) \<and>
    single_quoted (etterminal_command (ip_id ip) (ip_passkey ip) client_term opts) =
      ip_id ip @ ''/'' @ ip_passkey ip @ ''_'' @ client_term"
proof -
  from assms(1) obtain rest where "credentials rest = Some ip"
    by (auto simp: parse_idpasskey_bytes_eq bind_eq_Some_conv)
  note c = credentials_Some [OF this]
  let ?b = "ip_id ip @ ''/'' @ ip_passkey ip @ ''_'' @ client_term"
  from c(2) assms(2) have "CHR 0x27 \<notin> set ?b"
    using alphanumeric_neq(2) by (auto simp: list_all_iff)
  moreover obtain pre tail where
    "etterminal_command (ip_id ip) (ip_passkey ip) client_term opts = pre @ CHR 0x27 # ?b @ CHR 0x27 # tail"
    "CHR 0x27 \<notin> set pre"
    using etterminal_command_shape [of "ip_id ip" "ip_passkey ip" client_term opts] assms(3) by auto
  ultimately have "single_quoted (etterminal_command (ip_id ip) (ip_passkey ip) client_term opts) = ?b"
    by (metis single_quoted_split)
  with c show ?thesis by simp
qed

theorem parsed_credentials_quote_safe_witness:
  "single_quoted (etterminal_command (replicate 16 CHR ''a'') (replicate 32 CHR ''b'') ''vt100'' TerminalCommandOptions_default) =
    replicate 16 CHR ''a'' @ ''/'' @ replicate 32 CHR ''b'' @ ''_'' @ ''vt100''"
proof -
  let ?i = "replicate 16 CHR ''a''" and ?p = "replicate 32 CHR ''b''"
  have "after marker_codes (map unat (server_answer ?i ?p)) = Some (map of_char (?i @ ''/'' @ ?p) @ [])"
    using after_fresh [of marker_codes "[]" "map of_char (?i @ ''/'' @ ?p)"] length_marker_codes
    by (simp add: server_answer_def str_bytes_def marker_codes_def unat_of_char comp_def IDPASSKEY_MARKER_def)
  then have "parse_idpasskey_bytes (server_answer ?i ?p) = Some \<lparr>ip_id = ?i, ip_passkey = ?p\<rparr>"
    unfolding parse_idpasskey_bytes_eq
    by (subst credentials_answer [symmetric, of ?i ?p "[]"])
      (simp_all add: ID_LEN_def PASSKEY_LEN_def list_all_iff is_ascii_alphanumeric_def Let_def)
  from parsed_credentials_quote_safe [OF this, of "''vt100''" TerminalCommandOptions_default]
  show ?thesis by (simp add: TerminalCommandOptions_default_def)
qed

end
