(* ===== verification/Tunnel.thy ===== *)
theory Tunnel
  imports Text Messages
begin

text \<open>
  The tunnel arguments of \<^verbatim>\<open>crates/et-proto/src/forward.rs\<close> (\<^verbatim>\<open>parse_ranges\<close> and what it calls): comma
  separated \<open>source:destination\<close> ports or port ranges, and \<open>bind:port:host:hostport\<close> as \<^verbatim>\<open>ssh\<close> has them. An
  abstract syntax of tunnels with its printer is what the parser is compared with.
\<close>

section \<open>The parser\<close>

datatype TunnelParseError =
    MissingDestination
  | RangeLengthMismatch
  | HalfRange
  | Invalid string string
  | PortOutOfRange int
  | UnsupportedSocket string

definition is_socket_path :: "string \<Rightarrow> bool" where
  "is_socket_path s \<longleftrightarrow> take 1 s = ''/''"

definition numeric_or_range :: "string \<Rightarrow> bool" where
  "numeric_or_range s \<longleftrightarrow> s \<noteq> [] \<and> list_all (\<lambda>c. is_ascii_digit c \<or> c = CHR ''-'') s"

definition parse_port :: "string \<Rightarrow> string \<Rightarrow> TunnelParseError + i32" where
  "parse_port v input =
     (case parse_i64 v of
        None \<Rightarrow> Err (Invalid input ''bad port'')
      | Some port \<Rightarrow>
          if \<not> (0 \<le> port \<and> port \<le> 65535) then Err (PortOutOfRange port)
          else Ok (word_of_int port))"

definition endpoint :: "string option \<Rightarrow> i32 option \<Rightarrow> SocketEndpoint" where
  "endpoint name port =
     SocketEndpoint_default\<lparr>SocketEndpoint_name := name, SocketEndpoint_port := port\<rparr>"

definition source_request :: "SocketEndpoint \<Rightarrow> SocketEndpoint \<Rightarrow> PortForwardSourceRequest" where
  "source_request source destination =
     PortForwardSourceRequest_default
       \<lparr>PortForwardSourceRequest_source := Some source,
        PortForwardSourceRequest_destination := Some destination\<rparr>"

definition process_et_style ::
    "PortForwardSourceRequest list \<Rightarrow> string list \<Rightarrow> string \<Rightarrow> TunnelParseError + PortForwardSourceRequest list" where
  "process_et_style out parts input =
     (if length parts < 2 then Err MissingDestination
      else
        (let src = parts ! 0; dst = parts ! 1;
             src_is_socket = is_socket_path src;
             src_is_numeric = numeric_or_range src;
             dst_is_numeric = numeric_or_range dst;
             dst_is_socket = is_socket_path dst
         in
         if src_is_socket \<or> dst_is_socket \<and> src_is_numeric then
           Err (UnsupportedSocket (if src_is_socket then src else dst))
         else if \<not> src_is_numeric \<and> \<not> dst_is_numeric \<and> src \<noteq> [] then
           Err (UnsupportedSocket (src @ '':'' @ dst))
         else if CHR ''-'' \<in> set src \<and> CHR ''-'' \<in> set dst then
           (let src_range = split_on CHR ''-'' src; dst_range = split_on CHR ''-'' dst in
            if length src_range \<noteq> 2 \<or> length dst_range \<noteq> 2 then Err (Invalid input ''bad range'')
            else
              res_bind (parse_port (src_range ! 0) input) (\<lambda>src_start.
              res_bind (parse_port (src_range ! 1) input) (\<lambda>src_end.
              res_bind (parse_port (dst_range ! 0) input) (\<lambda>dst_start.
              res_bind (parse_port (dst_range ! 1) input) (\<lambda>dst_end.
              if sint src_end < sint src_start \<or> sint dst_end < sint dst_start then
                Err (Invalid input ''port ranges must be ascending (start-end)'')
              else if src_end - src_start \<noteq> dst_end - dst_start then Err RangeLengthMismatch
              else
                Ok (out @
                  map (\<lambda>i. source_request (endpoint (Some ''localhost'') (Some (src_start + word_of_nat i)))
                             (endpoint None (Some (dst_start + word_of_nat i))))
                    [0..<Suc (nat (sint (src_end - src_start)))]))))))
         else if CHR ''-'' \<in> set src \<or> CHR ''-'' \<in> set dst then Err HalfRange
         else
           res_bind (parse_port src input) (\<lambda>s.
           res_bind (parse_port dst input) (\<lambda>d.
           Ok (out @ [source_request (endpoint (Some ''localhost'') (Some s)) (endpoint None (Some d))])))))"

text \<open>The loop over the characters, with the pieces so far, the current piece and the bracket flag.\<close>

fun ssh_pieces :: "string list \<Rightarrow> string \<Rightarrow> bool \<Rightarrow> string \<Rightarrow> string list" where
  "ssh_pieces parts current in_brackets [] = parts @ [current]"
| "ssh_pieces parts current in_brackets (c # cs) =
     (if c = CHR ''['' then ssh_pieces parts current True cs
      else if c = CHR '']'' then ssh_pieces parts current False cs
      else if c = CHR '':'' \<and> \<not> in_brackets then ssh_pieces (parts @ [current]) [] in_brackets cs
      else ssh_pieces parts (current @ [c]) in_brackets cs)"

definition parse_ssh_tunnel_arg :: "string \<Rightarrow> TunnelParseError + string list" where
  "parse_ssh_tunnel_arg input =
     (let parts = ssh_pieces [] [] False input in
      if length parts < 4 then
        Err (Invalid input ''the 4 part ssh-style tunneling arg (bind_address:port:host:hostport) must be supplied'')
      else if 4 < length parts then
        Err (Invalid input ''ipv6 addresses must be inside of square brackets, ie [::1]:8080:[::]:9090'')
      else Ok parts)"

text \<open>The body of the loop of \<^verbatim>\<open>parse_ranges\<close>, and the loop.\<close>

definition parse_element ::
    "string \<Rightarrow> PortForwardSourceRequest list \<Rightarrow> string \<Rightarrow> TunnelParseError + PortForwardSourceRequest list" where
  "parse_element input out element0 =
     (let element = trim element0 in
      if element = [] then Ok out
      else
        (let parts = split_on CHR '':'' element in
         if length parts \<le> 2 then process_et_style out parts input
         else
           res_bind (parse_ssh_tunnel_arg element) (\<lambda>ssh.
           res_bind (parse_port (ssh ! 1) input) (\<lambda>p.
           res_bind (parse_port (ssh ! 3) input) (\<lambda>q.
           Ok (out @ [source_request (endpoint (Some (ssh ! 0)) (Some p)) (endpoint (Some (ssh ! 2)) (Some q))]))))))"

fun parse_elements ::
    "string \<Rightarrow> PortForwardSourceRequest list \<Rightarrow> string list \<Rightarrow> TunnelParseError + PortForwardSourceRequest list" where
  "parse_elements input out [] = Ok out"
| "parse_elements input out (e # es) =
     res_bind (parse_element input out e) (\<lambda>out'. parse_elements input out' es)"

definition parse_ranges :: "string \<Rightarrow> TunnelParseError + PortForwardSourceRequest list" where
  "parse_ranges input = parse_elements input [] (split_on CHR '','' input)"

section \<open>Ports\<close>

definition port_ok :: "i32 \<Rightarrow> bool" where
  "port_ok p \<longleftrightarrow> 0 \<le> sint p \<and> sint p \<le> 65535"

definition endpoint_ok :: "SocketEndpoint option \<Rightarrow> bool" where
  "endpoint_ok e \<longleftrightarrow>
     (case e of
        Some ep \<Rightarrow> (case SocketEndpoint_port ep of Some p \<Rightarrow> port_ok p | None \<Rightarrow> False)
      | None \<Rightarrow> False)"

text \<open>What the engine needs of a request: both ends with a port, and a name to bind the source to.\<close>

definition request_ok :: "PortForwardSourceRequest \<Rightarrow> bool" where
  "request_ok r \<longleftrightarrow>
     endpoint_ok (PortForwardSourceRequest_source r) \<and> endpoint_ok (PortForwardSourceRequest_destination r) \<and>
     SocketEndpoint_name (the (PortForwardSourceRequest_source r)) \<noteq> None"

lemma sint_port: "0 \<le> v \<Longrightarrow> v \<le> 65535 \<Longrightarrow> sint (word_of_int v :: i32) = v"
  by (simp add: sint_sbintrunc' signed_take_bit_int_eq_self)

lemma parse_port_ok: "parse_port v input = Ok p \<Longrightarrow> port_ok p"
  by (auto simp: parse_port_def port_ok_def sint_port split: option.splits if_splits)

lemma request_ok_source_request:
  "port_ok p \<Longrightarrow> port_ok q \<Longrightarrow> request_ok (source_request (endpoint (Some n) (Some p)) (endpoint m (Some q)))"
  by (simp add: request_ok_def source_request_def endpoint_def endpoint_ok_def)

lemma sint_port_diff:
  "port_ok a \<Longrightarrow> port_ok b \<Longrightarrow> sint (b - a) = sint b - sint a"
  by (simp add: port_ok_def sint_word_ariths(2) signed_take_bit_int_eq_self)

lemma sint_port_add:
  assumes "port_ok a" and "sint a + int i \<le> 65535"
  shows "sint (a + word_of_nat i) = sint a + int i"
proof -
  have "sint (word_of_nat i :: i32) = int i"
    using assms sint_port [of "int i"] by (simp add: port_ok_def)
  with assms show ?thesis
    by (simp add: port_ok_def sint_word_ariths(1) signed_take_bit_int_eq_self)
qed

lemma port_ok_add: "port_ok a \<Longrightarrow> sint a + int i \<le> 65535 \<Longrightarrow> port_ok (a + word_of_nat i)"
  by (simp add: port_ok_def sint_port_add [unfolded port_ok_def])

lemma process_et_style_ok:
  assumes "process_et_style out parts input = Ok out'" and "list_all request_ok out"
  shows "list_all request_ok out'"
proof -
  have range: "list_all request_ok
      (map (\<lambda>i. source_request (endpoint (Some n) (Some (s + word_of_nat i))) (endpoint None (Some (d + word_of_nat i))))
        [0..<Suc (nat (sint (d' - d)))])"
    if "s' - s = d' - d" "port_ok s" "port_ok s'" "port_ok d" "port_ok d'" "sint s \<le> sint s'" for n s s' d d'
  proof -
    have "sint s' - sint s = sint d' - sint d"
      using that sint_port_diff by metis
    with that have "request_ok (source_request (endpoint (Some n) (Some (s + word_of_nat i))) (endpoint None (Some (d + word_of_nat i))))"
      if "i \<le> nat (sint (d' - d))" for i
      using that by (intro request_ok_source_request port_ok_add) (auto simp: sint_port_diff port_ok_def)
    then show ?thesis by (auto simp: list_all_iff simp del: upt_Suc)
  qed
  show ?thesis
    using assms
    by (auto simp: process_et_style_def Let_def res_bind_eq_Inr_iff not_less simp del: upt_Suc split: if_splits
        intro!: request_ok_source_request elim: parse_port_ok)
      (rule range, assumption, (erule parse_port_ok)+, assumption)+
qed

lemma parse_element_ok:
  "parse_element input out e = Ok out' \<Longrightarrow> list_all request_ok out \<Longrightarrow> list_all request_ok out'"
  by (auto simp: parse_element_def Let_def res_bind_eq_Inr_iff split: if_splits
      dest: parse_port_ok process_et_style_ok intro!: request_ok_source_request)

lemma parse_elements_ok:
  "parse_elements input out es = Ok out' \<Longrightarrow> list_all request_ok out \<Longrightarrow> list_all request_ok out'"
  by (induction es arbitrary: out) (auto simp: res_bind_eq_Inr_iff dest: parse_element_ok)

section \<open>Printing tunnels\<close>

datatype tunnel =
    Single nat nat
  | Range nat nat nat
  | Bound string nat string nat

definition show_name :: "string \<Rightarrow> string" where
  "show_name n = (if CHR '':'' \<in> set n then ''['' @ n @ '']'' else n)"

fun show_tunnel :: "tunnel \<Rightarrow> string" where
  "show_tunnel (Single s d) = show_nat s @ '':'' @ show_nat d"
| "show_tunnel (Range s d n) =
     show_nat s @ ''-'' @ show_nat (s + n) @ '':'' @ show_nat d @ ''-'' @ show_nat (d + n)"
| "show_tunnel (Bound b p h q) = show_name b @ '':'' @ show_nat p @ '':'' @ show_name h @ '':'' @ show_nat q"

definition name_ok :: "string \<Rightarrow> bool" where
  "name_ok n \<longleftrightarrow> n \<noteq> [] \<and> visible (hd n) \<and> CHR '','' \<notin> set n \<and> CHR ''['' \<notin> set n \<and> CHR '']'' \<notin> set n"

fun tunnel_ok :: "tunnel \<Rightarrow> bool" where
  "tunnel_ok (Single s d) \<longleftrightarrow> s \<le> 65535 \<and> d \<le> 65535"
| "tunnel_ok (Range s d n) \<longleftrightarrow> s + n \<le> 65535 \<and> d + n \<le> 65535"
| "tunnel_ok (Bound b p h q) \<longleftrightarrow> name_ok b \<and> name_ok h \<and> p \<le> 65535 \<and> q \<le> 65535"

text \<open>The requests a tunnel stands for.\<close>

definition local_request :: "nat \<Rightarrow> nat \<Rightarrow> PortForwardSourceRequest" where
  "local_request s d =
     source_request (endpoint (Some ''localhost'') (Some (word_of_nat s))) (endpoint None (Some (word_of_nat d)))"

fun requests :: "tunnel \<Rightarrow> PortForwardSourceRequest list" where
  "requests (Single s d) = [local_request s d]"
| "requests (Range s d n) = map (\<lambda>i. local_request (s + i) (d + i)) [0..<Suc n]"
| "requests (Bound b p h q) =
     [source_request (endpoint (Some b) (Some (word_of_nat p))) (endpoint (Some h) (Some (word_of_nat q)))]"

lemma parse_port_show: "n \<le> 65535 \<Longrightarrow> parse_port (show_nat n) input = Ok (word_of_nat n)"
  by (simp add: parse_port_def parse_i64_show_nat)

lemma numeric_show: "numeric_or_range (show_nat n)" "numeric_or_range (show_nat n @ CHR ''-'' # show_nat m)"
  using show_nat_digits [of n] show_nat_digits [of m] by (auto simp: numeric_or_range_def list_all_iff)

lemma show_nat_not_socket: "\<not> is_socket_path (show_nat n)" "\<not> is_socket_path (show_nat n @ s)"
proof -
  obtain c cs where c: "show_nat n = c # cs" by (cases "show_nat n") auto
  with show_nat_notin(6) [of n] have "c \<noteq> CHR ''/''" by auto
  with c show "\<not> is_socket_path (show_nat n)" "\<not> is_socket_path (show_nat n @ s)"
    by (simp_all add: is_socket_path_def)
qed

lemma split_range: "split_on CHR ''-'' (show_nat a @ CHR ''-'' # show_nat b) = [show_nat a, show_nat b]"
  by (simp add: split_on_Cons split_on_piece show_nat_notin)

lemma sint_port_nat: "a \<le> 65535 \<Longrightarrow> sint (word_of_nat a :: i32) = int a"
  using sint_port [of "int a"] by simp

lemma port_nat_inject: "a \<le> 65535 \<Longrightarrow> b \<le> 65535 \<Longrightarrow> (word_of_nat a :: i32) = word_of_nat b \<longleftrightarrow> a = b"
  using sint_port_nat [of a] sint_port_nat [of b] by (metis of_nat_eq_iff [where ?'a = int])

lemma port_nat_diff: "a \<le> b \<Longrightarrow> (word_of_nat b :: i32) - word_of_nat a = word_of_nat (b - a)"
  by (simp add: of_nat_diff)

lemmas et_style_simps =
  process_et_style_def numeric_show show_nat_not_socket show_nat_notin split_range parse_port_show Let_def
  sint_port_nat local_request_def

lemma process_single:
  assumes "s \<le> 65535" and "d \<le> 65535"
  shows "process_et_style out [show_nat s, show_nat d] input = Ok (out @ requests (Single s d))"
  using assms
  by (simp add: et_style_simps)

lemma process_range:
  assumes "s + n \<le> 65535" and "d + n \<le> 65535"
  shows "process_et_style out [show_nat s @ CHR ''-'' # show_nat (s + n), show_nat d @ CHR ''-'' # show_nat (d + n)] input =
    Ok (out @ requests (Range s d n))"
proof -
  have diff: "(word_of_nat (a + n) :: i32) - word_of_nat a = word_of_nat n" for a by simp
  from assms show ?thesis
    by (simp add: et_style_simps del: upt_Suc of_nat_add) (simp add: diff sint_port_nat del: upt_Suc)
qed

lemma ssh_pieces_plain:
  "CHR ''['' \<notin> set n \<Longrightarrow> CHR '']'' \<notin> set n \<Longrightarrow> CHR '':'' \<notin> set n \<or> br \<Longrightarrow>
    ssh_pieces ps cur br (n @ rest) = ssh_pieces ps (cur @ n) br rest"
  by (induction n arbitrary: cur) auto

lemma ssh_pieces_name:
  assumes "name_ok n"
  shows "ssh_pieces ps [] False (show_name n @ rest) = ssh_pieces ps n False rest"
  using assms ssh_pieces_plain [of n True ps "[]" "CHR '']'' # rest"] ssh_pieces_plain [of n False ps "[]" rest]
  by (auto simp: show_name_def name_ok_def)

lemma parse_ssh_show:
  assumes "name_ok b" and "name_ok h"
  shows "parse_ssh_tunnel_arg (show_tunnel (Bound b p h q)) = Ok [b, show_nat p, h, show_nat q]"
proof -
  have num: "ssh_pieces ps [] False (show_nat k @ rest) = ssh_pieces ps (show_nat k) False rest" for ps k rest
    using ssh_pieces_plain [of "show_nat k" False ps "[]" rest] by (simp add: show_nat_notin)
  have "ssh_pieces [] [] False (show_tunnel (Bound b p h q)) = [b, show_nat p, h, show_nat q]"
    using num [where rest = "[]"] by (simp add: ssh_pieces_name [OF assms(1)] ssh_pieces_name [OF assms(2)] num)
  then show ?thesis by (simp add: parse_ssh_tunnel_arg_def)
qed

lemma show_nat_visible: "visible (hd (show_nat n))" "visible (last (show_nat n))"
  using show_nat_digits [of n] hd_in_set [of "show_nat n"] last_in_set [of "show_nat n"] is_ascii_digit_neq(8)
  unfolding list_all_iff by (metis show_nat_nonempty)+

lemma show_name_visible:
  assumes "name_ok n"
  shows "show_name n \<noteq> []" "visible (hd (show_name n))" "CHR '','' \<notin> set (show_name n)"
  using assms by (auto simp: name_ok_def show_name_def visible_def)

lemma trim_show_tunnel: "tunnel_ok t \<Longrightarrow> trim (show_tunnel t) = show_tunnel t"
  by (rule trim_visible; cases t) (simp_all add: show_nat_visible show_name_visible)

lemma show_tunnel_no_comma: "tunnel_ok t \<Longrightarrow> CHR '','' \<notin> set (show_tunnel t)"
  by (cases t) (auto simp: show_nat_notin dest: show_name_visible(3))

lemma length_split_on: "length (split_on c s) = Suc (count_list s c)"
proof (induction s)
  case (Cons x xs)
  then show ?case by (cases "split_on c xs") auto
qed simp

lemma parse_element_show:
  assumes "tunnel_ok t"
  shows "parse_element input out (show_tunnel t) = Ok (out @ requests t)"
proof -
  have ne: "show_tunnel t \<noteq> []" by (cases t) simp_all
  show ?thesis
  proof (cases t)
    case (Single s d)
    have "split_on CHR '':'' (show_tunnel t) = [show_nat s, show_nat d]"
      by (simp add: Single split_on_Cons split_on_piece show_nat_notin)
    with Single assms ne show ?thesis
      by (simp add: parse_element_def trim_show_tunnel process_single del: show_tunnel.simps requests.simps)
  next
    case (Range s d n)
    have "split_on CHR '':'' (show_tunnel t) =
        [show_nat s @ CHR ''-'' # show_nat (s + n), show_nat d @ CHR ''-'' # show_nat (d + n)]"
      using split_on_Cons [of "CHR '':''" "show_nat s @ CHR ''-'' # show_nat (s + n)"]
      by (simp add: Range split_on_piece show_nat_notin)
    with Range assms ne show ?thesis
      by (simp add: parse_element_def trim_show_tunnel process_range del: show_tunnel.simps requests.simps)
  next
    case (Bound b p h q)
    have "2 < length (split_on CHR '':'' (show_tunnel t))"
      by (simp add: Bound length_split_on)
    with Bound assms ne show ?thesis
      by (simp add: parse_element_def trim_show_tunnel parse_ssh_show parse_port_show del: show_tunnel.simps)
  qed
qed

lemma parse_elements_show:
  "list_all tunnel_ok ts \<Longrightarrow> parse_elements input out (map show_tunnel ts) = Ok (out @ concat (map requests ts))"
  by (induction ts arbitrary: out) (simp_all add: parse_element_show del: show_tunnel.simps requests.simps)

section \<open>Properties\<close>

text \<open>C36. What is printed parses back: for any list of tunnels with ports and names in range, the
  argument that lists them parses to exactly their requests, in order, a range giving one request
  for each of its ports and a name with colons standing in brackets.\<close>

theorem parse_ranges_roundtrip:
  assumes "list_all tunnel_ok ts"
  shows "parse_ranges (join_with CHR '','' (map show_tunnel ts)) = Ok (concat (map requests ts))"
proof (cases "ts = []")
  case True
  then show ?thesis by (simp add: parse_ranges_def parse_element_def)
next
  case False
  with assms have "split_on CHR '','' (join_with CHR '','' (map show_tunnel ts)) = map show_tunnel ts"
    by (intro split_on_join) (auto simp: list_all_iff dest: show_tunnel_no_comma)
  with parse_elements_show [OF assms] show ?thesis
    by (simp add: parse_ranges_def)
qed

theorem parse_ranges_roundtrip_witness:
  "parse_ranges (join_with CHR '','' (map show_tunnel [Range 8000 9000 2, Bound ''::1'' 80 ''db'' 5432])) =
    Ok [local_request 8000 9000, local_request 8001 9001, local_request 8002 9002,
        source_request (endpoint (Some ''::1'') (Some 80)) (endpoint (Some ''db'') (Some 5432))]"
proof -
  have "list_all tunnel_ok [Range 8000 9000 2, Bound ''::1'' 80 ''db'' 5432]"
    by (simp add: name_ok_def visible_def)
  from parse_ranges_roundtrip [OF this] show ?thesis
    by (simp add: upt_rec numeral_2_eq_2 del: show_tunnel.simps map_append)
qed

text \<open>C37. Every request the parser lets through can be used: both ends have a port between 0 and 65535,
  and the source has a name to bind set, which may be the empty string.\<close>

theorem parse_ranges_type:
  assumes "parse_ranges input = Ok reqs"
  shows "list_all request_ok reqs"
  using assms by (auto simp: parse_ranges_def dest: parse_elements_ok)

theorem parse_ranges_type_witness: "list_all request_ok [local_request 80 8080]"
proof -
  have "parse_ranges (join_with CHR '','' (map show_tunnel [Single 80 8080])) = Ok [local_request 80 8080]"
    unfolding parse_ranges_def
    by (subst split_on_join)
      (use parse_elements_show [of "[Single 80 8080]"] show_tunnel_no_comma [of "Single 80 8080"] in
        \<open>simp_all del: show_tunnel.simps\<close>)
  then show ?thesis by (rule parse_ranges_type)
qed

text \<open>A port range on both sides is accepted exactly when both ascend and have the same length;
  a descending range and ranges of different length are each rejected with their own error, and
  a range facing a single port is rejected too.\<close>

theorem range_outcome:
  assumes "a \<le> 65535" and "b \<le> 65535" and "c \<le> 65535" and "d \<le> 65535"
  shows "let input = show_nat a @ ''-'' @ show_nat b @ '':'' @ show_nat c @ ''-'' @ show_nat d;
      half = show_nat a @ ''-'' @ show_nat b @ '':'' @ show_nat c in
    parse_ranges half = Err HalfRange \<and>
    parse_ranges input =
      (if b < a \<or> d < c then Err (Invalid input ''port ranges must be ascending (start-end)'')
       else if b - a \<noteq> d - c then Err RangeLengthMismatch
       else Ok (map (\<lambda>i. local_request (a + i) (c + i)) [0..<Suc (b - a)]))"
proof -
  let ?src = "show_nat a @ CHR ''-'' # show_nat b" and ?dst = "show_nat c @ CHR ''-'' # show_nat d"
  have range: "process_et_style [] [?src, ?dst] input =
      (if b < a \<or> d < c then Err (Invalid input ''port ranges must be ascending (start-end)'')
       else if b - a \<noteq> d - c then Err RangeLengthMismatch
       else Ok (map (\<lambda>i. local_request (a + i) (c + i)) [0..<Suc (b - a)]))" for input
  proof (cases "b < a \<or> d < c")
    case True
    with assms show ?thesis by (simp add: et_style_simps del: upt_Suc)
  next
    case False
    with assms port_nat_diff [of a b] port_nat_diff [of c d] port_nat_inject [of "b - a" "d - c"] show ?thesis
      by (simp add: et_style_simps not_less del: upt_Suc of_nat_diff)
  qed
  have half: "process_et_style [] [?src, show_nat c] input = Err HalfRange" for input
    by (simp add: et_style_simps)
  have elem: "parse_ranges (?src @ CHR '':'' # t) = process_et_style [] [?src, t] (?src @ CHR '':'' # t)"
    if "CHR '':'' \<notin> set t" "CHR '','' \<notin> set t" "t \<noteq> []" "visible (last t)" for t
  proof -
    have "trim (?src @ CHR '':'' # t) = ?src @ CHR '':'' # t"
      using that by (intro trim_visible) (simp_all add: show_nat_visible)
    moreover have "split_on CHR '':'' (?src @ CHR '':'' # t) = [?src, t]"
      using split_on_Cons [of "CHR '':''" ?src t] that by (simp add: split_on_piece show_nat_notin)
    moreover have "split_on CHR '','' (?src @ CHR '':'' # t) = [?src @ CHR '':'' # t]"
      using that by (intro split_on_piece) (simp add: show_nat_notin)
    ultimately show ?thesis
      by (simp add: parse_ranges_def parse_element_def res_bind_def split: sum.split)
  qed
  from elem [of ?dst] elem [of "show_nat c"] range half show ?thesis
    by (simp add: show_nat_notin show_nat_visible del: upt_Suc)
qed

theorem range_outcome_witness:
  "parse_ranges (show_nat 80 @ ''-'' @ show_nat 82 @ '':'' @ show_nat 90 @ ''-'' @ show_nat 91) = Err RangeLengthMismatch"
  using range_outcome [of 80 82 90 91] by (simp add: Let_def)

end
