(* ===== verification/Spec2Isabelle.thy ===== *)
theory Spec2Isabelle
  imports Builders Client_Link Session_Spec Ssh Tunnel
begin

text \<open>
  Verification of the \<^verbatim>\<open>et-client\<close> repository: a client of the EternalTerminal protocol, in Rust.

  \<^bold>\<open>The program.\<close> \<^verbatim>\<open>crates/et-proto\<close> is the protocol and \<^verbatim>\<open>crates/et-client\<close> the terminal client on top of it.
  An SSH handshake (\<^verbatim>\<open>ssh.rs\<close>) obtains an id and a passkey (\<^verbatim>\<open>ids.rs\<close>). A client connection
  (\<^verbatim>\<open>client.rs\<close>) opens TCP sockets, runs a plaintext handshake in protobuf frames (\<^verbatim>\<open>framing.rs\<close>,
  \<^verbatim>\<open>gen/et.rs\<close>), and gives each socket to a backed connection (\<^verbatim>\<open>backed.rs\<close>), a task that encrypts packets
  (\<^verbatim>\<open>crypto.rs\<close>, \<^verbatim>\<open>packet.rs\<close>), keeps the ciphertexts, and sends again what a new socket shows to be
  missing. A supervisor task reconnects. A terminal session (\<^verbatim>\<open>session.rs\<close>) starts over a client
  connection and pumps packets between the user, the client and the port-forwarding engine
  (\<^verbatim>\<open>forward.rs\<close>), another task, which carries local TCP connections.

  \<^bold>\<open>How it is modelled.\<close> Pure functions are HOL functions; fallible ones return \<open>error + value\<close>, and a
  panic is a value too. Machine integers are words where their width matters. An async task is a
  record, with the fields of the Rust struct and a program counter that has one value for each
  \<^verbatim>\<open>await\<close>, and a step function that runs it from one await to the next under a stimulus. A run is a
  list of stimuli, so a theorem about all runs is one about all interleavings of the tasks, the
  network, the timers and the owner's calls. Fields that only record the past are named in the
  text of each theory. Code outside the repository is a parameter: the cipher (record \<open>secretbox\<close>,
  laws \<open>secretbox_ok\<close> and \<open>secretbox_authentic\<close>, instance \<open>sum_box\<close>), the protobuf runtime (record \<open>buffa\<close>,
  laws \<open>buffa_ok\<close>, instance \<open>wire\<close>; its \<^verbatim>\<open>encode_to_vec\<close> is the generated \<^verbatim>\<open>write_to\<close>, for messages within its limit of
  two gibibytes), the network, the system's randomness, the run of ssh.

  \<^bold>\<open>Theories, sources, and what is shown.\<close>
  \<^item> \<open>Prelude\<close>: results, integer/byte conversions, UTF-8 validity, and the locales that turn a step
    into facts about runs: \<open>invariant_machine\<close> and \<open>logging_machine\<close> for step functions, and \<open>simulation\<close> for a step
    relation whose steps are runs of a specification.
  \<^item> \<open>Crypto\<close> (\<^verbatim>\<open>crypto.rs\<close>), \<open>Packet\<close> (\<^verbatim>\<open>packet.rs\<close>): no two encryptions use the same nonce; encryption and
    decryption stay in lockstep.
  \<^item> \<open>Framing\<close> (\<^verbatim>\<open>framing.rs\<close>): both frame formats, with every error; streams of frames are read back.
    The locale \<open>frame_codec\<close> is interpreted on both formats.
  \<^item> \<open>Messages\<close> (\<^verbatim>\<open>lib.rs\<close> and the types of \<^verbatim>\<open>gen/et.rs\<close>), \<open>Buffa\<close>, \<open>Codec\<close> (the \<^verbatim>\<open>Message\<close>
    implementations of \<^verbatim>\<open>gen/et.rs\<close>: \<^verbatim>\<open>compute_size\<close>, \<^verbatim>\<open>write_to\<close>, \<^verbatim>\<open>merge_field\<close>, \<^verbatim>\<open>clear\<close>), \<open>Wire\<close> (a runtime with
    the laws), \<open>Builders\<close> (\<^verbatim>\<open>with_*\<close>, \<^verbatim>\<open>ExtensionSet\<close>, \<^verbatim>\<open>MessageName\<close>), \<open>Codec_Spec\<close>: every message within protobuf's limit decodes from
    its encoding, sizes are exact, unknown enumeration values are kept.
  \<^item> \<open>Timed_IO\<close> (\<^verbatim>\<open>write_frame_idle\<close>, \<^verbatim>\<open>read_frame_idle\<close>), \<open>Backed\<close> (the actor and handle of \<^verbatim>\<open>backed.rs\<close>),
    \<open>Backed_Inv\<close> and \<open>Backed_Step\<close> (its invariant), \<open>Backed_Spec\<close>: what is delivered is a prefix of what the
    peer wrote, in payload if nothing is forged and in header if nothing is altered; the backup is the end of the history; each command on every branch; a recovery is
    bounded in time and changes nothing when it fails; the task never panics and ends once.
  \<^item> \<open>Resume\<close>: two ends that recover on each other's bytes agree, and every packet written is then
    delivered exactly once.
  \<^item> \<open>Client\<close> (\<^verbatim>\<open>client.rs\<close>), \<open>Client_Spec\<close>, \<open>Writes\<close>: the handshake on every status, the supervisor, and the
    owner's operations; the owner receives a prefix of what the server wrote, gets one terminal
    event at most, and a server that answers again is joined again.
  \<^item> \<open>Reconnect\<close>: in every run, a recovery by the supervisor finds the connection without a socket, waiting, and
    with every frame delivered and every event taken.
  \<^item> \<open>Link\<close>, \<open>Link_Spec\<close>: two ends of a session and the network between them, as a step relation. Sockets fail and
    lose what is on them, each end notices at its own time, and recoveries fail, or succeed at both ends or
    at one, whenever a task serves them; an end that has served one with frames still undelivered is marked hasty.
    The locale \<open>reading\<close> carries what is known of a reading end through every step, and is interpreted for ends
    that are not hasty and for those that are. Every step is a run of two reliable channels; an end that is not
    hasty never takes the other's packets for forgeries; and from every state with no hasty end there is a way on
    that delivers everything.
  \<^item> \<open>Client_Link\<close>: a whole client, with supervisor and owner, and a server's end over that network. It is a link
    in which the client is never hasty, so a reliable channel each way, and after a reconnect of both ends the owner
    can receive everything the server has written.
  \<^item> \<open>Text\<close> (the parts of Rust's \<^verbatim>\<open>str\<close> in use), \<open>Ids\<close> (\<^verbatim>\<open>ids.rs\<close>), \<open>Ssh\<close> (\<^verbatim>\<open>ssh.rs\<close>), \<open>Tunnel\<close> (the
    tunnel arguments of \<^verbatim>\<open>forward.rs\<close>): the sampling of credentials, the parse of the server's answer
    through a lossy decoding, quoting, and the round trip of tunnel arguments.
  \<^item> \<open>Engine\<close> (the engine task of \<^verbatim>\<open>forward.rs\<close>), \<open>Engine_Spec\<close>, \<open>Engine_Queues\<close>: every local connection is
    tracked or closed once, the peer's share is bounded, tunnels open under one id and carry bytes
    unchanged both ways, and a step adds a bounded amount to each queue.
  \<^item> \<open>Session\<close> (\<^verbatim>\<open>session.rs\<close>), \<open>Session_Inv\<close>, \<open>Session_Life\<close>, \<open>Session_Spec\<close>: the session together with its
    client and its engine. Every event has one place to go; a packet for the engine is lost only if
    the session ended, the engine stopped, or the owner dropped a call that held it; the queues keep their bounds; a pump parked on a full engine goes on; an ended
    session drains; a start grants a session only on the server's word and tries a bounded number
    of times.

  \<^bold>\<open>Bounds.\<close> No definition has fuel. Where a loop is driven by its surroundings, the function recurses
  over what they supply and \<open>None\<close> means that it is still waiting: \<open>sample_loop\<close> over the buffers of
  randomness (it returns exactly when they hold enough usable bytes) and \<open>start_connect\<close> over one network for each attempt (sixteen attempts are
  enough, by its time limit). Times are natural numbers of milliseconds; counters that are \<^verbatim>\<open>i64\<close> in
  the source are integers, with the narrowing to \<^verbatim>\<open>i32\<close> on the wire kept. The nonce counter has all its
  bytes, and its use is bounded by \<open>256 ^ 23\<close> operations.

  \<^bold>\<open>Not modelled.\<close>
  \<^item> The cipher, the protobuf runtime, tokio's scheduler, sockets and clocks: not in the repository.
    What the code relies on is a hypothesis or a stimulus.
  \<^item> Debug output, the zeroizing \<^verbatim>\<open>Drop\<close> of secrets, and the texts of error messages, which have no
    part in any result; errors are constructors. The camel-case aliases of the enumeration values
    in \<^verbatim>\<open>gen/et.rs\<close> are the values themselves.
  \<^item> The one-second limit on the wait to send a terminal event, and the thirty seconds of a start's wait for
    its answer, are stimuli that may come at any moment, so the constants are not used.
  \<^item> The modules that only re-export (\<^verbatim>\<open>et-client/src/lib.rs\<close>, \<^verbatim>\<open>connection.rs\<close>, \<^verbatim>\<open>error.rs\<close>, \<^verbatim>\<open>gen/mod.rs\<close>),
    the schema files and the build tool \<^verbatim>\<open>tools/et-proto-gen\<close>, which generate \<^verbatim>\<open>gen/et.rs\<close>, the tests and the
    scripts: no behaviour of the client is in them.
\<close>

end
